(* ===== verification/Cortado_Prelude.thy ===== *)
theory Cortado_Prelude
  imports Main "HOL-Library.Word" "HOL-Library.AList"
begin

text \<open>
  Shared vocabulary of the development: the machine integers, \<^verbatim>\<open>anyhow\<close>
  errors as chains of context strings, and fallible state-passing computations (a method with
  \<^verbatim>\<open>&mut self\<close> that returns \<^verbatim>\<open>Result\<close>) with the rules that carry an
  invariant through them.
\<close>

unbundle bit_operations_syntax

named_theorems io_simps \<open>unfolding rules for fallible state-passing computations\<close>
named_theorems io_keep \<open>rules that lift an invariant through fallible computations\<close>

section \<open>Machine integers\<close>

type_synonym u8 = "8 word"
type_synonym u16 = "16 word"
type_synonym u32 = "32 word"
type_synonym u64 = "64 word"
type_synonym u128 = "128 word"
type_synonym bytes = "u8 list"

section \<open>Errors and fallible computations\<close>

text \<open>
  An \<^verbatim>\<open>anyhow::Error\<close> is its chain of messages, outermost context first:
  \<^verbatim>\<open>{e}\<close> prints the head, \<^verbatim>\<open>{e:#}\<close> prints the whole chain joined
  with a colon and a blank.
\<close>

type_synonym error = "string list"
type_synonym 'a result = "error + 'a"
type_synonym ('s, 'a) io = "'s \<Rightarrow> 'a result \<times> 's"

definition context_res :: "string \<Rightarrow> 'a result \<Rightarrow> 'a result" where
  "context_res c r = (case r of Inl e \<Rightarrow> Inl (c # e) | Inr x \<Rightarrow> Inr x)"

definition context_opt :: "string \<Rightarrow> 'a option \<Rightarrow> 'a result" where
  "context_opt c r = (case r of None \<Rightarrow> Inl [c] | Some x \<Rightarrow> Inr x)"

definition bind_res :: "'a result \<Rightarrow> ('a \<Rightarrow> 'b result) \<Rightarrow> 'b result" where
  "bind_res r f = (case r of Inl e \<Rightarrow> Inl e | Inr x \<Rightarrow> f x)"

fun display_error :: "error \<Rightarrow> string" where
  "display_error [] = []"
| "display_error (c # _) = c"

fun display_chain :: "error \<Rightarrow> string" where
  "display_chain [] = []"
| "display_chain [c] = c"
| "display_chain (c # cs) = c @ '': '' @ display_chain cs"

definition io_return :: "'a \<Rightarrow> ('s, 'a) io" where
  "io_return x = (\<lambda>s. (Inr x, s))"

definition io_bail :: "error \<Rightarrow> ('s, 'a) io" where
  "io_bail e = (\<lambda>s. (Inl e, s))"

definition io_lift :: "'a result \<Rightarrow> ('s, 'a) io" where
  "io_lift r = (\<lambda>s. (r, s))"

definition io_bind :: "('s, 'a) io \<Rightarrow> ('a \<Rightarrow> ('s, 'b) io) \<Rightarrow> ('s, 'b) io" where
  "io_bind m f = (\<lambda>s. case m s of (Inl e, s') \<Rightarrow> (Inl e, s') | (Inr x, s') \<Rightarrow> f x s')"

text \<open>\<open>io_catch\<close> hands the result to the caller as a value: \<^verbatim>\<open>if let Err(e) = ..\<close>.\<close>

definition io_catch :: "('s, 'a) io \<Rightarrow> ('s, 'a result) io" where
  "io_catch m = (\<lambda>s. case m s of (r, s') \<Rightarrow> (Inr r, s'))"

definition io_context :: "string \<Rightarrow> ('s, 'a) io \<Rightarrow> ('s, 'a) io" where
  "io_context c m = (\<lambda>s. case m s of (r, s') \<Rightarrow> (context_res c r, s'))"

definition io_gets :: "('s \<Rightarrow> 'a) \<Rightarrow> ('s, 'a) io" where
  "io_gets f = (\<lambda>s. (Inr (f s), s))"

definition io_modify :: "('s \<Rightarrow> 's) \<Rightarrow> ('s, unit) io" where
  "io_modify f = (\<lambda>s. (Inr (), f s))"

text \<open>\<open>io_zoom\<close> runs a computation on a part of the state: a call on a field of \<^verbatim>\<open>self\<close>.\<close>

definition io_zoom :: "('s \<Rightarrow> 't) \<Rightarrow> ('t \<Rightarrow> 's \<Rightarrow> 's) \<Rightarrow> ('t, 'a) io \<Rightarrow> ('s, 'a) io" where
  "io_zoom sel upd m = (\<lambda>s. case m (sel s) of (r, t) \<Rightarrow> (r, upd t s))"

text \<open>A \<^verbatim>\<open>for\<close> loop whose body may return early with \<^verbatim>\<open>?\<close>.\<close>

fun io_for :: "'a list \<Rightarrow> ('a \<Rightarrow> ('s, unit) io) \<Rightarrow> ('s, unit) io" where
  "io_for [] f = io_return ()"
| "io_for (x # xs) f = io_bind (f x) (\<lambda>_. io_for xs f)"

lemmas io_defs = io_return_def io_bail_def io_lift_def io_bind_def io_catch_def io_context_def
  io_gets_def io_modify_def

lemma bind_res_simps [simp]:
  "bind_res (Inl e) f = Inl e" "bind_res (Inr x) f = f x"
  by (simp_all add: bind_res_def)

lemma context_res_simps [simp]:
  "context_res c (Inl e) = Inl (c # e)" "context_res c (Inr x) = Inr x"
  by (simp_all add: context_res_def)

lemma context_opt_simps [simp]:
  "context_opt c None = Inl [c]" "context_opt c (Some x) = Inr x"
  by (simp_all add: context_opt_def)

lemma context_res_Inr_iff [simp]: "context_res c r = Inr x \<longleftrightarrow> r = Inr x"
  by (cases r) simp_all

lemma context_opt_Inr_iff [simp]: "context_opt c r = Inr x \<longleftrightarrow> r = Some x"
  by (cases r) simp_all

lemma bind_res_Inr_iff: "bind_res r f = Inr y \<longleftrightarrow> (\<exists>x. r = Inr x \<and> f x = Inr y)"
  by (cases r) simp_all

lemma io_apply [io_simps]:
  "io_return x s = (Inr x, s)"
  "io_bail e s = (Inl e, s)"
  "io_lift r s = (r, s)"
  "io_gets g s = (Inr (g s), s)"
  "io_modify h s = (Inr (), h s)"
  by (simp_all add: io_defs)

lemma io_bind_apply [io_simps]:
  "io_bind m f s = (case m s of (Inl e, s') \<Rightarrow> (Inl e, s') | (Inr x, s') \<Rightarrow> f x s')"
  "io_catch m s = (case m s of (r, s') \<Rightarrow> (Inr r, s'))"
  "io_context c m s = (case m s of (r, s') \<Rightarrow> (context_res c r, s'))"
  by (simp_all add: io_defs)

lemma io_zoom_apply [io_simps]:
  "io_zoom sel upd m s = (case m (sel s) of (r, t) \<Rightarrow> (r, upd t s))"
  by (simp add: io_zoom_def)

lemma io_bind_ok: "m s = (Inr x, s') \<Longrightarrow> io_bind m f s = f x s'"
  by (simp add: io_simps)

lemma io_bind_okE:
  assumes "io_bind m f s = (Inr y, t)"
  obtains x s' where "m s = (Inr x, s')" and "f x s' = (Inr y, t)"
  using assms by (cases "m s"; cases "fst (m s)") (auto simp: io_simps)

lemma io_bind_unitE:
  assumes "io_bind (m :: ('s, unit) io) f s = (Inr y, t)"
  obtains s' where "m s = (Inr (), s')" and "f () s' = (Inr y, t)"
  using assms by (rule io_bind_okE) simp

subsection \<open>Invariants of computations\<close>

text \<open>\<open>keeps I m\<close>: whatever \<open>m\<close> returns, value or error, it leaves \<open>I\<close> true.\<close>

definition keeps :: "('s \<Rightarrow> bool) \<Rightarrow> ('s, 'a) io \<Rightarrow> bool" where
  "keeps I m \<longleftrightarrow> (\<forall>s. I s \<longrightarrow> I (snd (m s)))"

lemma keepsD: "keeps I m \<Longrightarrow> I s \<Longrightarrow> m s = (r, t) \<Longrightarrow> I t"
  by (force simp: keeps_def)

lemma keeps_return [io_keep]: "keeps I (io_return x)"
  and keeps_bail [io_keep]: "keeps I (io_bail e)"
  and keeps_lift [io_keep]: "keeps I (io_lift r)"
  and keeps_gets [io_keep]: "keeps I (io_gets g)"
  by (simp_all add: keeps_def io_simps)

lemma keeps_modify [io_keep]: "(\<And>s. I s \<Longrightarrow> I (h s)) \<Longrightarrow> keeps I (io_modify h)"
  by (simp add: keeps_def io_simps)

lemma keeps_bind [io_keep]:
  assumes "keeps I m" and "\<And>x. keeps I (f x)"
  shows "keeps I (io_bind m f)"
proof -
  have "I (snd (io_bind m f s))" if "I s" for s
  proof (cases "m s")
    case (Pair r s')
    then have "I s'" using assms(1) that keepsD by fast
    then show ?thesis using assms(2) Pair
      by (cases r) (auto simp: io_simps keeps_def)
  qed
  then show ?thesis by (simp add: keeps_def)
qed

lemma keeps_catch [io_keep]: "keeps I m \<Longrightarrow> keeps I (io_catch m)"
  and keeps_context [io_keep]: "keeps I m \<Longrightarrow> keeps I (io_context c m)"
  by (fastforce simp: keeps_def io_simps split: prod.splits)+

lemma keeps_for [io_keep]: "(\<And>x. x \<in> set xs \<Longrightarrow> keeps I (f x)) \<Longrightarrow> keeps I (io_for xs f)"
  by (induction xs) (auto intro: io_keep)

lemma keeps_if [io_keep]: "(b \<Longrightarrow> keeps I m) \<Longrightarrow> (\<not> b \<Longrightarrow> keeps I n) \<Longrightarrow> keeps I (if b then m else n)"
  by simp

lemma keeps_case_option [io_keep]:
  "(v = None \<Longrightarrow> keeps I m) \<Longrightarrow> (\<And>x. v = Some x \<Longrightarrow> keeps I (f x)) \<Longrightarrow>
   keeps I (case v of None \<Rightarrow> m | Some x \<Rightarrow> f x)"
  by (cases v) simp_all

lemma keeps_case_sum [io_keep]:
  "(\<And>x. v = Inl x \<Longrightarrow> keeps I (g x)) \<Longrightarrow> (\<And>x. v = Inr x \<Longrightarrow> keeps I (f x)) \<Longrightarrow>
   keeps I (case v of Inl x \<Rightarrow> g x | Inr x \<Rightarrow> f x)"
  by (cases v) simp_all

lemma keeps_case_prod [io_keep]:
  "(\<And>x y. v = (x, y) \<Longrightarrow> keeps I (f x y)) \<Longrightarrow> keeps I (case v of (x, y) \<Rightarrow> f x y)"
  by (cases v) simp

lemma keeps_zoom [io_keep]:
  "(\<And>s. I s \<Longrightarrow> I (upd (snd (m (sel s))) s)) \<Longrightarrow> keeps I (io_zoom sel upd m)"
  by (simp add: keeps_def io_simps split_beta)

subsection \<open>Postconditions and computations that cannot fail\<close>

text \<open>\<open>ensures P m\<close>: when \<open>m\<close> returns a value, \<open>P\<close> holds afterwards. \<open>infallible m\<close>: it always does.\<close>

definition ensures :: "('s \<Rightarrow> bool) \<Rightarrow> ('s, 'a) io \<Rightarrow> bool" where
  "ensures P m \<longleftrightarrow> (\<forall>s x t. m s = (Inr x, t) \<longrightarrow> P t)"

lemma ensuresD: "ensures P m \<Longrightarrow> m s = (Inr x, t) \<Longrightarrow> P t"
  by (auto simp: ensures_def)

lemma ensures_bind: "(\<And>x. ensures P (f x)) \<Longrightarrow> ensures P (io_bind m f)"
  unfolding ensures_def by (blast elim: io_bind_okE)

definition infallible :: "('s, 'a) io \<Rightarrow> bool" where
  "infallible m \<longleftrightarrow> (\<forall>s. \<exists>x t. m s = (Inr x, t))"

lemma infallibleE:
  assumes "infallible m"
  obtains x t where "m s = (Inr x, t)"
  using assms unfolding infallible_def by blast

text \<open>\<open>triple P m Q\<close>: from \<open>P\<close>, a run of \<open>m\<close> that returns a value ends in \<open>Q\<close>.\<close>

definition triple :: "('s \<Rightarrow> bool) \<Rightarrow> ('s, 'a) io \<Rightarrow> ('s \<Rightarrow> bool) \<Rightarrow> bool" where
  "triple P m Q \<longleftrightarrow> (\<forall>s x t. P s \<longrightarrow> m s = (Inr x, t) \<longrightarrow> Q t)"

lemma tripleD: "triple P m Q \<Longrightarrow> P s \<Longrightarrow> m s = (Inr x, t) \<Longrightarrow> Q t"
  unfolding triple_def by blast

lemma triple_keeps: "keeps I m \<Longrightarrow> triple I m I"
  unfolding triple_def by (auto dest: keepsD)

lemma triple_bind:
  assumes "triple P m R" and "\<And>x. triple R (f x) Q"
  shows "triple P (io_bind m f) Q"
  unfolding triple_def
proof (intro allI impI)
  fix s y u assume P: "P s" and run: "io_bind m f s = (Inr y, u)"
  obtain x t where m: "m s = (Inr x, t)" and f: "f x t = (Inr y, u)" using run by (rule io_bind_okE)
  show "Q u" by (rule tripleD[OF assms(2) tripleD[OF assms(1) P m] f])
qed

lemma triple_weaken: "triple P m Q \<Longrightarrow> (\<And>s. Q s \<Longrightarrow> R s) \<Longrightarrow> triple P m R"
  unfolding triple_def by blast

lemma triple_case_prod: "(\<And>x y. triple P (f x y) Q) \<Longrightarrow> triple P (case v of (x, y) \<Rightarrow> f x y) Q"
  by (cases v) simp

named_theorems io_total \<open>computations that cannot fail\<close>

lemma infallible_basic [io_total]:
  "infallible (io_return x)" "infallible (io_gets sel)" "infallible (io_modify h)"
  "infallible (io_catch m)"
  by (auto simp: infallible_def io_simps split: prod.splits)

lemma infallible_bind [io_total]:
  assumes "infallible m" and "\<And>x. infallible (f x)"
  shows "infallible (io_bind m f)"
  unfolding infallible_def
proof
  fix s
  obtain x t where "m s = (Inr x, t)" using assms(1) by (rule infallibleE)
  moreover obtain y u where "f x t = (Inr y, u)" using assms(2) by (rule infallibleE)
  ultimately show "\<exists>y u. io_bind m f s = (Inr y, u)" by (simp add: io_simps)
qed

lemma infallible_for [io_total]: "(\<And>x. infallible (f x)) \<Longrightarrow> infallible (io_for xs f)"
  by (induction xs) (auto intro: io_total)

lemma infallible_zoom [io_total]: "infallible m \<Longrightarrow> infallible (io_zoom sel upd m)"
  unfolding infallible_def io_zoom_def by (metis prod.case)

lemma infallible_if [io_total]: "infallible m \<Longrightarrow> infallible n \<Longrightarrow> infallible (if b then m else n)"
  by simp

lemma infallible_case_option [io_total]:
  "infallible m \<Longrightarrow> (\<And>x. infallible (f x)) \<Longrightarrow> infallible (case v of None \<Rightarrow> m | Some x \<Rightarrow> f x)"
  by (cases v) simp_all

lemma infallible_case_sum [io_total]:
  "(\<And>x. infallible (g x)) \<Longrightarrow> (\<And>x. infallible (f x)) \<Longrightarrow> infallible (case v of Inl x \<Rightarrow> g x | Inr x \<Rightarrow> f x)"
  by (cases v) simp_all

lemma infallible_case_prod [io_total]:
  "(\<And>x y. infallible (f x y)) \<Longrightarrow> infallible (case v of (x, y) \<Rightarrow> f x y)"
  by (cases v) simp

lemma length_filter_update:
  "i < length xs \<Longrightarrow> length (filter P (xs[i := x])) + (if P (xs ! i) then 1 else 0) =
     length (filter P xs) + (if P x then 1 else 0)"
proof (induction xs arbitrary: i)
  case (Cons y ys)
  then show ?case by (cases i) auto
qed simp

end
