(* ===== verification/Rust_Async.thy ===== *)
theory Rust_Async
  imports Cortado_Prelude
begin

text \<open>
  Asynchronous tasks that share a world: a task is either finished or waits to perform its next
  atomic action, the code between two suspension points. An action that returns \<open>None\<close> is not
  enabled: the future is pending. Tasks are composed with \<open>task_bind\<close> the way
  \<^verbatim>\<open>async fn\<close>s are with \<^verbatim>\<open>.await\<close>, and other tasks may run between
  any two actions.

  \<open>rg E P t Q\<close> is the rule for one task among others: started in \<open>P\<close>, every action of it is a
  transition of \<open>E\<close>, and \<open>Q\<close> holds when it has finished, if all other tasks only make
  transitions of \<open>E\<close> too.
\<close>

section \<open>Tasks\<close>

datatype ('w, 'a) task = Ret 'a | Act "'w \<Rightarrow> (('w, 'a) task \<times> 'w) option"

primrec task_bind :: "('w, 'a) task \<Rightarrow> ('a \<Rightarrow> ('w, 'b) task) \<Rightarrow> ('w, 'b) task" where
  "task_bind (Ret a) k = k a"
| "task_bind (Act f) k = Act (\<lambda>w. map_option (map_prod (\<lambda>t. task_bind t k) id) (f w))"

text \<open>\<open>await\<close> performs an action that may have to wait, \<open>atomic\<close> one that never does.\<close>

definition await :: "('w \<Rightarrow> ('a \<times> 'w) option) \<Rightarrow> ('w, 'a) task" where
  "await f = Act (\<lambda>w. map_option (map_prod Ret id) (f w))"

definition atomic :: "('w \<Rightarrow> 'a \<times> 'w) \<Rightarrow> ('w, 'a) task" where
  "atomic f = await (\<lambda>w. Some (f w))"

definition load :: "('w \<Rightarrow> 'a) \<Rightarrow> ('w, 'a) task" where
  "load f = atomic (\<lambda>w. (f w, w))"

definition update :: "('w \<Rightarrow> 'w) \<Rightarrow> ('w, unit) task" where
  "update f = atomic (\<lambda>w. ((), f w))"

text \<open>\<open>?\<close> on the result of an awaited call.\<close>

definition task_try :: "('w, 'a result) task \<Rightarrow> ('a \<Rightarrow> ('w, 'b result) task) \<Rightarrow> ('w, 'b result) task" where
  "task_try t k = task_bind t (\<lambda>r. case r of Inl e \<Rightarrow> Ret (Inl e) | Inr x \<Rightarrow> k x)"

lemma task_bind_await:
  "task_bind (await f) k = Act (\<lambda>w. map_option (map_prod k id) (f w))"
  by (simp add: await_def option.map_comp prod.map_comp comp_def id_def)

lemma task_bind_atomic: "task_bind (atomic f) k = Act (\<lambda>w. Some (map_prod k id (f w)))"
  by (simp add: atomic_def task_bind_await)

lemma task_bind_load: "task_bind (load f) k = Act (\<lambda>w. Some (k (f w), w))"
  and task_bind_update: "task_bind (update g) h = Act (\<lambda>w. Some (h (), g w))"
  by (simp_all add: load_def update_def task_bind_atomic)

section \<open>Undisturbed runs\<close>

text \<open>\<open>reaches t w u v\<close>: running alone from world \<open>w\<close>, task \<open>t\<close> gets to \<open>u\<close> in world \<open>v\<close>.\<close>

inductive reaches :: "('w, 'a) task \<Rightarrow> 'w \<Rightarrow> ('w, 'a) task \<Rightarrow> 'w \<Rightarrow> bool" where
  reaches_refl: "reaches t w t w"
| reaches_Act: "f w = Some (t, w') \<Longrightarrow> reaches t w' u v \<Longrightarrow> reaches (Act f) w u v"

lemma reaches_trans: "reaches t w u v \<Longrightarrow> reaches u v x y \<Longrightarrow> reaches t w x y"
  by (induction rule: reaches.induct) (auto intro: reaches_Act)

lemma reaches_bind: "reaches t w u v \<Longrightarrow> reaches (task_bind t k) w (task_bind u k) v"
proof (induction rule: reaches.induct)
  case (reaches_refl t w)
  show ?case by (rule reaches.reaches_refl)
next
  case (reaches_Act f w t w' u v)
  show ?case unfolding task_bind.simps
    by (rule reaches.reaches_Act[OF _ reaches_Act.IH]) (simp add: reaches_Act.hyps)
qed

lemma reaches_seq:
  assumes "reaches t w (Ret a) v" and "reaches (k a) v u x"
  shows "reaches (task_bind t k) w u x"
  by (rule reaches_trans[OF reaches_bind[OF assms(1)]]) (simp add: assms(2))

lemma reaches_await: "f w = Some (a, v) \<Longrightarrow> reaches (await f) w (Ret a) v"
  unfolding await_def by (rule reaches_Act[OF _ reaches_refl]) simp

lemma reaches_atomic: "f w = (a, v) \<Longrightarrow> reaches (atomic f) w (Ret a) v"
  unfolding atomic_def by (rule reaches_await) simp

lemma reaches_update: "reaches (update f) w (Ret ()) (f w)"
  and reaches_load: "reaches (load g) w (Ret (g w)) w"
  unfolding update_def load_def by (rule reaches_atomic, simp)+

section \<open>Rely-guarantee\<close>

definition stable_in :: "('w \<Rightarrow> 'w \<Rightarrow> bool) \<Rightarrow> ('w \<Rightarrow> bool) \<Rightarrow> bool" where
  "stable_in E P \<longleftrightarrow> (\<forall>w w'. P w \<longrightarrow> E w w' \<longrightarrow> P w')"

lemma stable_inI: "(\<And>w w'. P w \<Longrightarrow> E w w' \<Longrightarrow> P w') \<Longrightarrow> stable_in E P"
  by (simp add: stable_in_def)

lemma stable_inD: "stable_in E P \<Longrightarrow> P w \<Longrightarrow> E w w' \<Longrightarrow> P w'"
  by (simp add: stable_in_def)

lemma stable_conj: "stable_in E P \<Longrightarrow> stable_in E Q \<Longrightarrow> stable_in E (\<lambda>w. P w \<and> Q w)"
  by (auto simp: stable_in_def)

lemma stable_const: "stable_in E (\<lambda>_. b)"
  by (simp add: stable_in_def)

inductive rg :: "('w \<Rightarrow> 'w \<Rightarrow> bool) \<Rightarrow> ('w \<Rightarrow> bool) \<Rightarrow> ('w, 'a) task \<Rightarrow> ('a \<Rightarrow> 'w \<Rightarrow> bool) \<Rightarrow> bool"
  for E where
  rg_Ret: "(\<And>w. P w \<Longrightarrow> Q a w) \<Longrightarrow> rg E P (Ret a) Q"
| rg_Act: "(\<And>w t w'. P w \<Longrightarrow> f w = Some (t, w') \<Longrightarrow>
             E w w' \<and> (\<exists>P'. stable_in E P' \<and> P' w' \<and> rg E P' t Q)) \<Longrightarrow> rg E P (Act f) Q"

inductive_cases rg_RetE: "rg E P (Ret a) Q"
inductive_cases rg_ActE: "rg E P (Act f) Q"

lemma rg_weaken:
  assumes "rg E P t Q" and "\<And>w. P' w \<Longrightarrow> P w"
  shows "rg E P' t Q"
  using assms(1)
proof cases
  case (rg_Ret a)
  then show ?thesis using assms(2) by (auto intro: rg.rg_Ret)
next
  case (rg_Act f)
  show ?thesis unfolding rg_Act(1) by (rule rg.rg_Act) (rule rg_Act(2)[OF assms(2)])
qed

lemma rg_bind:
  assumes "rg E P t Q" and "\<And>a. rg E (Q a) (k a) S"
  shows "rg E P (task_bind t k) S"
  using assms
proof (induction rule: rg.induct)
  case (rg_Ret P Q a)
  then show ?case by (auto intro: rg_weaken)
next
  case (rg_Act P f Q)
  show ?case
    unfolding task_bind.simps
  proof (rule rg.rg_Act)
    fix w t w'
    assume P: "P w" and step: "map_option (map_prod (\<lambda>t. task_bind t k) id) (f w) = Some (t, w')"
    from step obtain u where u: "f w = Some (u, w')" "t = task_bind u k" by auto
    have E: "E w w'" using rg_Act.IH[OF P u(1)] by (rule conjunct1)
    obtain P' where P': "stable_in E P'" "P' w'"
        "(\<forall>a. rg E (Q a) (k a) S) \<longrightarrow> rg E P' (task_bind u k) S"
      using rg_Act.IH[OF P u(1)] by (elim conjE exE)
    show "E w w' \<and> (\<exists>P'. stable_in E P' \<and> P' w' \<and> rg E P' t S)"
      unfolding u(2) using E P' rg_Act.prems by (intro conjI exI[of _ P']) simp_all
  qed
qed

lemma rg_await:
  fixes f :: "'w \<Rightarrow> ('a \<times> 'w) option"
  assumes "\<And>a. stable_in E (Q a)"
    and "\<And>w a w'. P w \<Longrightarrow> f w = Some (a, w') \<Longrightarrow> E w w' \<and> Q a w'"
  shows "rg E P (await f) Q"
  unfolding await_def
proof (rule rg_Act)
  fix w w' and t :: "('w, 'a) task"
  assume P: "P w" and step: "map_option (map_prod Ret id) (f w) = Some (t, w')"
  from step obtain a where a: "f w = Some (a, w')" "t = Ret a" by auto
  show "E w w' \<and> (\<exists>P'. stable_in E P' \<and> P' w' \<and> rg E P' t Q)"
    using assms(1)[of a] assms(2)[OF P a(1)] a(2) by (auto intro: rg_Ret)
qed

lemma rg_atomic:
  assumes "\<And>a. stable_in E (Q a)"
    and "\<And>w a w'. P w \<Longrightarrow> f w = (a, w') \<Longrightarrow> E w w' \<and> Q a w'"
  shows "rg E P (atomic f) Q"
  unfolding atomic_def using assms by (intro rg_await) auto

lemma rg_update:
  assumes "stable_in E Q" and "\<And>w. P w \<Longrightarrow> E w (f w) \<and> Q (f w)"
  shows "rg E P (update f) (\<lambda>_. Q)"
  unfolding update_def using assms by (intro rg_atomic) auto

lemma rg_load:
  assumes "\<And>a. stable_in E (Q a)" and "\<And>w. P w \<Longrightarrow> E w w \<and> Q (f w) w"
  shows "rg E P (load f) Q"
  unfolding load_def using assms by (intro rg_atomic) auto

lemma rg_case_option:
  "(v = None \<Longrightarrow> rg E P t Q) \<Longrightarrow> (\<And>x. v = Some x \<Longrightarrow> rg E P (f x) Q) \<Longrightarrow>
   rg E P (case v of None \<Rightarrow> t | Some x \<Rightarrow> f x) Q"
  by (cases v) simp_all

lemma rg_case_sum:
  "(\<And>x. v = Inl x \<Longrightarrow> rg E P (g x) Q) \<Longrightarrow> (\<And>x. v = Inr x \<Longrightarrow> rg E P (f x) Q) \<Longrightarrow>
   rg E P (case v of Inl x \<Rightarrow> g x | Inr x \<Rightarrow> f x) Q"
  by (cases v) simp_all

lemma rg_case_prod:
  "(\<And>x y. v = (x, y) \<Longrightarrow> rg E P (f x y) Q) \<Longrightarrow> rg E P (case v of (x, y) \<Rightarrow> f x y) Q"
  by (cases v) simp

lemma rg_if:
  "(b \<Longrightarrow> rg E P t Q) \<Longrightarrow> (\<not> b \<Longrightarrow> rg E P u Q) \<Longrightarrow> rg E P (if b then t else u) Q"
  by simp

lemma rg_update_keeps:
  "stable_in E P \<Longrightarrow> (\<And>w. P w \<Longrightarrow> E w (f w)) \<Longrightarrow> rg E P (update f) (\<lambda>_. P)"
  by (rule rg_update) (auto dest: stable_inD)

lemma rg_atomic_keeps:
  assumes "stable_in E P" and "\<And>w a w'. P w \<Longrightarrow> f w = (a, w') \<Longrightarrow> E w w'"
  shows "rg E P (atomic f) (\<lambda>_. P)"
  by (rule rg_atomic) (use assms stable_inD[OF assms(1)] in blast)+

lemma rg_task_tryI:
  assumes "rg E P t R" and "\<And>e w. R (Inl e) w \<Longrightarrow> S (Inl e) w" and "\<And>x. rg E (R (Inr x)) (k x) S"
  shows "rg E P (task_try t k) S"
  unfolding task_try_def
proof (rule rg_bind[OF assms(1)])
  fix r show "rg E (R r) (case r of Inl e \<Rightarrow> Ret (Inl e) | Inr x \<Rightarrow> k x) S"
    by (cases r) (use assms(2,3) in \<open>auto intro: rg_Ret\<close>)
qed

lemma rg_frame:
  assumes "rg E P t Q" and R: "stable_in E R"
  shows "rg E (\<lambda>w. P w \<and> R w) t (\<lambda>a w. Q a w \<and> R w)"
  using assms(1)
proof (induction rule: rg.induct)
  case (rg_Ret P Q a)
  then show ?case by (intro rg.rg_Ret) simp
next
  case (rg_Act P f Q)
  show ?case
  proof (rule rg.rg_Act)
    fix w t w' assume P: "P w \<and> R w" and step: "f w = Some (t, w')"
    note IH = rg_Act.IH[OF conjunct1[OF P] step]
    obtain P' where P': "stable_in E P'" "P' w'" "rg E (\<lambda>w. P' w \<and> R w) t (\<lambda>a w. Q a w \<and> R w)"
      using IH by (elim conjE exE)
    have "R w'" by (rule stable_inD[OF R conjunct2[OF P] conjunct1[OF IH]])
    then show "E w w' \<and> (\<exists>P'. stable_in E P' \<and> P' w' \<and> rg E P' t (\<lambda>a w. Q a w \<and> R w))"
      using IH P' stable_conj[OF P'(1) R] by (intro conjI exI[of _ "\<lambda>w. P' w \<and> R w"]) simp_all
  qed
qed

section \<open>Tasks side by side\<close>

text \<open>
  A task on the way: some stable assertion holds from which it can go on. One step of one task
  keeps this true of every task.
\<close>

definition on_track :: "('w \<Rightarrow> 'w \<Rightarrow> bool) \<Rightarrow> 'w \<Rightarrow> ('w, 'a) task \<Rightarrow> ('a \<Rightarrow> 'w \<Rightarrow> bool) \<Rightarrow> bool" where
  "on_track E w t Q \<longleftrightarrow> (\<exists>P. stable_in E P \<and> P w \<and> rg E P t Q)"

lemma on_trackI: "stable_in E P \<Longrightarrow> P w \<Longrightarrow> rg E P t Q \<Longrightarrow> on_track E w t Q"
  by (auto simp: on_track_def)

lemma on_track_Ret: "on_track E w (Ret a) Q \<Longrightarrow> Q a w"
  by (auto simp: on_track_def elim: rg_RetE)

lemma on_track_others: "on_track E w t Q \<Longrightarrow> E w w' \<Longrightarrow> on_track E w' t Q"
  unfolding on_track_def stable_in_def by (elim exE conjE, intro exI conjI) auto

lemma on_track_step:
  "on_track E w (Act f) Q \<Longrightarrow> f w = Some (t, w') \<Longrightarrow> E w w' \<and> on_track E w' t Q"
  unfolding on_track_def by (elim exE conjE rg_ActE) simp

section \<open>Tasks on a part of the world\<close>

primrec task_zoom :: "('w \<Rightarrow> 'v) \<Rightarrow> ('v \<Rightarrow> 'w \<Rightarrow> 'w) \<Rightarrow> ('v, 'a) task \<Rightarrow> ('w, 'a) task" where
  "task_zoom sel upd (Ret a) = Ret a"
| "task_zoom sel upd (Act f) =
     Act (\<lambda>w. map_option (map_prod (task_zoom sel upd) (\<lambda>v. upd v w)) (f (sel w)))"

lemma task_zoom_bind:
  "task_zoom sel upd (task_bind t k) = task_bind (task_zoom sel upd t) (\<lambda>a. task_zoom sel upd (k a))"
proof (induction t)
  case (Act f)
  have "map_option (map_prod (task_zoom sel upd) (\<lambda>v. upd v w))
          (map_option (map_prod (\<lambda>t. task_bind t k) id) (f (sel w))) =
        map_option (map_prod (\<lambda>t. task_bind t (\<lambda>a. task_zoom sel upd (k a))) id)
          (map_option (map_prod (task_zoom sel upd) (\<lambda>v. upd v w)) (f (sel w)))" for w
  proof (cases "f (sel w)")
    case (Some r)
    obtain t v where r: "r = (t, v)" by fastforce
    have "f (sel w) \<in> range f" by simp
    then show ?thesis using Act[of "f (sel w)" "(t, v)" t] Some r by (simp add: Basic_BNFs.fsts.simps)
  qed simp
  then show ?case by simp
qed simp

lemma task_zoom_await:
  "task_zoom sel upd (await f) = await (\<lambda>w. map_option (map_prod id (\<lambda>v. upd v w)) (f (sel w)))"
  by (simp add: await_def option.map_comp prod.map_comp comp_def)

lemma task_zoom_update: "task_zoom sel upd (update g) = update (\<lambda>w. upd (g (sel w)) w)"
  by (simp add: update_def atomic_def task_zoom_await)

section \<open>One task against a rely\<close>

text \<open>
  \<open>run_among es t w\<close> runs \<open>t\<close> to its end while other tasks act: before each attempt of its next
  action one of the \<open>es\<close> happens to the world. When they are used up the task has not finished.
  \<open>rely R P t Q\<close>: whatever happens in between, as long as it is allowed by \<open>R\<close>, a run from \<open>P\<close> that
  finishes ends in \<open>Q\<close>.
\<close>

fun run_among :: "('w \<Rightarrow> 'w) list \<Rightarrow> ('w, 'a) task \<Rightarrow> 'w \<Rightarrow> ('a \<times> 'w) option" where
  "run_among es (Ret a) w = Some (a, w)"
| "run_among [] (Act f) w = None"
| "run_among (e # es) (Act f) w =
     (case f (e w) of None \<Rightarrow> run_among es (Act f) (e w) | Some (t, w') \<Rightarrow> run_among es t w')"

definition allowed_by :: "('w \<Rightarrow> 'w \<Rightarrow> bool) \<Rightarrow> ('w \<Rightarrow> 'w) list \<Rightarrow> bool" where
  "allowed_by R es \<longleftrightarrow> (\<forall>e \<in> set es. \<forall>w. R w (e w))"

definition rely :: "('w \<Rightarrow> 'w \<Rightarrow> bool) \<Rightarrow> ('w \<Rightarrow> bool) \<Rightarrow> ('w, 'a) task \<Rightarrow> ('a \<Rightarrow> 'w \<Rightarrow> bool) \<Rightarrow> bool" where
  "rely R P t Q \<longleftrightarrow>
     (\<forall>es w a v. allowed_by R es \<longrightarrow> P w \<longrightarrow> run_among es t w = Some (a, v) \<longrightarrow> Q a v)"

lemma relyD: "rely R P t Q \<Longrightarrow> allowed_by R es \<Longrightarrow> P w \<Longrightarrow> run_among es t w = Some (a, v) \<Longrightarrow> Q a v"
  unfolding rely_def by blast

lemma rely_Ret: "(\<And>w. P w \<Longrightarrow> Q a w) \<Longrightarrow> rely R P (Ret a) Q"
  by (simp add: rely_def)

lemma rely_weaken:
  "rely R P t Q \<Longrightarrow> (\<And>w. P' w \<Longrightarrow> P w) \<Longrightarrow> (\<And>a w. Q a w \<Longrightarrow> Q' a w) \<Longrightarrow> rely R P' t Q'"
  unfolding rely_def by blast

lemma rely_Act:
  assumes "stable_in R P" and "\<And>w t w'. P w \<Longrightarrow> f w = Some (t, w') \<Longrightarrow> \<exists>P'. P' w' \<and> rely R P' t Q"
  shows "rely R P (Act f) Q"
  unfolding rely_def
proof (intro allI impI)
  fix es w a v assume "allowed_by R es" "P w" "run_among es (Act f) w = Some (a, v)"
  then show "Q a v"
  proof (induction es arbitrary: w)
    case (Cons e es)
    have e: "P (e w)" using Cons.prems stable_inD[OF assms(1)] by (auto simp: allowed_by_def)
    have es: "allowed_by R es" using Cons.prems(1) by (simp add: allowed_by_def)
    show ?case
    proof (cases "f (e w)")
      case None
      then show ?thesis using Cons.IH[OF es e] Cons.prems(3) by simp
    next
      case (Some r)
      obtain t w' where r: "r = (t, w')" by fastforce
      then obtain P' where "P' w'" "rely R P' t Q" using assms(2)[OF e] Some by blast
      then show ?thesis using relyD[of R P' t Q es w'] es Cons.prems(3) Some r by simp
    qed
  qed simp
qed

lemma rely_await:
  assumes "stable_in R P" and "\<And>w a w'. P w \<Longrightarrow> f w = Some (a, w') \<Longrightarrow> Q a w'"
  shows "rely R P (await f) Q"
  unfolding await_def
proof (rule rely_Act[OF assms(1)])
  fix w w' and t :: "('a, 'b) task"
  assume P: "P w" and "map_option (map_prod Ret id) (f w) = Some (t, w')"
  then obtain a where "f w = Some (a, w')" "t = Ret a" by auto
  then show "\<exists>P'. P' w' \<and> rely R P' t Q"
    using assms(2)[OF P] by (intro exI[of _ "Q a"]) (simp add: rely_Ret)
qed

lemma rely_atomic:
  "stable_in R P \<Longrightarrow> (\<And>w. P w \<Longrightarrow> Q (fst (f w)) (snd (f w))) \<Longrightarrow> rely R P (atomic f) Q"
  unfolding atomic_def by (rule rely_await) (auto, metis fst_conv snd_conv)

lemma rely_update: "stable_in R P \<Longrightarrow> (\<And>w. P w \<Longrightarrow> Q () (f w)) \<Longrightarrow> rely R P (update f) Q"
  and rely_load: "stable_in R P \<Longrightarrow> (\<And>w. P w \<Longrightarrow> Q' (g w) w) \<Longrightarrow> rely R P (load g) Q'"
  unfolding update_def load_def by (rule rely_atomic; simp)+

lemma run_among_bind:
  assumes "run_among es (task_bind t k) w = Some (b, v)"
  shows "\<exists>es1 es2 a u. es = es1 @ es2 \<and> run_among es1 t w = Some (a, u) \<and> run_among es2 (k a) u = Some (b, v)"
  using assms
proof (induction es t w rule: run_among.induct)
  case (1 es a w)
  then show ?case by (intro exI[of _ "[]"] exI[of _ es]) simp
next
  case (3 e es f w)
  have "\<exists>es1 es2 a u. es = es1 @ es2 \<and> run_among (e # es1) (Act f) w = Some (a, u) \<and>
      run_among es2 (k a) u = Some (b, v)"
  proof (cases "f (e w)")
    case None
    then show ?thesis using 3(1)[OF None] 3(3) by fastforce
  next
    case (Some r)
    obtain t w' where r: "r = (t, w')" by fastforce
    then show ?thesis using 3(2)[OF Some r[symmetric]] 3(3) Some by fastforce
  qed
  then obtain es1 es2 a u where "es = es1 @ es2" "run_among (e # es1) (Act f) w = Some (a, u)"
    "run_among es2 (k a) u = Some (b, v)" by blast
  then show ?case by (intro exI[of _ "e # es1"] exI[of _ es2]) auto
qed simp

lemma rely_bind:
  assumes "rely R P t Q" and "\<And>a. rely R (Q a) (k a) S"
  shows "rely R P (task_bind t k) S"
  unfolding rely_def
proof (intro allI impI)
  fix es w b v assume es: "allowed_by R es" and P: "P w" and run: "run_among es (task_bind t k) w = Some (b, v)"
  from run_among_bind[OF run] obtain es1 es2 a u where
    split: "es = es1 @ es2" "run_among es1 t w = Some (a, u)" "run_among es2 (k a) u = Some (b, v)" by blast
  have "allowed_by R es1" "allowed_by R es2" using es split(1) by (simp_all add: allowed_by_def)
  then show "S b v" using relyD[OF assms(1) _ P split(2)] relyD[OF assms(2) _ _ split(3)] by blast
qed

lemma rely_update_then:
  assumes "stable_in R P" and "\<And>w. P w \<Longrightarrow> Q (f w)" and "rely R Q (k ()) S"
  shows "rely R P (task_bind (update f) k) S"
  by (rule rely_bind[where Q = "\<lambda>_. Q"], rule rely_update[OF assms(1)], erule assms(2)) (use assms(3) in simp)

lemma rely_load_then:
  assumes "stable_in R P" and "\<And>x. rely R (\<lambda>w. P w \<and> g w = x) (k x) S"
  shows "rely R P (task_bind (load g) k) S"
  by (rule rely_bind[where Q = "\<lambda>x w. P w \<and> g w = x"], rule rely_load[OF assms(1)]) (use assms(2) in simp_all)

lemma rely_absurd: "(\<And>w. \<not> P w) \<Longrightarrow> rely R P t Q"
  by (simp add: rely_def)

section \<open>Tasks that end\<close>

text \<open>
  \<open>ends R P n t\<close>: started in \<open>P\<close>, \<open>t\<close> has finished after at most \<open>n\<close> turns, whatever the others do
  within \<open>R\<close>.
\<close>

definition ends :: "('w \<Rightarrow> 'w \<Rightarrow> bool) \<Rightarrow> ('w \<Rightarrow> bool) \<Rightarrow> nat \<Rightarrow> ('w, 'a) task \<Rightarrow> bool" where
  "ends R P n t \<longleftrightarrow>
     (\<forall>es w. allowed_by R es \<longrightarrow> P w \<longrightarrow> n \<le> length es \<longrightarrow> (\<exists>a v. run_among es t w = Some (a, v)))"

lemma endsD:
  assumes "ends R P n t" and "allowed_by R es" and "P w" and "n \<le> length es"
  obtains a v where "run_among es t w = Some (a, v)"
  using assms unfolding ends_def by blast

lemma ends_Ret: "ends R P n (Ret a)"
  by (simp add: ends_def)

lemma ends_weaken: "ends R P n t \<Longrightarrow> (\<And>w. P' w \<Longrightarrow> P w) \<Longrightarrow> n \<le> m \<Longrightarrow> ends R P' m t"
  unfolding ends_def by (meson order_trans)

lemma ends_await:
  assumes "stable_in R P" and "\<And>w. P w \<Longrightarrow> f w \<noteq> None"
  shows "ends R P 1 (await f)"
  unfolding ends_def
proof (intro allI impI)
  fix es w assume es: "allowed_by R es" "1 \<le> length es" and P: "P w"
  then obtain e rest where e: "es = e # rest" by (cases es) auto
  have "P (e w)" using stable_inD[OF assms(1) P] es(1) e by (simp add: allowed_by_def)
  then obtain r where "f (e w) = Some r" using assms(2) by blast
  then show "\<exists>a v. run_among es (await f) w = Some (a, v)"
    using e by (cases r) (simp add: await_def)
qed

lemma ends_atomic: "ends R P 1 (atomic f)"
  and ends_update: "ends R P 1 (update g)"
  and ends_load: "ends R P 1 (load h)"
proof -
  have at: "ends R (\<lambda>_. True) 1 (atomic f)" for f :: "'a \<Rightarrow> 'x \<times> 'a"
    unfolding atomic_def by (rule ends_await) (simp_all add: stable_const)
  show "ends R P 1 (atomic f)" by (rule ends_weaken[OF at]) simp_all
  show "ends R P 1 (update g)" unfolding update_def by (rule ends_weaken[OF at]) simp_all
  show "ends R P 1 (load h)" unfolding load_def by (rule ends_weaken[OF at]) simp_all
qed

lemma run_among_prefix:
  assumes "run_among es t w = Some (a, u)"
  shows "\<exists>used rest. es = used @ rest \<and>
    (\<forall>more. run_among (used @ more) (task_bind t k) w = run_among more (k a) u)"
  using assms
proof (induction es t w rule: run_among.induct)
  case (1 es b w)
  then show ?case by (intro exI[of _ "[]"] exI[of _ es]) simp
next
  case (3 e es f w)
  have "\<exists>used rest. es = used @ rest \<and>
      (\<forall>more. run_among ((e # used) @ more) (task_bind (Act f) k) w = run_among more (k a) u)"
  proof (cases "f (e w)")
    case None
    then obtain used rest where "es = used @ rest"
      "run_among (used @ more) (task_bind (Act f) k) (e w) = run_among more (k a) u" for more
      using 3(1)[OF None] 3(3) by fastforce
    then show ?thesis using None by (intro exI[of _ used] exI[of _ rest]) simp
  next
    case (Some r)
    obtain t w' where r: "r = (t, w')" by fastforce
    then obtain used rest where "es = used @ rest"
      "run_among (used @ more) (task_bind t k) w' = run_among more (k a) u" for more
      using 3(2)[OF Some r[symmetric]] 3(3) Some by auto
    then show ?thesis using Some r by (intro exI[of _ used] exI[of _ rest]) simp
  qed
  then obtain used rest where "es = used @ rest"
    "\<forall>more. run_among ((e # used) @ more) (task_bind (Act f) k) w = run_among more (k a) u" by blast
  then show ?case by (intro exI[of _ "e # used"] exI[of _ rest]) simp
qed simp

lemma ends_bind:
  assumes "ends R P m t" and "rely R P t Q" and "\<And>a. ends R (Q a) n (k a)"
  shows "ends R P (m + n) (task_bind t k)"
  unfolding ends_def
proof (intro allI impI)
  fix es w assume es: "allowed_by R es" "m + n \<le> length es" and P: "P w"
  have part: "allowed_by R (take m es)" "m \<le> length (take m es)"
    using es by (auto simp: allowed_by_def dest: in_set_takeD)
  obtain a u where t: "run_among (take m es) t w = Some (a, u)" using endsD[OF assms(1) part(1) P part(2)] .
  obtain used rest where split: "take m es = used @ rest"
    "run_among (used @ more) (task_bind t k) w = run_among more (k a) u" for more
    using run_among_prefix[OF t] by blast
  have es_eq: "es = used @ (rest @ drop m es)"
    unfolding append_assoc[symmetric] split(1)[symmetric] by simp
  have "set (rest @ drop m es) \<subseteq> set es" by (subst (2) es_eq) auto
  then have "allowed_by R (rest @ drop m es)" "n \<le> length (rest @ drop m es)"
    using es by (auto simp: allowed_by_def)
  then obtain b v where "run_among (rest @ drop m es) (k a) u = Some (b, v)"
    using endsD[OF assms(3)] relyD[OF assms(2) part(1) P t] by blast
  then show "\<exists>b v. run_among es (task_bind t k) w = Some (b, v)" using split(2) es_eq by metis
qed

end
