(* ===== verification/Rust_Std.thy ===== *)
theory Rust_Std
  imports Cortado_Prelude
begin

text \<open>
  The parts of Rust's standard library the program calls: decimal and hexadecimal printing,
  integer and address parsing (\<^verbatim>\<open>core::net::parser\<close>), address printing,
  big-endian byte conversion and the \<^verbatim>\<open>str\<close> helpers. A Rust string is its UTF-8
  bytes, so \<open>length\<close> is \<^verbatim>\<open>str::len\<close>. An \<^verbatim>\<open>Ipv4Addr\<close> or
  \<^verbatim>\<open>Ipv6Addr\<close> is the integer \<^verbatim>\<open>u32::from\<close> or
  \<^verbatim>\<open>u128::from\<close> gives for it.
\<close>

section \<open>Addresses\<close>

type_synonym Ipv4Addr = u32
type_synonym Ipv6Addr = u128

datatype IpAddr = V4 Ipv4Addr | V6 Ipv6Addr

datatype SocketAddr =
    SockV4 Ipv4Addr u16
  | SockV6 Ipv6Addr u16 u32 u32  \<comment> \<open>address, port, flow info, scope id\<close>

fun is_ipv4 :: "IpAddr \<Rightarrow> bool" where
  "is_ipv4 (V4 _) = True"
| "is_ipv4 (V6 _) = False"

abbreviation is_ipv6 :: "IpAddr \<Rightarrow> bool" where
  "is_ipv6 a \<equiv> \<not> is_ipv4 a"

fun is_unspecified :: "IpAddr \<Rightarrow> bool" where
  "is_unspecified (V4 a) = (a = 0)"
| "is_unspecified (V6 a) = (a = 0)"

fun socket_addr :: "IpAddr \<Rightarrow> u16 \<Rightarrow> SocketAddr" where
  "socket_addr (V4 a) p = SockV4 a p"
| "socket_addr (V6 a) p = SockV6 a p 0 0"

fun sock_ip :: "SocketAddr \<Rightarrow> IpAddr" where
  "sock_ip (SockV4 a _) = V4 a"
| "sock_ip (SockV6 a _ _ _) = V6 a"

fun sock_port :: "SocketAddr \<Rightarrow> u16" where
  "sock_port (SockV4 _ p) = p"
| "sock_port (SockV6 _ p _ _) = p"

lemma sock_ip_socket_addr [simp]: "sock_ip (socket_addr i p) = i"
  and sock_port_socket_addr [simp]: "sock_port (socket_addr i p) = p"
  by (cases i; simp)+

lemma socket_addr_eq_iff [simp]: "socket_addr i p = socket_addr j q \<longleftrightarrow> i = j \<and> p = q"
  by (cases i; cases j) auto

section \<open>Big-endian bytes\<close>

text \<open>\<open>be_bytes n w\<close> is \<^verbatim>\<open>to_be_bytes\<close> of an \<open>8 * n\<close> bit integer.\<close>

definition be_bytes :: "nat \<Rightarrow> 'a::len word \<Rightarrow> bytes" where
  "be_bytes n w = map (\<lambda>i. ucast (drop_bit (8 * i) w)) (rev [0..<n])"

definition from_be_bytes :: "bytes \<Rightarrow> 'a::len word" where
  "from_be_bytes bs = foldl (\<lambda>acc b. push_bit 8 acc OR ucast b) 0 bs"

lemma length_be_bytes [simp]: "length (be_bytes n w) = n"
  by (simp add: be_bytes_def)

lemma be_bytes_Suc:
  "be_bytes (Suc n) w = ucast (drop_bit (8 * n) w) # be_bytes n w"
  by (simp add: be_bytes_def)

lemma foldl_be_bits:
  fixes acc :: "'a::len word"
  shows "foldl (\<lambda>acc b. push_bit 8 acc OR ucast b) acc (be_bytes n w) =
         push_bit (8 * n) acc OR take_bit (8 * n) (ucast (w :: 'b::len word))"
proof (induction n arbitrary: acc)
  case 0
  show ?case by (simp add: be_bytes_def)
next
  case (Suc n)
  show ?case
    unfolding be_bytes_Suc foldl_Cons Suc.IH
    by (rule bit_word_eqI)
      (auto simp: bit_simps not_le less_diff_conv2 add.commute)
qed

lemma from_be_bytes_be_bytes:
  "8 * n = LENGTH('a::len) \<Longrightarrow> from_be_bytes (be_bytes n (w :: 'a word)) = w"
  by (simp add: from_be_bytes_def foldl_be_bits)

lemma from_be_bytes_snoc:
  "(from_be_bytes (bs @ [b]) :: 'a::len word) = push_bit 8 (from_be_bytes bs) OR ucast b"
  by (simp add: from_be_bytes_def)

lemma be_bytes_snoc:
  "be_bytes (Suc n) w = be_bytes n (drop_bit 8 w) @ [ucast w]"
  by (induction n) (simp_all add: be_bytes_Suc be_bytes_def add.commute)

lemma be_bytes_from_be_bytes:
  "8 * length bs \<le> LENGTH('a::len) \<Longrightarrow> be_bytes (length bs) (from_be_bytes bs :: 'a word) = bs"
proof (induction bs rule: rev_induct)
  case Nil
  show ?case by (simp add: be_bytes_def)
next
  case (snoc b bs)
  let ?w = "from_be_bytes bs :: 'a word"
  have w: "8 * length bs + 8 \<le> LENGTH('a)" using snoc.prems by simp
  have high: "n < 8 * length bs" if "bit ?w n" for n
  proof -
    have "be_bytes (length bs) ?w = bs" using snoc w by simp
    then have "?w = from_be_bytes (be_bytes (length bs) ?w)" by simp
    also have "\<dots> = take_bit (8 * length bs) ?w"
      using foldl_be_bits[of "0 :: 'a word" "length bs" ?w] by (simp add: from_be_bytes_def)
    finally show ?thesis using that by (metis bit_take_bit_iff)
  qed
  have "drop_bit 8 (push_bit 8 ?w OR ucast b) = ?w"
    using high w by (intro bit_word_eqI) (force simp: bit_simps dest: bit_imp_le_length)
  moreover have "ucast (push_bit 8 ?w OR ucast b) = b"
    using w by (intro bit_word_eqI) (auto simp: bit_simps dest: bit_imp_le_length)
  ultimately show ?case
    using snoc w by (simp add: be_bytes_snoc from_be_bytes_snoc)
qed

end
