(* ===== verification/Rust_Collections.thy ===== *)
theory Rust_Collections
  imports Rust_Std
begin

text \<open>
  \<^verbatim>\<open>std::collections::HashMap\<close> as an association list whose keys are distinct.
  The interface \<open>hash_map\<close> lists the laws the clients rely on; the interpretation
  \<open>hm\<close> discharges them for the list operations. No client looks at the order in which the
  entries are kept, which the standard library leaves unspecified.
\<close>

type_synonym ('k, 'v) hashmap = "('k \<times> 'v) list"

definition hm_wf :: "('k, 'v) hashmap \<Rightarrow> bool" where
  "hm_wf m \<longleftrightarrow> distinct (map fst m)"

definition hm_get :: "('k, 'v) hashmap \<Rightarrow> 'k \<Rightarrow> 'v option" where
  "hm_get m k = map_of m k"

definition hm_insert :: "'k \<Rightarrow> 'v \<Rightarrow> ('k, 'v) hashmap \<Rightarrow> ('k, 'v) hashmap" where
  "hm_insert k v m = AList.update k v m"

definition hm_remove :: "'k \<Rightarrow> ('k, 'v) hashmap \<Rightarrow> ('k, 'v) hashmap" where
  "hm_remove k m = AList.delete k m"

definition hm_len :: "('k, 'v) hashmap \<Rightarrow> nat" where
  "hm_len m = length m"

definition hm_keys :: "('k, 'v) hashmap \<Rightarrow> 'k set" where
  "hm_keys m = set (map fst m)"

locale hash_map =
  fixes empty :: "'m"
    and get :: "'m \<Rightarrow> 'k \<Rightarrow> 'v option"
    and insert :: "'k \<Rightarrow> 'v \<Rightarrow> 'm \<Rightarrow> 'm"
    and remove :: "'k \<Rightarrow> 'm \<Rightarrow> 'm"
    and len :: "'m \<Rightarrow> nat"
    and keys :: "'m \<Rightarrow> 'k set"
    and wf :: "'m \<Rightarrow> bool"
  assumes wf_empty: "wf empty"
    and wf_insert: "wf m \<Longrightarrow> wf (insert k v m)"
    and wf_remove: "wf m \<Longrightarrow> wf (remove k m)"
    and get_empty: "get empty k = None"
    and get_insert: "wf m \<Longrightarrow> get (insert k v m) j = (if j = k then Some v else get m j)"
    and get_remove: "wf m \<Longrightarrow> get (remove k m) j = (if j = k then None else get m j)"
    and keys_get: "keys m = {k. get m k \<noteq> None}"
    and finite_keys: "finite (keys m)"
    and len_keys: "wf m \<Longrightarrow> len m = card (keys m)"
begin

lemma keys_insert: "wf m \<Longrightarrow> keys (insert k v m) = {k} \<union> keys m"
  by (auto simp: keys_get get_insert)

lemma keys_remove: "wf m \<Longrightarrow> keys (remove k m) = keys m - {k}"
  by (auto simp: keys_get get_remove)

lemma key_iff: "k \<in> keys m \<longleftrightarrow> get m k \<noteq> None"
  by (simp add: keys_get)

lemma len_insert: "wf m \<Longrightarrow> len (insert k v m) = (if get m k = None then Suc (len m) else len m)"
  using finite_keys[of m] key_iff[of k m]
  by (simp add: len_keys wf_insert keys_insert insert_absorb)

lemma len_remove: "wf m \<Longrightarrow> len (remove k m) = (if get m k = None then len m else len m - 1)"
  using finite_keys[of m] key_iff[of k m]
  by (simp add: len_keys wf_remove keys_remove)

lemma len_remove_le: "wf m \<Longrightarrow> len (remove k m) \<le> len m"
  by (simp add: len_remove)

lemma len_insert_le: "wf m \<Longrightarrow> len (insert k v m) \<le> Suc (len m)"
  by (simp add: len_insert)

lemma vacant_key:
  assumes "wf m" and "finite S" and "len m < card S"
  obtains k where "k \<in> S" and "get m k = None"
proof -
  have "\<not> S \<subseteq> keys m"
    using assms card_mono[OF finite_keys] by (auto simp: len_keys not_le[symmetric])
  then show thesis using that by (auto simp: keys_get)
qed

end

interpretation hm: hash_map "[]" hm_get hm_insert hm_remove hm_len hm_keys hm_wf
proof
  fix m :: "('a, 'b) hashmap" and k j :: 'a and v :: 'b
  show "hm_wf []" "hm_get [] k = None"
    by (simp_all add: hm_wf_def hm_get_def)
  show "hm_wf m \<Longrightarrow> hm_wf (hm_insert k v m)"
    by (simp add: hm_wf_def hm_insert_def distinct_update)
  show "hm_wf m \<Longrightarrow> hm_wf (hm_remove k m)"
    by (simp add: hm_wf_def hm_remove_def distinct_delete)
  show "hm_wf m \<Longrightarrow> hm_get (hm_insert k v m) j = (if j = k then Some v else hm_get m j)"
    by (simp add: hm_get_def hm_insert_def update_conv')
  show "hm_wf m \<Longrightarrow> hm_get (hm_remove k m) j = (if j = k then None else hm_get m j)"
    by (simp add: hm_get_def hm_remove_def delete_conv')
  show "hm_keys m = {k. hm_get m k \<noteq> None}"
    by (auto simp: hm_keys_def hm_get_def map_of_eq_None_iff)
  show "finite (hm_keys m)"
    by (simp add: hm_keys_def)
  show "hm_wf m \<Longrightarrow> hm_len m = card (hm_keys m)"
    using distinct_card[of "map fst m"] by (simp add: hm_wf_def hm_len_def hm_keys_def)
qed

lemmas hm_simps = hm.get_empty hm.get_insert hm.get_remove hm.wf_empty hm.wf_insert hm.wf_remove

end
