(* ===== verification/Rust_Text.thy ===== *)
theory Rust_Text
  imports Rust_Std
begin

text \<open>
  Text of the standard library: integer printing and parsing, the address parser of
  \<^verbatim>\<open>core::net\<close> (a cursor over the remaining bytes; a reader that fails leaves the
  cursor where it was, so a reader returns the value and the rest, or nothing), the
  \<^verbatim>\<open>Display\<close> forms of addresses, and the \<^verbatim>\<open>str\<close> methods the program
  uses. The lemmas at the end show that printed numbers and IPv4 addresses parse back.
\<close>

section \<open>Printing integers\<close>

definition digit_char :: "nat \<Rightarrow> char" where
  "digit_char d = char_of (if d < 10 then 48 + d else 87 + d)"

fun show_radix :: "nat \<Rightarrow> nat \<Rightarrow> string" where
  "show_radix r n = (if r \<le> 1 \<or> n < r then [digit_char n]
     else show_radix r (n div r) @ [digit_char (n mod r)])"

declare show_radix.simps [simp del]

definition show_nat :: "nat \<Rightarrow> string" where
  "show_nat n = show_radix 10 n"

definition show_hex :: "nat \<Rightarrow> string" where
  "show_hex n = show_radix 16 n"

abbreviation show_word :: "'a::len word \<Rightarrow> string" where
  "show_word w \<equiv> show_nat (unat w)"

section \<open>Parsing integers\<close>

text \<open>\<^verbatim>\<open>char::to_digit\<close> for radix 10 and 16.\<close>

definition to_digit :: "nat \<Rightarrow> char \<Rightarrow> nat option" where
  "to_digit r c = (let n = of_char c; d =
       (if 48 \<le> n \<and> n \<le> 57 then n - 48
        else if 97 \<le> n \<and> n \<le> 122 then n - 87
        else if 65 \<le> n \<and> n \<le> 90 then n - 55 else 36)
     in if d < r then Some d else None)"

text \<open>
  \<^verbatim>\<open>str::parse\<close> of an unsigned integer below \<open>bound\<close>: an optional plus sign, then
  digits; a bad digit is reported before an overflow at the same position.
\<close>

fun parse_digits :: "nat \<Rightarrow> nat \<Rightarrow> string \<Rightarrow> string + nat" where
  "parse_digits bound acc [] = Inr acc"
| "parse_digits bound acc (c # cs) =
     (case to_digit 10 c of
        None \<Rightarrow> Inl ''invalid digit found in string''
      | Some d \<Rightarrow>
          if 10 * acc + d < bound then parse_digits bound (10 * acc + d) cs
          else Inl ''number too large to fit in target type'')"

definition parse_uint :: "nat \<Rightarrow> string \<Rightarrow> string + nat" where
  "parse_uint bound s =
     (if s = [] then Inl ''cannot parse integer from empty string''
      else if s = ''+'' \<or> s = ''-'' then Inl ''invalid digit found in string''
      else if hd s = CHR ''+'' then parse_digits bound 0 (tl s)
      else parse_digits bound 0 s)"

definition parse_u8 :: "string \<Rightarrow> string + u8" where
  "parse_u8 s = map_sum id of_nat (parse_uint 256 s)"

definition parse_u32 :: "string \<Rightarrow> string + u32" where
  "parse_u32 s = map_sum id of_nat (parse_uint (2 ^ 32) s)"

definition parse_u64 :: "string \<Rightarrow> string + u64" where
  "parse_u64 s = map_sum id of_nat (parse_uint (2 ^ 64) s)"

section \<open>The address parser\<close>

type_synonym 'a reader = "string \<Rightarrow> ('a \<times> string) option"

fun read_given_char :: "char \<Rightarrow> unit reader" where
  "read_given_char t [] = None"
| "read_given_char t (c # cs) = (if c = t then Some ((), cs) else None)"

definition read_then :: "'a reader \<Rightarrow> ('a \<Rightarrow> 'b reader) \<Rightarrow> 'b reader" where
  "read_then p f s = (case p s of None \<Rightarrow> None | Some (x, s') \<Rightarrow> f x s')"

definition read_done :: "'a \<Rightarrow> 'a reader" where
  "read_done x s = Some (x, s)"

definition read_separator :: "char \<Rightarrow> nat \<Rightarrow> 'a reader \<Rightarrow> 'a reader" where
  "read_separator sep i p = (if i > 0 then read_then (read_given_char sep) (\<lambda>_. p) else p)"

abbreviation is_digit_of :: "nat \<Rightarrow> char \<Rightarrow> bool" where
  "is_digit_of r c \<equiv> to_digit r c \<noteq> None"

definition digits_value :: "nat \<Rightarrow> string \<Rightarrow> nat" where
  "digits_value r ds = foldl (\<lambda>acc c. r * acc + the (to_digit r c)) 0 ds"

text \<open>
  \<open>read_number r limit zeros bound\<close>: digits up to \<open>limit\<close> of them, a leading zero only where
  \<open>zeros\<close> allows it, the value below \<open>bound\<close>.
\<close>

definition read_number :: "nat \<Rightarrow> nat option \<Rightarrow> bool \<Rightarrow> nat \<Rightarrow> nat reader" where
  "read_number r limit zeros bound s =
     (let ds = takeWhile (is_digit_of r) s; rest = dropWhile (is_digit_of r) s in
      if ds = [] then None
      else if (case limit of None \<Rightarrow> False | Some m \<Rightarrow> length ds > m) then None
      else if \<not> zeros \<and> hd ds = CHR ''0'' \<and> length ds > 1 then None
      else if digits_value r ds < bound then Some (digits_value r ds, rest)
      else None)"

abbreviation read_octet :: "nat reader" where
  "read_octet \<equiv> read_number 10 (Some 3) False 256"

definition ipv4_of_octets :: "nat \<Rightarrow> nat \<Rightarrow> nat \<Rightarrow> nat \<Rightarrow> Ipv4Addr" where
  "ipv4_of_octets a b c d = from_be_bytes [of_nat a, of_nat b, of_nat c, of_nat d]"

definition read_ipv4_addr :: "Ipv4Addr reader" where
  "read_ipv4_addr =
     read_then (read_separator CHR ''.'' 0 read_octet) (\<lambda>a.
     read_then (read_separator CHR ''.'' 1 read_octet) (\<lambda>b.
     read_then (read_separator CHR ''.'' 2 read_octet) (\<lambda>c.
     read_then (read_separator CHR ''.'' 3 read_octet) (\<lambda>d.
     read_done (ipv4_of_octets a b c d)))))"

text \<open>
  \<open>read_groups i k\<close> reads up to \<open>k\<close> more sixteen-bit groups, the next one being number
  \<open>i\<close>; the flag says that an embedded IPv4 address ended the run.
\<close>

fun read_groups :: "nat \<Rightarrow> nat \<Rightarrow> string \<Rightarrow> u16 list \<times> bool \<times> string" where
  "read_groups i 0 s = ([], False, s)"
| "read_groups i (Suc k) s =
     (case (if k \<ge> 1 then read_separator CHR '':'' i read_ipv4_addr s else None) of
        Some (a, s') \<Rightarrow> ([ucast (drop_bit 16 a), ucast a], True, s')
      | None \<Rightarrow>
          (case read_separator CHR '':'' i (read_number 16 (Some 4) True 65536) s of
             None \<Rightarrow> ([], False, s)
           | Some (g, s') \<Rightarrow>
               (case read_groups (Suc i) k s' of (gs, v4, s'') \<Rightarrow> (of_nat g # gs, v4, s''))))"

definition ipv6_of_segments :: "u16 list \<Rightarrow> Ipv6Addr" where
  "ipv6_of_segments gs = from_be_bytes (concat (map (be_bytes 2) gs))"

definition read_ipv6_addr :: "Ipv6Addr reader" where
  "read_ipv6_addr s =
     (case read_groups 0 8 s of (head, head_ipv4, s1) \<Rightarrow>
        if length head = 8 then Some (ipv6_of_segments head, s1)
        else if head_ipv4 then None
        else read_then (read_given_char CHR '':'') (\<lambda>_. read_then (read_given_char CHR '':'') (\<lambda>_ s2.
          (case read_groups 0 (8 - (length head + 1)) s2 of (tail, _, s3) \<Rightarrow>
             Some (ipv6_of_segments
               (head @ replicate (8 - length head - length tail) 0 @ tail), s3)))) s1)"

definition read_or :: "'a reader \<Rightarrow> 'a reader \<Rightarrow> 'a reader" where
  "read_or p q s = (case p s of None \<Rightarrow> q s | Some r \<Rightarrow> Some r)"

definition read_map :: "('a \<Rightarrow> 'b) \<Rightarrow> 'a reader \<Rightarrow> 'b reader" where
  "read_map f p s = map_option (\<lambda>(x, s'). (f x, s')) (p s)"

definition read_ip_addr :: "IpAddr reader" where
  "read_ip_addr = read_or (read_map V4 read_ipv4_addr) (read_map V6 read_ipv6_addr)"

definition read_port :: "u16 reader" where
  "read_port = read_then (read_given_char CHR '':'')
     (\<lambda>_. read_map of_nat (read_number 10 None True 65536))"

definition read_scope_id :: "u32 reader" where
  "read_scope_id = read_then (read_given_char CHR ''%'')
     (\<lambda>_. read_map of_nat (read_number 10 None True (2 ^ 32)))"

definition read_socket_addr_v4 :: "SocketAddr reader" where
  "read_socket_addr_v4 =
     read_then read_ipv4_addr (\<lambda>a. read_then read_port (\<lambda>p. read_done (SockV4 a p)))"

definition read_socket_addr_v6 :: "SocketAddr reader" where
  "read_socket_addr_v6 =
     read_then (read_given_char CHR ''['') (\<lambda>_.
     read_then read_ipv6_addr (\<lambda>a.
     read_then (read_or read_scope_id (read_done 0)) (\<lambda>scope.
     read_then (read_given_char CHR '']'') (\<lambda>_.
     read_then read_port (\<lambda>p.
     read_done (SockV6 a p 0 scope))))))"

definition parse_with :: "'a reader \<Rightarrow> string \<Rightarrow> string \<Rightarrow> string + 'a" where
  "parse_with p e s = (case p s of Some (x, []) \<Rightarrow> Inr x | _ \<Rightarrow> Inl e)"

definition parse_ipv4 :: "string \<Rightarrow> string + Ipv4Addr" where
  "parse_ipv4 s = (if length s > 15 then Inl ''invalid IPv4 address syntax''
     else parse_with read_ipv4_addr ''invalid IPv4 address syntax'' s)"

definition parse_ip :: "string \<Rightarrow> string + IpAddr" where
  "parse_ip = parse_with read_ip_addr ''invalid IP address syntax''"

definition parse_socket_addr :: "string \<Rightarrow> string + SocketAddr" where
  "parse_socket_addr =
     parse_with (read_or read_socket_addr_v4 read_socket_addr_v6) ''invalid socket address syntax''"

text \<open>The error of a standard-library parser as the innermost message of an error chain.\<close>

definition std_result :: "string + 'a \<Rightarrow> 'a result" where
  "std_result r = map_sum (\<lambda>e. [e]) id r"

lemma std_result_simps [simp]:
  "std_result (Inl e) = Inl [e]" "std_result (Inr x) = Inr x"
  by (simp_all add: std_result_def)

lemma std_result_Inr_iff [simp]: "std_result r = Inr x \<longleftrightarrow> r = Inr x"
  by (cases r) simp_all

section \<open>Printing addresses\<close>

definition show_ipv4 :: "Ipv4Addr \<Rightarrow> string" where
  "show_ipv4 a = (case be_bytes 4 a of
     [b0, b1, b2, b3] \<Rightarrow> show_word b0 @ ''.'' @ show_word b1 @ ''.'' @ show_word b2 @ ''.'' @ show_word b3
   | _ \<Rightarrow> [])"

definition ipv6_segments :: "Ipv6Addr \<Rightarrow> u16 list" where
  "ipv6_segments a = map (\<lambda>i. ucast (drop_bit (16 * i) a)) (rev [0..<8])"

text \<open>The first longest run of zero segments, as its start and its length.\<close>

fun zero_span :: "nat \<Rightarrow> nat \<times> nat \<Rightarrow> nat \<times> nat \<Rightarrow> u16 list \<Rightarrow> nat \<times> nat" where
  "zero_span i cur longest [] = longest"
| "zero_span i cur longest (g # gs) =
     (if g = 0 then
        let cur' = (if snd cur = 0 then i else fst cur, snd cur + 1)
        in zero_span (Suc i) cur' (if snd cur' > snd longest then cur' else longest) gs
      else zero_span (Suc i) (0, 0) longest gs)"

fun show_segments :: "u16 list \<Rightarrow> string" where
  "show_segments [] = []"
| "show_segments [g] = show_hex (unat g)"
| "show_segments (g # gs) = show_hex (unat g) @ '':'' @ show_segments gs"

definition show_ipv6 :: "Ipv6Addr \<Rightarrow> string" where
  "show_ipv6 a =
     (let gs = ipv6_segments a in
      if take 6 gs = [0, 0, 0, 0, 0, 0xffff] then ''::ffff:'' @ show_ipv4 (ucast a)
      else case zero_span 0 (0, 0) (0, 0) gs of (start, n) \<Rightarrow>
        if n > 1 then show_segments (take start gs) @ ''::'' @ show_segments (drop (start + n) gs)
        else show_segments gs)"

fun show_ip :: "IpAddr \<Rightarrow> string" where
  "show_ip (V4 a) = show_ipv4 a"
| "show_ip (V6 a) = show_ipv6 a"

fun show_socket_addr :: "SocketAddr \<Rightarrow> string" where
  "show_socket_addr (SockV4 a p) = show_ipv4 a @ '':'' @ show_word p"
| "show_socket_addr (SockV6 a p _ scope) =
     (if scope = 0 then ''['' @ show_ipv6 a @ '']:'' @ show_word p
      else ''['' @ show_ipv6 a @ ''%'' @ show_word scope @ '']:'' @ show_word p)"

section \<open>String helpers\<close>

definition as_bytes :: "string \<Rightarrow> bytes" where
  "as_bytes s = map of_char s"

fun split_once :: "char \<Rightarrow> string \<Rightarrow> (string \<times> string) option" where
  "split_once c [] = None"
| "split_once c (x # xs) =
     (if x = c then Some ([], xs) else map_option (\<lambda>(a, b). (x # a, b)) (split_once c xs))"

fun strip_prefix :: "string \<Rightarrow> string \<Rightarrow> string option" where
  "strip_prefix [] s = Some s"
| "strip_prefix (p # ps) [] = None"
| "strip_prefix (p # ps) (c # cs) = (if p = c then strip_prefix ps cs else None)"

fun str_contains :: "string \<Rightarrow> string \<Rightarrow> bool" where
  "str_contains [] pat = (pat = [])"
| "str_contains (c # cs) pat = (strip_prefix pat (c # cs) \<noteq> None \<or> str_contains cs pat)"

definition ascii_lower :: "char \<Rightarrow> char" where
  "ascii_lower c = (let n = of_char c :: nat in if 65 \<le> n \<and> n \<le> 90 then char_of (n + 32) else c)"

fun join :: "string \<Rightarrow> string list \<Rightarrow> string" where
  "join sep [] = []"
| "join sep [x] = x"
| "join sep (x # xs) = x @ sep @ join sep xs"

definition show_bool :: "bool \<Rightarrow> string" where
  "show_bool b = (if b then ''true'' else ''false'')"

section \<open>Printed text parses back\<close>

lemma to_digit_digit_char [simp]: "d < r \<Longrightarrow> r \<le> 36 \<Longrightarrow> to_digit r (digit_char d) = Some d"
  by (auto simp: to_digit_def digit_char_def Let_def)

lemma show_radix_digits:
  assumes "2 \<le> r" "r \<le> 36" and "c \<in> set (show_radix r n)"
  shows "is_digit_of r c"
  using assms
proof (induction r n rule: show_radix.induct)
  case (1 r n)
  then show ?case
    by (cases "n < r") (auto simp: show_radix.simps[of r n])
qed

lemma show_radix_nonempty [simp]: "show_radix r n \<noteq> []"
  by (simp add: show_radix.simps)

lemma digits_value_snoc: "digits_value r (ds @ [c]) = r * digits_value r ds + the (to_digit r c)"
  by (simp add: digits_value_def)

lemma digits_value_show_radix:
  assumes "2 \<le> r" "r \<le> 36"
  shows "digits_value r (show_radix r n) = n"
  using assms
proof (induction r n rule: show_radix.induct)
  case (1 r n)
  show ?case
  proof (cases "n < r")
    case True
    then show ?thesis using 1(3) by (simp add: show_radix.simps[of r n] digits_value_def)
  next
    case False
    then have "digits_value r (show_radix r (n div r)) = n div r" using 1 by simp
    then show ?thesis
      using False 1(2,3) by (simp add: show_radix.simps[of r n] digits_value_snoc)
  qed
qed

lemma show_radix_length:
  assumes "2 \<le> r" "n < r ^ k" "0 < k"
  shows "length (show_radix r n) \<le> k"
  using assms
proof (induction k arbitrary: n)
  case 0
  then show ?case by simp
next
  case (Suc k)
  show ?case
  proof (cases "n < r")
    case True
    then show ?thesis by (simp add: show_radix.simps[of r n])
  next
    case False
    then have "0 < k" using Suc.prems by (cases k) auto
    moreover have "n div r < r ^ k"
      using Suc.prems(2) by (simp add: less_mult_imp_div_less mult.commute)
    ultimately have "length (show_radix r (n div r)) \<le> k" using Suc by simp
    then show ?thesis using False Suc.prems(1) by (simp add: show_radix.simps[of r n])
  qed
qed

lemma show_radix_hd_zero:
  assumes "2 \<le> r" "r \<le> 36"
  shows "hd (show_radix r n) = CHR ''0'' \<longleftrightarrow> n = 0"
  using assms
proof (induction r n rule: show_radix.induct)
  case (1 r n)
  have eq: "digit_char d = CHR ''0'' \<longleftrightarrow> d = 0" if "d < r" for d
  proof
    assume "digit_char d = CHR ''0''"
    also have "CHR ''0'' = digit_char 0" by code_simp
    finally have "to_digit r (digit_char d) = to_digit r (digit_char 0)" by simp
    then show "d = 0" using that 1(2,3) by simp
  next
    assume "d = 0"
    then show "digit_char d = CHR ''0''" by (simp only:) code_simp
  qed
  show ?case
  proof (cases "n < r")
    case True
    then show ?thesis by (simp add: show_radix.simps[of r n] eq)
  next
    case False
    then have "n div r \<noteq> 0" using 1(2) by (simp add: div_eq_0_iff)
    then show ?thesis using False 1 by (simp add: show_radix.simps[of r n])
  qed
qed

definition not_digit_hd :: "nat \<Rightarrow> string \<Rightarrow> bool" where
  "not_digit_hd r s \<longleftrightarrow> (case s of [] \<Rightarrow> True | c # _ \<Rightarrow> \<not> is_digit_of r c)"

lemma takeWhile_all_append:
  "(\<And>x. x \<in> set xs \<Longrightarrow> P x) \<Longrightarrow> takeWhile P (xs @ ys) = xs @ takeWhile P ys"
  "(\<And>x. x \<in> set xs \<Longrightarrow> P x) \<Longrightarrow> dropWhile P (xs @ ys) = dropWhile P ys"
  by (simp_all add: takeWhile_append2)

lemma read_number_show:
  assumes r: "2 \<le> r" "r \<le> 36" and n: "n < bound"
    and len: "case limit of None \<Rightarrow> True | Some m \<Rightarrow> length (show_radix r n) \<le> m"
    and rest: "not_digit_hd r rest"
  shows "read_number r limit zeros bound (show_radix r n @ rest) = Some (n, rest)"
proof -
  have digits: "is_digit_of r c" if "c \<in> set (show_radix r n)" for c
    using that r show_radix_digits by blast
  have "takeWhile (is_digit_of r) rest = []" "dropWhile (is_digit_of r) rest = rest"
    using rest by (auto simp: not_digit_hd_def split: list.splits)
  then have "takeWhile (is_digit_of r) (show_radix r n @ rest) = show_radix r n"
    "dropWhile (is_digit_of r) (show_radix r n @ rest) = rest"
    using digits by (simp_all add: takeWhile_all_append)
  moreover have "n = 0 \<Longrightarrow> length (show_radix r n) = 1"
    using r by (simp add: show_radix.simps)
  ultimately show ?thesis
    using n len r
    by (auto simp: read_number_def Let_def digits_value_show_radix show_radix_hd_zero split: option.splits)
qed

lemma read_octet_show:
  "n < 256 \<Longrightarrow> not_digit_hd 10 rest \<Longrightarrow> read_octet (show_nat n @ rest) = Some (n, rest)"
  unfolding show_nat_def by (rule read_number_show) (auto intro: show_radix_length)

lemma unat_u8_less: "unat (b :: u8) < 256"
  using unsigned_less[of b] by simp

lemma read_ipv4_show:
  assumes "not_digit_hd 10 rest"
  shows "read_ipv4_addr (show_ipv4 a @ rest) = Some (a, rest)"
proof -
  let ?b = "\<lambda>i. ucast (drop_bit (8 * i) a) :: u8"
  have b: "be_bytes 4 a = [?b 3, ?b 2, ?b 1, ?b 0]"
    by (simp add: be_bytes_def upt_rec)
  have "from_be_bytes (be_bytes 4 a) = a"
    by (rule from_be_bytes_be_bytes) simp
  then have "ipv4_of_octets (unat (?b 3)) (unat (?b 2)) (unat (?b 1)) (unat (?b 0)) = a"
    by (simp add: ipv4_of_octets_def b)
  moreover have "not_digit_hd 10 (CHR ''.'' # xs)" for xs
    by (simp add: not_digit_hd_def to_digit_def)
  ultimately show ?thesis
    using assms
    by (simp add: show_ipv4_def b read_ipv4_addr_def read_then_def read_separator_def read_done_def
        read_octet_show unat_u8_less)
qed

lemma show_ipv4_length: "length (show_ipv4 a) \<le> 15"
proof -
  have "length (show_nat n) \<le> 3" if "n < 256" for n
    unfolding show_nat_def using that by (intro show_radix_length) auto
  from this[OF unat_u8_less] have l: "length (show_word (b :: u8)) \<le> 3" for b .
  obtain b0 b1 b2 b3 where "be_bytes 4 a = [b0, b1, b2, b3]"
    by (simp add: be_bytes_def upt_rec)
  then show ?thesis
    using l[of b0] l[of b1] l[of b2] l[of b3] by (simp add: show_ipv4_def)
qed

lemma not_digit_hd_simps [simp]:
  "not_digit_hd r []"
  "not_digit_hd 10 (CHR '':'' # s)"
  "not_digit_hd 10 (CHR ''/'' # s)"
  by (simp_all add: not_digit_hd_def to_digit_def)

lemma parse_ipv4_show [simp]: "parse_ipv4 (show_ipv4 a) = Inr a"
  using read_ipv4_show[of "[]" a] show_ipv4_length[of a]
  by (simp add: parse_ipv4_def parse_with_def)

lemma parse_ip_show_v4 [simp]: "parse_ip (show_ipv4 a) = Inr (V4 a)"
  using read_ipv4_show[of "[]" a]
  by (simp add: parse_ip_def parse_with_def read_ip_addr_def read_or_def read_map_def)

lemma unat_word_less: "unat (w :: 'a::len word) < 2 ^ LENGTH('a)"
  by (rule unsigned_less)

lemma read_port_show: "read_port (CHR '':'' # show_word (p :: u16)) = Some (p, [])"
proof -
  have "read_number 10 None True 65536 (show_radix 10 (unat p) @ []) = Some (unat p, [])"
    by (rule read_number_show) (use unat_word_less[of p] in simp_all)
  then show ?thesis
    by (simp add: read_port_def read_then_def read_map_def show_nat_def)
qed

lemma parse_socket_addr_show_v4 [simp]:
  "parse_socket_addr (show_ipv4 a @ CHR '':'' # show_word p) = Inr (SockV4 a p)"
  using read_ipv4_show[of "CHR '':'' # show_word p" a]
  by (simp add: parse_socket_addr_def parse_with_def read_or_def read_socket_addr_v4_def
      read_then_def read_port_show read_done_def)

lemma parse_digits_value:
  assumes "\<And>c. c \<in> set ds \<Longrightarrow> is_digit_of 10 c"
    and "foldl (\<lambda>acc c. 10 * acc + the (to_digit 10 c)) acc ds < bound"
  shows "parse_digits bound acc ds = Inr (foldl (\<lambda>acc c. 10 * acc + the (to_digit 10 c)) acc ds)"
  using assms
proof (induction ds arbitrary: acc)
  case Nil
  then show ?case by simp
next
  case (Cons c ds)
  let ?f = "\<lambda>acc c. 10 * acc + the (to_digit 10 c)"
  have mono: "a \<le> foldl ?f a xs" for a xs
  proof (induction xs arbitrary: a)
    case (Cons x xs)
    have "a \<le> 10 * a + the (to_digit 10 x)" by simp
    also have "\<dots> \<le> foldl ?f (10 * a + the (to_digit 10 x)) xs" by (rule Cons.IH)
    finally show ?case by simp
  qed simp
  obtain d where d: "to_digit 10 c = Some d" using Cons.prems(1)[of c] by auto
  have "10 * acc + d < bound" using Cons.prems(2) mono[of "10 * acc + d" ds] d by simp
  then show ?case using Cons.IH[of "10 * acc + d"] Cons.prems d by simp
qed

lemma parse_uint_show: "n < bound \<Longrightarrow> parse_uint bound (show_nat n) = Inr n"
proof -
  assume n: "n < bound"
  have digits: "c \<in> set (show_nat n) \<Longrightarrow> is_digit_of 10 c" for c
    using show_radix_digits[of 10 c n] by (simp add: show_nat_def)
  have "\<not> is_digit_of 10 CHR ''+''" "\<not> is_digit_of 10 CHR ''-''"
    by (simp_all add: to_digit_def)
  moreover have ne: "show_nat n \<noteq> []" by (simp add: show_nat_def)
  moreover have "is_digit_of 10 (hd (show_nat n))" using digits ne by simp
  ultimately have "show_nat n \<noteq> ''+''" "show_nat n \<noteq> ''-''" "hd (show_nat n) \<noteq> CHR ''+''"
    by (metis list.sel(1))+
  moreover have "parse_digits bound 0 (show_nat n) = Inr n"
    using parse_digits_value[of "show_nat n" 0 bound, OF digits] digits_value_show_radix[of 10 n] n
    by (simp add: digits_value_def show_nat_def)
  ultimately show ?thesis using ne by (simp add: parse_uint_def)
qed

lemma parse_u8_show [simp]: "parse_u8 (show_word w) = Inr w"
  using parse_uint_show[OF unat_u8_less[of w]] by (simp add: parse_u8_def)

end
