(* ===== verification/Net.thy ===== *)
theory Net
  imports Rust_Std "HOL-Library.Multiset"
begin

text \<open>
  \<^verbatim>\<open>src/net.rs\<close>: CIDR blocks, the difference of two bypass lists and the
  classification table \<^verbatim>\<open>RouteTable\<close>. The interface \<open>prefix_family\<close> is what
  the two mask functions share (which bits a prefix length selects); it is interpreted for the
  IPv4 and the IPv6 mask, and every fact about matching is proved once inside it.
\<close>

section \<open>Masks\<close>

definition prefix_mask_v4 :: "u8 \<Rightarrow> u32" where
  "prefix_mask_v4 p =
     (if p = 0 then 0 else if p \<ge> 32 then - 1 else push_bit (unat (32 - p)) (- 1))"

definition prefix_mask_v6 :: "u8 \<Rightarrow> u128" where
  "prefix_mask_v6 p =
     (if p = 0 then 0 else if p \<ge> 128 then - 1 else push_bit (unat (128 - p)) (- 1))"

definition mask_v4 :: "Ipv4Addr \<Rightarrow> u8 \<Rightarrow> Ipv4Addr" where
  "mask_v4 addr p = addr AND prefix_mask_v4 p"

definition mask_v6 :: "Ipv6Addr \<Rightarrow> u8 \<Rightarrow> Ipv6Addr" where
  "mask_v6 addr p = addr AND prefix_mask_v6 p"

section \<open>CIDR blocks\<close>

type_synonym CidrList = "(IpAddr \<times> u8) list"

record Cidr =
  cidr_base :: IpAddr
  cidr_prefix :: u8

definition Cidr_new :: "IpAddr \<Rightarrow> u8 \<Rightarrow> Cidr" where
  "Cidr_new addr p =
     \<lparr>cidr_base = (case addr of V4 v4 \<Rightarrow> V4 (mask_v4 v4 p) | V6 v6 \<Rightarrow> V6 (mask_v6 v6 p)),
      cidr_prefix = p\<rparr>"

definition Cidr_is_ipv6 :: "Cidr \<Rightarrow> bool" where
  "Cidr_is_ipv6 c \<longleftrightarrow> is_ipv6 (cidr_base c)"

definition Cidr_contains :: "Cidr \<Rightarrow> IpAddr \<Rightarrow> bool" where
  "Cidr_contains c addr =
     (case (cidr_base c, addr) of
        (V4 b, V4 a) \<Rightarrow> mask_v4 a (cidr_prefix c) = b
      | (V6 b, V6 a) \<Rightarrow> mask_v6 a (cidr_prefix c) = b
      | _ \<Rightarrow> False)"

definition diff_cidrs :: "CidrList \<Rightarrow> CidrList \<Rightarrow> CidrList \<times> CidrList" where
  "diff_cidrs old new =
     (let to_add = filter (\<lambda>e. e \<notin> set old) new;
          to_remove = filter (\<lambda>e. e \<notin> set new) old
      in (to_add, to_remove))"

section \<open>The route table\<close>

datatype RouteDecision = Direct | Proxy

record RouteTable =
  rt_v4 :: "(u32 \<times> u32) list"
  rt_v6 :: "(u128 \<times> u128) list"
  rt_len :: nat

definition RouteTable_default :: RouteTable where
  "RouteTable_default = \<lparr>rt_v4 = [], rt_v6 = [], rt_len = 0\<rparr>"

fun push_cidrs :: "Cidr list \<Rightarrow> (u32 \<times> u32) list \<Rightarrow> (u128 \<times> u128) list \<Rightarrow>
    (u32 \<times> u32) list \<times> (u128 \<times> u128) list" where
  "push_cidrs [] v4 v6 = (v4, v6)"
| "push_cidrs (c # cs) v4 v6 =
     (case cidr_base c of
        V4 b \<Rightarrow> push_cidrs cs (v4 @ [(b, prefix_mask_v4 (cidr_prefix c))]) v6
      | V6 b \<Rightarrow> push_cidrs cs v4 (v6 @ [(b, prefix_mask_v6 (cidr_prefix c))]))"

text \<open>\<^verbatim>\<open>sort_by_key\<close> is stable, as \<open>sort_key\<close> is; the key reverses the order.\<close>

definition RouteTable_new :: "CidrList \<Rightarrow> RouteTable" where
  "RouteTable_new direct =
     (let cidrs = map (\<lambda>(addr, p). Cidr_new addr p) direct;
          sorted = sort_key (\<lambda>c. - int (unat (cidr_prefix c))) cidrs;
          n = length sorted
      in case push_cidrs sorted [] [] of (v4, v6) \<Rightarrow> \<lparr>rt_v4 = v4, rt_v6 = v6, rt_len = n\<rparr>)"

definition RouteTable_decide :: "RouteTable \<Rightarrow> IpAddr \<Rightarrow> RouteDecision" where
  "RouteTable_decide t addr =
     (let matched = (case addr of
          V4 bits \<Rightarrow> list_ex (\<lambda>(base, m). bits AND m = base) (rt_v4 t)
        | V6 bits \<Rightarrow> list_ex (\<lambda>(base, m). bits AND m = base) (rt_v6 t))
      in if matched then Direct else Proxy)"

definition RouteTable_is_empty :: "RouteTable \<Rightarrow> bool" where
  "RouteTable_is_empty t \<longleftrightarrow> rt_len t = 0"

section \<open>What a prefix selects\<close>

text \<open>
  The abstract meaning of a block: an address belongs to the network of \<open>net\<close> with prefix
  length \<open>p\<close> when the two numbers agree after dropping the host part.
\<close>

definition same_network :: "nat \<Rightarrow> 'a::len word \<Rightarrow> 'a word \<Rightarrow> bool" where
  "same_network p a net \<longleftrightarrow>
     unat a div 2 ^ (LENGTH('a) - p) = unat net div 2 ^ (LENGTH('a) - p)"

lemma same_network_bits:
  "same_network p a (b :: 'a::len word) \<longleftrightarrow>
   (\<forall>n < LENGTH('a). LENGTH('a) \<le> n + p \<longrightarrow> bit a n = bit b n)"
proof -
  have "same_network p a b \<longleftrightarrow> drop_bit (LENGTH('a) - p) a = drop_bit (LENGTH('a) - p) b"
    by (simp add: same_network_def word_unat_eq_iff unat_drop_bit_eq flip: drop_bit_eq_div)
  also have "\<dots> \<longleftrightarrow> (\<forall>n < LENGTH('a). LENGTH('a) \<le> n + p \<longrightarrow> bit a n = bit b n)"
  proof
    assume eq: "drop_bit (LENGTH('a) - p) a = drop_bit (LENGTH('a) - p) b"
    show "\<forall>n < LENGTH('a). LENGTH('a) \<le> n + p \<longrightarrow> bit a n = bit b n"
    proof (intro allI impI)
      fix n assume n: "n < LENGTH('a)" "LENGTH('a) \<le> n + p"
      then have "bit (drop_bit (LENGTH('a) - p) w) (n - (LENGTH('a) - p)) = bit w n" for w :: "'a word"
        by (simp add: bit_simps)
      then show "bit a n = bit b n" using eq by metis
    qed
  next
    assume r: "\<forall>n < LENGTH('a). LENGTH('a) \<le> n + p \<longrightarrow> bit a n = bit b n"
    show "drop_bit (LENGTH('a) - p) a = drop_bit (LENGTH('a) - p) b"
    proof (rule bit_word_eqI)
      fix n
      show "bit (drop_bit (LENGTH('a) - p) a) n = bit (drop_bit (LENGTH('a) - p) b) n"
        using r[rule_format, of "LENGTH('a) - p + n"] bit_imp_le_length[of a "LENGTH('a) - p + n"]
          bit_imp_le_length[of b "LENGTH('a) - p + n"]
        by (auto simp: bit_simps)
    qed
  qed
  finally show ?thesis .
qed

locale prefix_family =
  fixes pmask :: "u8 \<Rightarrow> 'a::len word"
  assumes bit_pmask: "bit (pmask p) n \<longleftrightarrow> n < LENGTH('a) \<and> LENGTH('a) \<le> n + unat p"
begin

lemma mask_idem [simp]: "(a AND pmask p) AND pmask p = a AND pmask p"
  by (simp add: and.assoc)

lemma masked_eq_iff: "a AND pmask p = b AND pmask p \<longleftrightarrow> same_network (unat p) a b"
  by (auto simp: same_network_bits bit_eq_iff bit_simps bit_pmask)

lemma coarser: "p \<le> q \<Longrightarrow> a AND pmask q = b AND pmask q \<Longrightarrow> a AND pmask p = b AND pmask p"
  by (auto simp: masked_eq_iff same_network_bits word_le_nat_alt)

lemma host: "LENGTH('a) \<le> unat p \<Longrightarrow> a AND pmask p = a"
  by (rule bit_word_eqI) (auto simp: bit_simps bit_pmask)

lemma everything: "a AND pmask 0 = 0"
  by (rule bit_word_eqI) (auto simp: bit_simps bit_pmask)

end

lemma prefix_bits:
  fixes p width :: u8
  assumes "unat width = LENGTH('a::len)"
  shows "bit (if p = 0 then 0 else if p \<ge> width then - 1
      else push_bit (unat (width - p)) (- 1 :: 'a word)) n
    \<longleftrightarrow> n < LENGTH('a) \<and> LENGTH('a) \<le> n + unat p"
proof -
  have "unat (width - p) = LENGTH('a) - unat p" if "\<not> p \<ge> width"
    using that assms by (simp add: unat_sub_if_size word_le_nat_alt)
  then show ?thesis
    using assms by (auto simp: bit_simps word_le_nat_alt unat_eq_zero)
qed

interpretation fam4: prefix_family prefix_mask_v4
  by unfold_locales (simp only: prefix_mask_v4_def, rule prefix_bits, simp)

interpretation fam6: prefix_family prefix_mask_v6
  by unfold_locales (simp only: prefix_mask_v6_def, rule prefix_bits, simp)

section \<open>Membership and classification\<close>

fun in_block :: "IpAddr \<times> u8 \<Rightarrow> IpAddr \<Rightarrow> bool" where
  "in_block (V4 net, p) (V4 a) = same_network (unat p) a net"
| "in_block (V6 net, p) (V6 a) = same_network (unat p) a net"
| "in_block _ _ = False"

text \<open>
  A CIDR block built from any address and prefix length contains exactly the addresses of
  the same family whose network part, the number without its host bits, equals that of the
  address it was built from.
\<close>

lemma Cidr_contains_iff: "Cidr_contains (Cidr_new net p) a \<longleftrightarrow> in_block (net, p) a"
  by (cases net; cases a)
    (simp_all add: Cidr_contains_def Cidr_new_def mask_v4_def mask_v6_def
      fam4.masked_eq_iff fam6.masked_eq_iff)

lemma Cidr_new_idem: "Cidr_new (cidr_base (Cidr_new net p)) p = Cidr_new net p"
  by (cases net) (simp_all add: Cidr_new_def mask_v4_def mask_v6_def)

lemma in_block_base: "in_block (cidr_base (Cidr_new net p), p) a \<longleftrightarrow> in_block (net, p) a"
proof (cases net)
  case (V4 n)
  have "same_network (unat p) (n AND prefix_mask_v4 p) n"
    by (simp flip: fam4.masked_eq_iff)
  then show ?thesis using V4
    by (cases a) (auto simp: Cidr_new_def mask_v4_def same_network_def)
next
  case (V6 n)
  have "same_network (unat p) (n AND prefix_mask_v6 p) n"
    by (simp flip: fam6.masked_eq_iff)
  then show ?thesis using V6
    by (cases a) (auto simp: Cidr_new_def mask_v6_def same_network_def)
qed

lemma push_cidrs_eq:
  "push_cidrs cs v4 v6 =
    (v4 @ List.map_filter (\<lambda>c. case cidr_base c of
        V4 b \<Rightarrow> Some (b, prefix_mask_v4 (cidr_prefix c)) | V6 _ \<Rightarrow> None) cs,
     v6 @ List.map_filter (\<lambda>c. case cidr_base c of
        V4 _ \<Rightarrow> None | V6 b \<Rightarrow> Some (b, prefix_mask_v6 (cidr_prefix c))) cs)"
  by (induction cs arbitrary: v4 v6) (auto simp: map_filter_simps split: IpAddr.splits)

lemma push_cidrs_decide:
  assumes "push_cidrs cs [] [] = (v4, v6)"
  shows "(case a of V4 bits \<Rightarrow> list_ex (\<lambda>(base, m). bits AND m = base) v4
                  | V6 bits \<Rightarrow> list_ex (\<lambda>(base, m). bits AND m = base) v6)
    \<longleftrightarrow> (\<exists>c \<in> set cs. Cidr_contains c a)"
  using assms
  by (cases a) (force simp: push_cidrs_eq list_ex_iff List.map_filter_def Cidr_contains_def
      mask_v4_def mask_v6_def split: IpAddr.splits)+

lemma decide_direct_iff:
  "RouteTable_decide (RouteTable_new blocks) a = Direct \<longleftrightarrow> (\<exists>b \<in> set blocks. in_block b a)"
proof -
  let ?cidrs = "map (\<lambda>(addr, p). Cidr_new addr p) blocks"
  let ?sorted = "sort_key (\<lambda>c. - int (unat (cidr_prefix c))) ?cidrs"
  obtain v4 v6 where push: "push_cidrs ?sorted [] [] = (v4, v6)" by fastforce
  have "(\<exists>c \<in> set ?sorted. Cidr_contains c a) \<longleftrightarrow> (\<exists>b \<in> set blocks. in_block b a)"
    by (force simp: Cidr_contains_iff)
  moreover have "RouteTable_new blocks = \<lparr>rt_v4 = v4, rt_v6 = v6, rt_len = length ?sorted\<rparr>"
    unfolding RouteTable_new_def Let_def push by simp
  ultimately show ?thesis
    using push_cidrs_decide[OF push, of a]
    by (simp add: RouteTable_decide_def cong: IpAddr.case_cong)
qed

text \<open>
  C20. The route table classifies an address as direct exactly when some configured bypass
  block contains it, whatever the order, overlap or duplication of the blocks: splitting the
  blocks by family, sorting them by prefix length and matching precomputed masks loses and
  adds nothing.
\<close>

theorem RouteTable_decide_correct:
  "RouteTable_decide (RouteTable_new blocks) a =
     (if list_ex (\<lambda>b. in_block b a) blocks then Direct else Proxy)"
  using decide_direct_iff[of blocks a] RouteDecision.exhaust by (auto simp: list_ex_iff)

lemma RouteTable_new_len:
  "rt_len (RouteTable_new blocks) = length blocks"
  "length (rt_v4 (RouteTable_new blocks)) + length (rt_v6 (RouteTable_new blocks)) = length blocks"
proof -
  have part: "length (fst (push_cidrs cs v4 v6)) + length (snd (push_cidrs cs v4 v6)) =
      length v4 + length v6 + length cs" for cs v4 v6
    by (induction cs arbitrary: v4 v6) (auto split: IpAddr.splits)
  show "rt_len (RouteTable_new blocks) = length blocks"
    by (simp add: RouteTable_new_def split: prod.splits)
  show "length (rt_v4 (RouteTable_new blocks)) + length (rt_v6 (RouteTable_new blocks)) = length blocks"
    using part[of "sort_key (\<lambda>c. - int (unat (cidr_prefix c))) (map (\<lambda>(addr, p). Cidr_new addr p) blocks)" "[]" "[]"]
    by (auto simp: RouteTable_new_def split: prod.splits)
qed

lemma empty_table_proxies: "RouteTable_decide RouteTable_default a = Proxy"
  by (simp add: RouteTable_decide_def RouteTable_default_def split: IpAddr.splits)

section \<open>Differences of bypass lists\<close>

text \<open>
  Removing the blocks \<^verbatim>\<open>diff_cidrs\<close> reports as removed from the old bypass list and
  adding those it reports as added gives the new list's blocks; nothing is both removed and
  added, what is removed was there before, and what is added was not.
\<close>

theorem diff_cidrs_correct:
  "case diff_cidrs old new of (to_add, to_remove) \<Rightarrow>
     (set old - set to_remove) \<union> set to_add = set new \<and>
     set to_add \<inter> set old = {} \<and> set to_remove \<subseteq> set old \<and> set to_remove \<inter> set new = {}"
  by (auto simp: diff_cidrs_def)

lemma diff_cidrs_empty_iff:
  "diff_cidrs old new = ([], []) \<longleftrightarrow> set old = set new"
  by (auto simp: diff_cidrs_def filter_empty_conv)

end
