(* ===== verification/Config.thy ===== *)
theory Config
  imports Rust_Text Net
begin

text \<open>
  \<^verbatim>\<open>src/config.rs\<close>: the configuration record, its validation and the accessors that
  re-parse its strings. An accessor calls \<^verbatim>\<open>expect\<close> and so may panic: its result is
  \<open>Inl\<close> of the panic message or \<open>Inr\<close> of the value. \<^verbatim>\<open>Duration\<close> is counted in
  seconds.
\<close>

type_synonym 'a may_panic = "string + 'a"

definition expect :: "string \<Rightarrow> 'e + 'a \<Rightarrow> 'a may_panic" where
  "expect msg r = (case r of Inl _ \<Rightarrow> Inl msg | Inr x \<Rightarrow> Inr x)"

definition bind_panic :: "'a may_panic \<Rightarrow> ('a \<Rightarrow> 'b may_panic) \<Rightarrow> 'b may_panic" where
  "bind_panic r f = (case r of Inl m \<Rightarrow> Inl m | Inr x \<Rightarrow> f x)"

text \<open>An iterator mapped with a function that may panic, and collected.\<close>

fun map_panic :: "('a \<Rightarrow> 'b may_panic) \<Rightarrow> 'a list \<Rightarrow> 'b list may_panic" where
  "map_panic f [] = Inr []"
| "map_panic f (x # xs) = bind_panic (f x) (\<lambda>y. bind_panic (map_panic f xs) (\<lambda>ys. Inr (y # ys)))"

lemma expect_simps [simp]: "expect msg (Inl e) = Inl msg" "expect msg (Inr x) = Inr x"
  by (simp_all add: expect_def)

lemma expect_Inr_iff [simp]: "expect msg r = Inr x \<longleftrightarrow> r = Inr x"
  by (cases r) simp_all

lemma bind_panic_simps [simp]: "bind_panic (Inl m) f = Inl m" "bind_panic (Inr x) f = f x"
  by (simp_all add: bind_panic_def)

lemma bind_panic_Inr_iff: "bind_panic r f = Inr y \<longleftrightarrow> (\<exists>x. r = Inr x \<and> f x = Inr y)"
  by (cases r) simp_all

lemma map_panic_Inr_iff:
  "map_panic f xs = Inr ys \<longleftrightarrow> list_all2 (\<lambda>x y. f x = Inr y) xs ys"
  by (induction xs arbitrary: ys) (auto simp: bind_panic_Inr_iff list_all2_Cons1)

lemma map_panic_total: "(\<And>x. x \<in> set xs \<Longrightarrow> \<exists>y. f x = Inr y) \<Longrightarrow> \<exists>ys. map_panic f xs = Inr ys"
proof (induction xs)
  case (Cons x xs)
  then obtain y ys where "f x = Inr y" "map_panic f xs = Inr ys" by fastforce
  then show ?case by simp
qed simp

section \<open>CIDR strings\<close>

definition parse_cidr :: "string \<Rightarrow> (IpAddr \<times> u8) result" where
  "parse_cidr spec =
     bind_res (context_opt (''cidr '' @ spec @ '' is missing a prefix length'')
                 (split_once CHR ''/'' spec)) (\<lambda>(addr_part, prefix_part).
     bind_res (context_res (''cidr '' @ spec @ '' has an invalid address'')
                 (std_result (parse_ip addr_part))) (\<lambda>addr.
     bind_res (context_res (''cidr '' @ spec @ '' has an invalid prefix length'')
                 (std_result (parse_u8 prefix_part))) (\<lambda>p.
     let limit = (if is_ipv4 addr then 32 else 128) in
     if p > limit then Inl [''cidr '' @ spec @ '' prefix length exceeds '' @ show_word limit]
     else Inr (addr, p))))"

section \<open>The configuration\<close>

record Config =
  proxy_addr :: string
  username :: "string option"
  password :: "string option"
  tun_name :: string
  tun_ip :: string
  verbose :: bool
  dns_server :: string
  override_dns :: bool
  dns_over_tcp :: bool
  bypass_cidrs :: "string list"
  metrics_addr :: "string option"

definition default_dns_server :: string where
  "default_dns_server = ''1.1.1.1''"

definition default_override_dns :: bool where
  "default_override_dns = True"

definition default_dns_over_tcp :: bool where
  "default_dns_over_tcp = True"

definition default_bypass_cidrs :: "string list" where
  "default_bypass_cidrs = []"

definition DEFAULT_CONNECT_TIMEOUT :: nat where
  "DEFAULT_CONNECT_TIMEOUT = 10"

definition Config_default :: Config where
  "Config_default =
     \<lparr>proxy_addr = ''127.0.0.1:1080'',
      username = None,
      password = None,
      tun_name = ''cortado0'',
      tun_ip = ''10.0.0.1'',
      verbose = False,
      dns_server = default_dns_server,
      override_dns = default_override_dns,
      dns_over_tcp = default_dns_over_tcp,
      bypass_cidrs = default_bypass_cidrs,
      metrics_addr = None\<rparr>"

fun validate_cidrs :: "string list \<Rightarrow> unit result" where
  "validate_cidrs [] = Inr ()"
| "validate_cidrs (c # cs) = bind_res (parse_cidr c) (\<lambda>_. validate_cidrs cs)"

definition validate_credentials :: "string option \<Rightarrow> string option \<Rightarrow> unit result" where
  "validate_credentials user pass =
     (case (user, pass) of
        (Some _, None) \<Rightarrow> Inl [''username and password must both be set or both be absent'']
      | (None, Some _) \<Rightarrow> Inl [''username and password must both be set or both be absent'']
      | (Some u, Some p) \<Rightarrow>
          if u = [] \<or> length u > 255 then Inl [''username length must be between 1 and 255'']
          else if p = [] \<or> length p > 255 then Inl [''password length must be between 1 and 255'']
          else Inr ()
      | (None, None) \<Rightarrow> Inr ())"

definition Config_validate :: "Config \<Rightarrow> unit result" where
  "Config_validate cfg =
     bind_res (context_res ''proxy_addr is not a valid socket address (expected ip:port)''
                 (std_result (parse_socket_addr (proxy_addr cfg)))) (\<lambda>_.
     bind_res (context_res ''tun_ip is not a valid IPv4 address''
                 (std_result (parse_ipv4 (tun_ip cfg)))) (\<lambda>_.
     bind_res (if override_dns cfg
               then bind_res (context_res ''dns_server is not a valid IP address''
                      (std_result (parse_ip (dns_server cfg)))) (\<lambda>_. Inr ())
               else Inr ()) (\<lambda>_.
     bind_res (validate_cidrs (bypass_cidrs cfg)) (\<lambda>_.
     bind_res (case metrics_addr cfg of
                 None \<Rightarrow> Inr ()
               | Some addr \<Rightarrow>
                   bind_res (context_res ''metrics_addr is not a valid socket address (expected ip:port)''
                      (std_result (parse_socket_addr addr))) (\<lambda>_. Inr ())) (\<lambda>_.
     validate_credentials (username cfg) (password cfg))))))"

definition proxy_socket_addr :: "Config \<Rightarrow> SocketAddr may_panic" where
  "proxy_socket_addr cfg = expect ''already validated'' (parse_socket_addr (proxy_addr cfg))"

definition tun_ipv4 :: "Config \<Rightarrow> Ipv4Addr may_panic" where
  "tun_ipv4 cfg = expect ''already validated'' (parse_ipv4 (tun_ip cfg))"

definition dns_addr :: "Config \<Rightarrow> IpAddr option may_panic" where
  "dns_addr cfg =
     (if override_dns cfg
      then bind_panic (expect ''already validated'' (parse_ip (dns_server cfg))) (\<lambda>a. Inr (Some a))
      else Inr None)"

definition bypass_routes :: "Config \<Rightarrow> CidrList may_panic" where
  "bypass_routes cfg = map_panic (\<lambda>c. expect ''already validated'' (parse_cidr c)) (bypass_cidrs cfg)"

definition metrics_socket_addr :: "Config \<Rightarrow> SocketAddr option may_panic" where
  "metrics_socket_addr cfg =
     (case metrics_addr cfg of
        None \<Rightarrow> Inr None
      | Some a \<Rightarrow>
          bind_panic (expect ''already validated'' (parse_socket_addr a)) (\<lambda>s. Inr (Some s)))"

section \<open>The proxy settings\<close>

record ProxyConfig =
  px_addr :: SocketAddr
  px_username :: "string option"
  px_password :: "string option"
  px_connect_timeout :: nat
  px_tcp_nodelay :: bool

definition ProxyConfig_from_config :: "Config \<Rightarrow> ProxyConfig may_panic" where
  "ProxyConfig_from_config cfg =
     bind_panic (proxy_socket_addr cfg) (\<lambda>addr. Inr
       \<lparr>px_addr = addr,
        px_username = username cfg,
        px_password = password cfg,
        px_connect_timeout = DEFAULT_CONNECT_TIMEOUT,
        px_tcp_nodelay = True\<rparr>)"

section \<open>Validation\<close>

fun max_prefix :: "IpAddr \<Rightarrow> u8" where
  "max_prefix (V4 _) = 32"
| "max_prefix (V6 _) = 128"

lemma parse_cidr_Inr_iff:
  "parse_cidr spec = Inr (addr, p) \<longleftrightarrow>
     (\<exists>a b. split_once CHR ''/'' spec = Some (a, b) \<and> parse_ip a = Inr addr \<and>
            parse_u8 b = Inr p \<and> p \<le> max_prefix addr)"
proof (cases "split_once CHR ''/'' spec")
  case (Some parts)
  obtain a b where "parts = (a, b)" by fastforce
  with Some show ?thesis
    by (cases "parse_ip a"; cases "parse_u8 b"; cases "projr (parse_ip a)")
      (auto simp: parse_cidr_def)
qed (simp add: parse_cidr_def)

lemma parse_cidr_bound: "parse_cidr spec = Inr (addr, p) \<Longrightarrow> p \<le> max_prefix addr"
  by (auto simp: parse_cidr_Inr_iff)

lemma parse_cidr_accepts_iff:
  "(\<exists>a p. parse_cidr spec = Inr (a, p)) \<longleftrightarrow> (\<exists>a p. parse_cidr spec = Inr (a, p) \<and> p \<le> max_prefix a)"
  by (metis parse_cidr_bound)

lemma validate_cidrs_iff:
  "validate_cidrs cs = Inr () \<longleftrightarrow> (\<forall>c \<in> set cs. \<exists>r. parse_cidr c = Inr r)"
  by (induction cs) (auto simp: bind_res_Inr_iff)

text \<open>What a configuration must satisfy, field by field.\<close>

abbreviation isr :: "'e + 'a \<Rightarrow> bool" where
  "isr r \<equiv> \<not> isl r"

definition credentials_ok :: "string option \<Rightarrow> string option \<Rightarrow> bool" where
  "credentials_ok user pass \<longleftrightarrow>
     (case (user, pass) of
        (None, None) \<Rightarrow> True
      | (Some u, Some p) \<Rightarrow> length u \<in> {1..255} \<and> length p \<in> {1..255}
      | _ \<Rightarrow> False)"

definition config_ok :: "Config \<Rightarrow> bool" where
  "config_ok cfg \<longleftrightarrow>
     isr (parse_socket_addr (proxy_addr cfg)) \<and> isr (parse_ipv4 (tun_ip cfg)) \<and>
     (override_dns cfg \<longrightarrow> isr (parse_ip (dns_server cfg))) \<and>
     list_all (\<lambda>c. isr (parse_cidr c)) (bypass_cidrs cfg) \<and>
     pred_option (\<lambda>a. isr (parse_socket_addr a)) (metrics_addr cfg) \<and>
     credentials_ok (username cfg) (password cfg)"

lemma isr_iff: "isr r \<longleftrightarrow> (\<exists>x. r = Inr x)"
  by (cases r) simp_all

lemma validate_credentials_iff:
  "validate_credentials user pass = Inr () \<longleftrightarrow> credentials_ok user pass"
  by (auto simp: validate_credentials_def credentials_ok_def Suc_le_eq split: option.splits)

lemma Config_validate_ok_iff: "Config_validate cfg = Inr () \<longleftrightarrow> config_ok cfg"
  by (cases "metrics_addr cfg"; cases "override_dns cfg")
    (simp_all add: Config_validate_def config_ok_def bind_res_Inr_iff validate_cidrs_iff isr_iff
      list_all_iff validate_credentials_iff)

text \<open>
  C26. Validation accepts a configuration exactly when the proxy and metrics addresses parse as
  socket addresses, the tunnel address as IPv4, the DNS server as an address unless the override
  is off, every bypass entry as a block with a prefix length in range, and the credentials are
  both absent or both one to 255 bytes long.
\<close>

theorem Config_validate_accepts_iff:
  "Config_validate cfg = Inr () \<longleftrightarrow>
     (\<exists>a. parse_socket_addr (proxy_addr cfg) = Inr a) \<and>
     (\<exists>a. parse_ipv4 (tun_ip cfg) = Inr a) \<and>
     (if override_dns cfg then (\<exists>a. parse_ip (dns_server cfg) = Inr a) else True) \<and>
     list_all (\<lambda>c. \<exists>a p. parse_cidr c = Inr (a, p) \<and> p \<le> max_prefix a) (bypass_cidrs cfg) \<and>
     (metrics_addr cfg = None \<or> (\<exists>m a. metrics_addr cfg = Some m \<and> parse_socket_addr m = Inr a)) \<and>
     credentials_ok (username cfg) (password cfg)"
  unfolding Config_validate_ok_iff config_ok_def
  by (cases "metrics_addr cfg") (simp_all add: isr_iff parse_cidr_accepts_iff)

lemma validated_accessors:
  assumes "Config_validate cfg = Inr ()"
  shows "\<exists>a. proxy_socket_addr cfg = Inr a" "\<exists>a. tun_ipv4 cfg = Inr a"
    "\<exists>a. dns_addr cfg = Inr a" "\<exists>rs. bypass_routes cfg = Inr rs"
    "\<exists>a. metrics_socket_addr cfg = Inr a" "\<exists>p. ProxyConfig_from_config cfg = Inr p"
proof -
  have ok: "config_ok cfg" using assms by (simp add: Config_validate_ok_iff)
  show proxy: "\<exists>a. proxy_socket_addr cfg = Inr a"
    using ok by (auto simp: config_ok_def proxy_socket_addr_def isr_iff)
  then show "\<exists>p. ProxyConfig_from_config cfg = Inr p"
    by (auto simp: ProxyConfig_from_config_def)
  show "\<exists>a. tun_ipv4 cfg = Inr a" using ok by (auto simp: config_ok_def tun_ipv4_def isr_iff)
  show "\<exists>a. dns_addr cfg = Inr a"
    using ok by (auto simp: config_ok_def dns_addr_def isr_iff)
  show "\<exists>a. metrics_socket_addr cfg = Inr a"
    using ok by (cases "metrics_addr cfg") (auto simp: config_ok_def metrics_socket_addr_def isr_iff)
  show "\<exists>rs. bypass_routes cfg = Inr rs"
    unfolding bypass_routes_def
    by (rule map_panic_total) (use ok in \<open>auto simp: config_ok_def list_all_iff isr_iff\<close>)
qed

lemma bypass_routes_bounds:
  assumes "bypass_routes cfg = Inr rs" and "(a, p) \<in> set rs"
  shows "p \<le> max_prefix a"
proof -
  have all: "list_all2 (\<lambda>c r. parse_cidr c = Inr r) (bypass_cidrs cfg) rs"
    using assms(1) by (simp add: bypass_routes_def map_panic_Inr_iff)
  obtain i where i: "i < length rs" "rs ! i = (a, p)"
    using assms(2) by (auto simp: in_set_conv_nth)
  then have "parse_cidr (bypass_cidrs cfg ! i) = Inr (a, p)"
    using list_all2_nthD2[OF all i(1)] by simp
  then show ?thesis by (rule parse_cidr_bound)
qed

text \<open>
  C27. Once a configuration has passed validation, no accessor panics: the proxy settings, the
  tunnel address, the DNS server, the bypass routes and the metrics address are all there, and
  every bypass route's prefix length fits its address family.
\<close>

theorem validated_config_never_panics:
  assumes "Config_validate cfg = Inr ()"
  shows "\<exists>px tun dns routes metrics.
    ProxyConfig_from_config cfg = Inr px \<and> proxy_socket_addr cfg = Inr (px_addr px) \<and>
    tun_ipv4 cfg = Inr tun \<and> dns_addr cfg = Inr dns \<and> bypass_routes cfg = Inr routes \<and>
    metrics_socket_addr cfg = Inr metrics \<and> list_all (\<lambda>(a, p). p \<le> max_prefix a) routes"
proof -
  obtain px tun dns routes metrics where
    acc: "ProxyConfig_from_config cfg = Inr px" "tun_ipv4 cfg = Inr tun" "dns_addr cfg = Inr dns"
    "bypass_routes cfg = Inr routes" "metrics_socket_addr cfg = Inr metrics"
    using validated_accessors[OF assms] by blast
  have "proxy_socket_addr cfg = Inr (px_addr px)"
    using acc(1) by (auto simp: ProxyConfig_from_config_def bind_panic_Inr_iff)
  moreover have "list_all (\<lambda>(a, p). p \<le> max_prefix a) routes"
    using bypass_routes_bounds[OF acc(4)] by (auto simp: list_all_iff)
  ultimately show ?thesis using acc by blast
qed

lemma default_proxy_parses: "parse_socket_addr ''127.0.0.1:1080'' = Inr (SockV4 0x7f000001 1080)"
proof -
  have "show_ipv4 0x7f000001 @ CHR '':'' # show_word (1080 :: u16) = ''127.0.0.1:1080''"
    by code_simp
  then show ?thesis by (metis parse_socket_addr_show_v4)
qed

lemma default_tun_parses: "parse_ipv4 ''10.0.0.1'' = Inr 0x0a000001"
proof -
  have "show_ipv4 0x0a000001 = ''10.0.0.1''" by code_simp
  then show ?thesis by (metis parse_ipv4_show)
qed

lemma default_dns_parses: "parse_ip ''1.1.1.1'' = Inr (V4 0x01010101)"
proof -
  have "show_ipv4 0x01010101 = ''1.1.1.1''" by code_simp
  then show ?thesis by (metis parse_ip_show_v4)
qed

lemmas default_parses = default_proxy_parses default_tun_parses default_dns_parses

text \<open>The configuration \<^verbatim>\<open>cortado init\<close> writes is valid.\<close>

lemma Config_default_valid: "Config_validate Config_default = Inr ()"
  by (simp add: Config_validate_ok_iff config_ok_def Config_default_def default_dns_server_def
      default_override_dns_def default_bypass_cidrs_def credentials_ok_def default_parses)

theorem validated_config_never_panics_witness:
  "Config_validate Config_default = Inr () \<and>
   (\<exists>px. ProxyConfig_from_config Config_default = Inr px \<and> px_addr px = SockV4 0x7f000001 1080)"
  using validated_config_never_panics[OF Config_default_valid] Config_default_valid
  by (auto simp: Config_default_def proxy_socket_addr_def default_parses)

section \<open>CIDR text round trip\<close>

lemma split_once_append:
  "c \<notin> set a \<Longrightarrow> split_once c (a @ c # b) = Some (a, b)"
  by (induction a) auto

lemma slash_not_in_ipv4: "CHR ''/'' \<notin> set (show_ipv4 a)"
proof -
  have "CHR ''/'' \<notin> set (show_nat n)" for n
    using show_radix_digits[of 10 "CHR ''/''" n] by (auto simp: show_nat_def to_digit_def)
  then show ?thesis by (auto simp: show_ipv4_def split: list.splits)
qed

text \<open>
  An IPv4 block printed as address, slash and decimal prefix length parses back to itself
  when the length is at most 32, and is rejected with the code's message otherwise.
\<close>

theorem parse_cidr_v4_roundtrip:
  "parse_cidr (show_ipv4 a @ ''/'' @ show_word (p :: u8)) =
     (if p \<le> 32 then Inr (V4 a, p)
      else Inl [''cidr '' @ (show_ipv4 a @ ''/'' @ show_word p) @ '' prefix length exceeds 32''])"
proof -
  have "show_nat 32 = ''32''" by code_simp
  then show ?thesis
    by (auto simp: parse_cidr_def split_once_append slash_not_in_ipv4)
qed

end
