(* ===== verification/Socks.thy ===== *)
theory Socks
  imports Config
begin

text \<open>
  \<^verbatim>\<open>src/socks.rs\<close>: the SOCKS5 client. A control connection is the bytes the peer will
  still send, what happens after them (the connection breaks, or nothing more arrives), the bytes
  written so far and how many more writes the peer takes. An operation ends with a value, an
  error, or never (\<open>Hang\<close>); \<^verbatim>\<open>timeout\<close> turns the last into an error. Frames of the
  UDP relay are byte lists, and indexing or slicing past the end is a panic.
\<close>

section \<open>Streams\<close>

datatype stream_end = Broken string | Stalled

record tcp_stream =
  ts_rx :: bytes
  ts_rx_end :: stream_end
  ts_tx :: bytes
  ts_writes :: nat
  ts_tx_end :: stream_end

datatype 'a outcome = Done 'a | Failed error | Hang

type_synonym 'a sio = "tcp_stream \<Rightarrow> 'a outcome \<times> tcp_stream"

definition sio_return :: "'a \<Rightarrow> 'a sio" where
  "sio_return x s = (Done x, s)"

definition sio_bail :: "error \<Rightarrow> 'a sio" where
  "sio_bail e s = (Failed e, s)"

definition sio_lift :: "'a result \<Rightarrow> 'a sio" where
  "sio_lift r s = (case r of Inl e \<Rightarrow> (Failed e, s) | Inr x \<Rightarrow> (Done x, s))"

definition sio_bind :: "'a sio \<Rightarrow> ('a \<Rightarrow> 'b sio) \<Rightarrow> 'b sio" where
  "sio_bind m f s = (case m s of
      (Done x, s') \<Rightarrow> f x s'
    | (Failed e, s') \<Rightarrow> (Failed e, s')
    | (Hang, s') \<Rightarrow> (Hang, s'))"

definition sio_context :: "string \<Rightarrow> 'a sio \<Rightarrow> 'a sio" where
  "sio_context c m s = (case m s of (Failed e, s') \<Rightarrow> (Failed (c # e), s') | r \<Rightarrow> r)"

text \<open>\<^verbatim>\<open>timeout(..).await.context(c)??\<close>\<close>

definition sio_timeout :: "string \<Rightarrow> 'a sio \<Rightarrow> 'a sio" where
  "sio_timeout c m s =
     (case m s of (Hang, s') \<Rightarrow> (Failed [c, ''deadline has elapsed''], s') | r \<Rightarrow> r)"

definition write_all :: "bytes \<Rightarrow> unit sio" where
  "write_all bs s =
     (case ts_writes s of
        Suc n \<Rightarrow> (Done (), s\<lparr>ts_tx := ts_tx s @ bs, ts_writes := n\<rparr>)
      | 0 \<Rightarrow> (case ts_tx_end s of Broken m \<Rightarrow> (Failed [m], s) | Stalled \<Rightarrow> (Hang, s)))"

definition read_exact :: "nat \<Rightarrow> bytes sio" where
  "read_exact n s =
     (if n \<le> length (ts_rx s)
      then (Done (take n (ts_rx s)), s\<lparr>ts_rx := drop n (ts_rx s)\<rparr>)
      else case ts_rx_end s of
        Broken m \<Rightarrow> (Failed [m], s\<lparr>ts_rx := []\<rparr>)
      | Stalled \<Rightarrow> (Hang, s\<lparr>ts_rx := []\<rparr>))"

lemmas sio_defs = sio_return_def sio_bail_def sio_lift_def sio_bind_def sio_context_def
  sio_timeout_def write_all_def read_exact_def

section \<open>The handshake\<close>

definition credentials_message :: "string \<Rightarrow> string \<Rightarrow> bytes" where
  "credentials_message user pass =
     [0x01] @ [of_nat (length user)] @ as_bytes user @ [of_nat (length pass)] @ as_bytes pass"

definition auth_offer :: "ProxyConfig \<Rightarrow> bytes" where
  "auth_offer proxy =
     (if px_username proxy \<noteq> None then [0x05, 0x02, 0x00, 0x02] else [0x05, 0x01, 0x00])"

definition negotiate_auth :: "ProxyConfig \<Rightarrow> unit sio" where
  "negotiate_auth proxy =
     (let offer = auth_offer proxy in
      sio_bind (sio_context ''failed to send SOCKS5 method selection'' (write_all offer)) (\<lambda>_.
      sio_bind (sio_context ''failed to read SOCKS5 method selection reply'' (read_exact 2)) (\<lambda>resp.
      if resp ! 0 \<noteq> 0x05
      then sio_bail [''invalid SOCKS5 version in method reply: '' @ show_word (resp ! 0)]
      else if resp ! 1 = 0x00 then sio_return ()
      else if resp ! 1 = 0x02 then
        sio_bind (sio_lift (context_opt ''proxy requires username/password authentication''
                    (px_username proxy))) (\<lambda>user.
        sio_bind (sio_lift (context_opt ''proxy requires username/password authentication''
                    (px_password proxy))) (\<lambda>pass.
        sio_bind (sio_context ''failed to send SOCKS5 credentials''
                    (write_all (credentials_message user pass))) (\<lambda>_.
        sio_bind (sio_context ''failed to read SOCKS5 auth reply'' (read_exact 2)) (\<lambda>auth_resp.
        if auth_resp ! 1 \<noteq> 0x00 then sio_bail [''SOCKS5 authentication rejected by proxy'']
        else sio_return ()))))
      else if resp ! 1 = 0xFF
      then sio_bail [''SOCKS5 proxy offered no acceptable authentication method'']
      else sio_bail [''SOCKS5 proxy selected unsupported auth method '' @ show_word (resp ! 1)])))"

definition read_bind_address :: "SocketAddr sio" where
  "read_bind_address =
     sio_bind (sio_context ''failed to read SOCKS5 reply header'' (read_exact 4)) (\<lambda>head.
     if head ! 0 \<noteq> 0x05
     then sio_bail [''invalid SOCKS5 version in reply: '' @ show_word (head ! 0)]
     else if head ! 1 \<noteq> 0x00
     then sio_bail [''SOCKS5 request failed with reply code '' @ show_word (head ! 1)]
     else
       sio_bind
         (if head ! 3 = 0x01 then
            sio_bind (sio_context ''failed to read SOCKS5 IPv4 bind address'' (read_exact 4))
              (\<lambda>octets. sio_return (V4 (from_be_bytes octets)))
          else if head ! 3 = 0x04 then
            sio_bind (sio_context ''failed to read SOCKS5 IPv6 bind address'' (read_exact 16))
              (\<lambda>octets. sio_return (V6 (from_be_bytes octets)))
          else if head ! 3 = 0x03 then
            sio_bind (sio_context ''failed to read SOCKS5 domain length'' (read_exact 1)) (\<lambda>len.
            sio_bind (sio_context ''failed to read SOCKS5 domain bind address''
                        (read_exact (unat (len ! 0)))) (\<lambda>_.
            sio_bail [''SOCKS5 proxy returned a domain bind address which is not supported for UDP'']))
          else sio_bail [''SOCKS5 reply used unsupported address type '' @ show_word (head ! 3)]) (\<lambda>ip.
       sio_bind (sio_context ''failed to read SOCKS5 bind port'' (read_exact 2)) (\<lambda>port.
       sio_return (socket_addr ip (from_be_bytes port)))))"

definition normalize_relay :: "SocketAddr \<Rightarrow> SocketAddr \<Rightarrow> SocketAddr" where
  "normalize_relay reply proxy =
     (if is_unspecified (sock_ip reply) then socket_addr (sock_ip proxy) (sock_port reply) else reply)"

text \<open>How the operating system answers \<^verbatim>\<open>TcpStream::connect\<close>.\<close>

datatype connect_result = Connected tcp_stream | Refused string | Unanswered

definition associate_request :: bytes where
  "associate_request = [0x05, 0x03, 0x00, 0x01, 0, 0, 0, 0, 0, 0]"

definition associate_dialogue :: "ProxyConfig \<Rightarrow> SocketAddr sio" where
  "associate_dialogue proxy =
     sio_bind (sio_timeout ''SOCKS5 UDP associate handshake timed out'' (negotiate_auth proxy)) (\<lambda>_.
     sio_bind (sio_context ''failed to send SOCKS5 UDP associate request''
                 (write_all associate_request)) (\<lambda>_.
     sio_timeout ''SOCKS5 UDP associate reply timed out'' read_bind_address))"

definition udp_associate ::
    "(SocketAddr \<Rightarrow> connect_result) \<Rightarrow> ProxyConfig \<Rightarrow> (tcp_stream \<times> SocketAddr) outcome" where
  "udp_associate connect proxy =
     (case connect (px_addr proxy) of
        Unanswered \<Rightarrow> Failed [''timed out connecting to SOCKS5 proxy for UDP associate'',
                            ''deadline has elapsed'']
      | Refused m \<Rightarrow> Failed [''failed to connect to SOCKS5 proxy for UDP associate'', m]
      | Connected control \<Rightarrow>
          (case associate_dialogue proxy control of
             (Done reply, control') \<Rightarrow> Done (control', normalize_relay reply (px_addr proxy))
           | (Failed e, _) \<Rightarrow> Failed e
           | (Hang, _) \<Rightarrow> Hang))"

section \<open>Connecting through the proxy\<close>

text \<open>
  \<^verbatim>\<open>tokio_socks\<close> and the socket options are not part of the program: the environment
  says how a SOCKS5 CONNECT ends and what setting an option does.
\<close>

datatype 's socks5_result = Established 's | Rejected error | NoAnswer

record 's socket_env =
  socks5_connect :: "SocketAddr \<Rightarrow> SocketAddr \<Rightarrow> (string \<times> string) option \<Rightarrow> 's socks5_result"
  set_nodelay :: "bool \<Rightarrow> 's \<Rightarrow> string option \<times> 's"
  set_recv_buffer_size :: "nat \<Rightarrow> 's \<Rightarrow> string option \<times> 's"
  set_send_buffer_size :: "nat \<Rightarrow> 's \<Rightarrow> string option \<times> 's"

definition SOCKET_BUF_BYTES :: nat where
  "SOCKET_BUF_BYTES = 512 * 1024"

definition tune_socket :: "'s socket_env \<Rightarrow> 's \<Rightarrow> 's" where
  "tune_socket env sock =
     snd (set_send_buffer_size env SOCKET_BUF_BYTES
       (snd (set_recv_buffer_size env SOCKET_BUF_BYTES sock)))"

definition tcp_connect :: "'s socket_env \<Rightarrow> ProxyConfig \<Rightarrow> SocketAddr \<Rightarrow> 's result" where
  "tcp_connect env proxy target =
     bind_res
       (case (px_username proxy, px_password proxy) of
          (Some user, Some pass) \<Rightarrow>
            (case socks5_connect env (px_addr proxy) target (Some (user, pass)) of
               NoAnswer \<Rightarrow> Inl [''SOCKS5 authenticated connect timed out'', ''deadline has elapsed'']
             | Rejected e \<Rightarrow> Inl (''SOCKS5 authenticated connect failed'' # e)
             | Established s \<Rightarrow> Inr s)
        | _ \<Rightarrow>
            (case socks5_connect env (px_addr proxy) target None of
               NoAnswer \<Rightarrow> Inl [''SOCKS5 connect timed out'', ''deadline has elapsed'']
             | Rejected e \<Rightarrow> Inl (''SOCKS5 connect failed'' # e)
             | Established s \<Rightarrow> Inr s)) (\<lambda>stream.
     bind_res
       (if px_tcp_nodelay proxy
        then (case set_nodelay env True stream of
                (Some m, _) \<Rightarrow> Inl [''failed to set TCP_NODELAY on outbound socket'', m]
              | (None, stream') \<Rightarrow> Inr stream')
        else Inr stream) (\<lambda>stream'.
     Inr (tune_socket env stream')))"

section \<open>Relay frames\<close>

definition encode_udp :: "SocketAddr \<Rightarrow> bytes \<Rightarrow> bytes \<Rightarrow> bytes" where
  "encode_udp target payload out =
     (let out = [];
          out = out @ [0x00];
          out = out @ [0x00];
          out = out @ [0x00];
          out = (case sock_ip target of
                   V4 v4 \<Rightarrow> (out @ [0x01]) @ be_bytes 4 v4
                 | V6 v6 \<Rightarrow> (out @ [0x04]) @ be_bytes 16 v6);
          out = out @ be_bytes 2 (sock_port target)
      in out @ payload)"

definition index :: "'a list \<Rightarrow> nat \<Rightarrow> 'a may_panic" where
  "index xs i = (if i < length xs then Inr (xs ! i) else Inl ''index out of bounds'')"

definition slice_from :: "'a list \<Rightarrow> nat \<Rightarrow> 'a list may_panic" where
  "slice_from xs i = (if i \<le> length xs then Inr (drop i xs) else Inl ''range start index out of range'')"

definition slice :: "'a list \<Rightarrow> nat \<Rightarrow> nat \<Rightarrow> 'a list may_panic" where
  "slice xs i j = (if i \<le> j \<and> j \<le> length xs then Inr (take (j - i) (drop i xs))
     else Inl ''range end index out of range'')"

definition decode_udp :: "bytes \<Rightarrow> (SocketAddr \<times> bytes) option may_panic" where
  "decode_udp buf =
     (if length buf < 4 then Inr None
      else bind_panic (index buf 2) (\<lambda>frag.
      if frag \<noteq> 0x00 then Inr None
      else bind_panic (index buf 3) (\<lambda>atyp.
      bind_panic
        (if atyp = 0x01 then
           (if length buf < 10 then Inr None
            else bind_panic (index buf 4) (\<lambda>b4. bind_panic (index buf 5) (\<lambda>b5.
                 bind_panic (index buf 6) (\<lambda>b6. bind_panic (index buf 7) (\<lambda>b7.
                 bind_panic (slice_from buf 8) (\<lambda>rest.
                 Inr (Some (V4 (from_be_bytes [b4, b5, b6, b7]), rest))))))))
         else if atyp = 0x04 then
           (if length buf < 22 then Inr None
            else bind_panic (slice buf 4 20) (\<lambda>octets.
                 bind_panic (slice_from buf 20) (\<lambda>rest.
                 Inr (Some (V6 (from_be_bytes octets), rest)))))
         else Inr None) (\<lambda>parsed.
      case parsed of
        None \<Rightarrow> Inr None
      | Some (ip, rest) \<Rightarrow>
          if length rest < 2 then Inr None
          else bind_panic (index rest 0) (\<lambda>r0. bind_panic (index rest 1) (\<lambda>r1.
               let port = from_be_bytes [r0, r1] in
               bind_panic (slice_from rest 2) (\<lambda>data.
               Inr (Some (socket_addr ip port, data)))))))))"

section \<open>Relay frames: encode and decode are inverse\<close>

lemma decode_udp_v4:
  assumes "length bs = 4" and "length ps = 2"
  shows "decode_udp (r0 # r1 # 0 # 1 # bs @ ps @ d) =
    Inr (Some (socket_addr (V4 (from_be_bytes bs)) (from_be_bytes ps), d))"
proof -
  obtain b0 b1 b2 b3 p0 p1 where "bs = [b0, b1, b2, b3]" "ps = [p0, p1]"
    using assms by (auto simp: length_Suc_conv eval_nat_numeral)
  then show ?thesis by (simp add: decode_udp_def index_def slice_from_def)
qed

lemma decode_udp_v6:
  assumes "length bs = 16" and "length ps = 2"
  shows "decode_udp (r0 # r1 # 0 # 4 # bs @ ps @ d) =
    Inr (Some (socket_addr (V6 (from_be_bytes bs)) (from_be_bytes ps), d))"
proof -
  obtain p0 p1 where ps: "ps = [p0, p1]"
    using assms by (auto simp: length_Suc_conv eval_nat_numeral)
  have "drop 20 (r0 # r1 # 0 # 4 # bs @ p0 # p1 # d) = p0 # p1 # d"
    using assms by (simp add: drop_Cons')
  then show ?thesis
    using assms by (simp add: decode_udp_def index_def slice_from_def slice_def ps)
qed

lemma decode_udp_cases:
  obtains (v4) r0 r1 bs ps d where "buf = r0 # r1 # 0 # 1 # bs @ ps @ d" "length bs = 4" "length ps = 2"
  | (v6) r0 r1 bs ps d where "buf = r0 # r1 # 0 # 4 # bs @ ps @ d" "length bs = 16" "length ps = 2"
  | (none) "decode_udp buf = Inr None"
proof (cases "length buf < 4")
  case True
  then show ?thesis by (intro none) (simp add: decode_udp_def)
next
  case False
  then obtain r0 r1 f t rest where buf: "buf = r0 # r1 # f # t # rest"
    by (auto simp: not_less numeral_eq_Suc Suc_le_length_iff)
  have split: "rest = take k rest @ take 2 (drop k rest) @ drop (k + 2) rest" for k
    by (metis append_take_drop_id drop_drop add.commute)
  consider "f = 0" "t = 1" "length buf \<ge> 10" | "f = 0" "t = 4" "length buf \<ge> 22"
    | "f \<noteq> 0 \<or> t \<noteq> 1 \<and> t \<noteq> 4 \<or> t = 1 \<and> length buf < 10 \<or> t = 4 \<and> length buf < 22"
    by linarith
  then show ?thesis
  proof cases
    case 1
    then show ?thesis using v4[of r0 r1 "take 4 rest" "take 2 (drop 4 rest)" "drop 6 rest"] split[of 4]
      by (simp add: buf)
  next
    case 2
    then show ?thesis using v6[of r0 r1 "take 16 rest" "take 2 (drop 16 rest)" "drop 18 rest"] split[of 16]
      by (simp add: buf)
  next
    case 3
    then show ?thesis by (intro none) (auto simp: decode_udp_def index_def buf)
  qed
qed

lemma be_bytes_from:
  "length bs = n \<Longrightarrow> 8 * n \<le> LENGTH('a::len) \<Longrightarrow> be_bytes n (from_be_bytes bs :: 'a word) = bs"
  using be_bytes_from_be_bytes by blast

lemma encode_udp_eq:
  "encode_udp t d out = (case sock_ip t of
      V4 a \<Rightarrow> 0 # 0 # 0 # 1 # be_bytes 4 a @ be_bytes 2 (sock_port t) @ d
    | V6 a \<Rightarrow> 0 # 0 # 0 # 4 # be_bytes 16 a @ be_bytes 2 (sock_port t) @ d)"
  by (simp add: encode_udp_def split: IpAddr.splits)

text \<open>
  C21. Decoding an encoded relay frame gives inv the target's address and port and the payload,
  whatever was in the output buffer before. (The flow and scope fields of an IPv6 socket address
  are not on the wire and come inv as zero.)
\<close>

theorem decode_encode_udp:
  "decode_udp (encode_udp target payload out) =
     Inr (Some (socket_addr (sock_ip target) (sock_port target), payload))"
  by (cases "sock_ip target")
    (simp_all add: encode_udp_eq decode_udp_v4 decode_udp_v6 from_be_bytes_be_bytes)

lemma decode_udp_total: "\<exists>r. decode_udp buf = Inr r"
  by (cases buf rule: decode_udp_cases) (simp_all add: decode_udp_v4 decode_udp_v6)

lemma decode_udp_sound:
  assumes "decode_udp buf = Inr (Some (addr, data))"
  shows "\<exists>ip port r0 r1. addr = socket_addr ip port \<and> buf = r0 # r1 # drop 2 (encode_udp addr data [])"
proof (cases buf rule: decode_udp_cases)
  case (v4 r0 r1 bs ps d)
  then have "addr = socket_addr (V4 (from_be_bytes bs)) (from_be_bytes ps)" "data = d"
    using assms by (simp_all add: decode_udp_v4)
  moreover have "buf = r0 # r1 # drop 2 (encode_udp addr data [])"
    using v4 calculation by (simp add: encode_udp_eq be_bytes_from)
  ultimately show ?thesis by blast
next
  case (v6 r0 r1 bs ps d)
  then have "addr = socket_addr (V6 (from_be_bytes bs)) (from_be_bytes ps)" "data = d"
    using assms by (simp_all add: decode_udp_v6)
  moreover have "buf = r0 # r1 # drop 2 (encode_udp addr data [])"
    using v6 calculation by (simp add: encode_udp_eq be_bytes_from)
  ultimately show ?thesis by blast
next
  case none
  then show ?thesis using assms by simp
qed

lemma decode_udp_complete:
  "decode_udp (r0 # r1 # drop 2 (encode_udp (socket_addr ip port) data [])) =
     Inr (Some (socket_addr ip port, data))"
  by (cases ip) (simp_all add: encode_udp_eq decode_udp_v4 decode_udp_v6 from_be_bytes_be_bytes)

text \<open>
  C22. The decoder never indexes past the datagram, and it accepts exactly the unfragmented frames
  with an IPv4 or IPv6 address: up to the two reserved bytes, the encodings of what it returns.
\<close>

theorem decode_udp_exact:
  "(\<exists>r. decode_udp buf = Inr r) \<and>
   (decode_udp buf = Inr (Some (addr, data)) \<longleftrightarrow>
      (\<exists>ip port r0 r1. addr = socket_addr ip port \<and> buf = r0 # r1 # drop 2 (encode_udp addr data [])))"
  using decode_udp_total decode_udp_sound decode_udp_complete by blast

section \<open>The handshake, as a transcript\<close>

lemma sio_Done_iff:
  "sio_return x s = (Done y, t) \<longleftrightarrow> y = x \<and> t = s"
  "sio_bail e s = (Done y, t) \<longleftrightarrow> False"
  "sio_lift r s = (Done y, t) \<longleftrightarrow> r = Inr y \<and> t = s"
  by (auto simp: sio_defs split: sum.splits)

lemma sio_bind_Done_iff:
  "sio_bind m f s = (Done y, t) \<longleftrightarrow> (\<exists>x s'. m s = (Done x, s') \<and> f x s' = (Done y, t))"
  by (cases "m s"; cases "fst (m s)") (auto simp: sio_defs)

lemma sio_wrap_Done_iff:
  "sio_context c m s = (Done y, t) \<longleftrightarrow> m s = (Done y, t)"
  "sio_timeout c m s = (Done y, t) \<longleftrightarrow> m s = (Done y, t)"
  by (cases "m s"; cases "fst (m s)"; auto simp: sio_defs)+

lemma write_all_Done_iff:
  "write_all bs s = (Done u, t) \<longleftrightarrow>
     (\<exists>n. ts_writes s = Suc n \<and> t = s\<lparr>ts_tx := ts_tx s @ bs, ts_writes := n\<rparr>)"
  by (auto simp: write_all_def split: nat.splits stream_end.splits)

lemma read_exact_Done_iff:
  "read_exact n s = (Done bs, t) \<longleftrightarrow>
     length bs = n \<and> (\<exists>rest. ts_rx s = bs @ rest \<and> t = s\<lparr>ts_rx := rest\<rparr>)"
  by (auto simp: read_exact_def min_def split: stream_end.splits)
    (metis append_take_drop_id)+

lemmas sio_done = sio_Done_iff sio_bind_Done_iff sio_wrap_Done_iff write_all_Done_iff
  read_exact_Done_iff

text \<open>
  What a proxy sends to grant the association: the method reply (with the reply to the credentials
  when it asks for them), then the bind reply. \<open>auth_granted\<close> also gives what the client wrote.
\<close>

inductive auth_granted :: "ProxyConfig \<Rightarrow> bytes \<Rightarrow> bytes list \<Rightarrow> bool" for px where
  no_auth: "auth_granted px [5, 0] [auth_offer px]"
| user_pass: "px_username px = Some u \<Longrightarrow> px_password px = Some p \<Longrightarrow>
    auth_granted px [5, 2, v, 0] [auth_offer px, credentials_message u p]"

inductive bind_granted :: "bytes \<Rightarrow> SocketAddr \<Rightarrow> bool" where
  bind_v4: "length a = 4 \<Longrightarrow> length p = 2 \<Longrightarrow>
    bind_granted ([5, 0, rsv, 1] @ a @ p) (socket_addr (V4 (from_be_bytes a)) (from_be_bytes p))"
| bind_v6: "length a = 16 \<Longrightarrow> length p = 2 \<Longrightarrow>
    bind_granted ([5, 0, rsv, 4] @ a @ p) (socket_addr (V6 (from_be_bytes a)) (from_be_bytes p))"

lemma length_2_conv: "length xs = 2 \<longleftrightarrow> (\<exists>a b. xs = [a, b])"
  and length_4_conv: "length xs = 4 \<longleftrightarrow> (\<exists>a b c d. xs = [a, b, c, d])"
  by (auto simp: length_Suc_conv eval_nat_numeral)

lemma negotiate_auth_Done_iff:
  "negotiate_auth px s = (Done (), t) \<longleftrightarrow>
     (\<exists>rx ws rest n. auth_granted px rx ws \<and> ts_rx s = rx @ rest \<and> ts_writes s = n + length ws \<and>
        t = s\<lparr>ts_rx := rest, ts_tx := ts_tx s @ concat ws, ts_writes := n\<rparr>)"
proof
  assume "negotiate_auth px s = (Done (), t)"
  then show "\<exists>rx ws rest n. auth_granted px rx ws \<and> ts_rx s = rx @ rest \<and> ts_writes s = n + length ws \<and>
        t = s\<lparr>ts_rx := rest, ts_tx := ts_tx s @ concat ws, ts_writes := n\<rparr>"
    unfolding negotiate_auth_def Let_def
    apply (auto simp: sio_done length_2_conv split: if_splits)
    subgoal for n rest
      by (intro exI[of _ "[5, 0]"] exI[of _ "[auth_offer px]"] exI[of _ rest] exI[of _ n])
        (simp add: no_auth)
    subgoal for u p n v rest
      by (intro exI[of _ "[5, 2, v, 0]"] exI[of _ "[auth_offer px, credentials_message u p]"]
          exI[of _ rest] exI[of _ n]) (simp add: user_pass)
    done
next
  assume "\<exists>rx ws rest n. auth_granted px rx ws \<and> ts_rx s = rx @ rest \<and> ts_writes s = n + length ws \<and>
        t = s\<lparr>ts_rx := rest, ts_tx := ts_tx s @ concat ws, ts_writes := n\<rparr>"
  then show "negotiate_auth px s = (Done (), t)"
    by (elim exE conjE auth_granted.cases) (simp_all add: negotiate_auth_def Let_def sio_defs)
qed

lemma read_bind_address_Done_iff:
  "read_bind_address s = (Done addr, t) \<longleftrightarrow>
     (\<exists>rx rest. bind_granted rx addr \<and> ts_rx s = rx @ rest \<and> t = s\<lparr>ts_rx := rest\<rparr>)"
proof
  assume "read_bind_address s = (Done addr, t)"
  then show "\<exists>rx rest. bind_granted rx addr \<and> ts_rx s = rx @ rest \<and> t = s\<lparr>ts_rx := rest\<rparr>"
    unfolding read_bind_address_def
    apply (auto simp: sio_done length_4_conv split: if_splits)
    subgoal for rsv p b0 b1 b2 b3 rest
      using bind_v4[of "[b0, b1, b2, b3]" p rsv]
      by (intro exI[of _ "[5, 0, rsv, 1, b0, b1, b2, b3] @ p"] exI[of _ rest]) simp
    subgoal for rsv a p rest
      using bind_v6[of a p rsv] by (intro exI[of _ "[5, 0, rsv, 4] @ a @ p"] exI[of _ rest]) simp
    done
next
  assume "\<exists>rx rest. bind_granted rx addr \<and> ts_rx s = rx @ rest \<and> t = s\<lparr>ts_rx := rest\<rparr>"
  then show "read_bind_address s = (Done addr, t)"
    by (elim exE conjE bind_granted.cases) (simp_all add: read_bind_address_def sio_defs)
qed

subsection \<open>UDP associate\<close>

lemma associate_dialogue_Done_iff:
  "associate_dialogue px s = (Done addr, t) \<longleftrightarrow>
     (\<exists>auth ws bind rest n. auth_granted px auth ws \<and> bind_granted bind addr \<and>
        ts_rx s = auth @ bind @ rest \<and> ts_writes s = n + length ws + 1 \<and>
        t = s\<lparr>ts_rx := rest, ts_tx := ts_tx s @ concat ws @ associate_request, ts_writes := n\<rparr>)"
    (is "?L \<longleftrightarrow> ?R")
proof
  assume ?L
  then obtain s1 s2 where
    steps: "negotiate_auth px s = (Done (), s1)" "write_all associate_request s1 = (Done (), s2)"
      "read_bind_address s2 = (Done addr, t)"
    by (auto simp: associate_dialogue_def sio_bind_Done_iff sio_wrap_Done_iff)
  obtain auth ws r1 n1 where auth: "auth_granted px auth ws" "ts_rx s = auth @ r1"
      "ts_writes s = n1 + length ws"
      "s1 = s\<lparr>ts_rx := r1, ts_tx := ts_tx s @ concat ws, ts_writes := n1\<rparr>"
    using steps(1) negotiate_auth_Done_iff by blast
  obtain n where n: "n1 = Suc n"
      "s2 = s\<lparr>ts_rx := r1, ts_tx := ts_tx s @ concat ws @ associate_request, ts_writes := n\<rparr>"
    using steps(2) auth(4) by (auto simp: write_all_Done_iff)
  obtain bind rest where "bind_granted bind addr" "r1 = bind @ rest" "t = s2\<lparr>ts_rx := rest\<rparr>"
    using steps(3) n(2) by (auto simp: read_bind_address_Done_iff)
  then show ?R using auth n by (intro exI[of _ auth] exI[of _ ws] exI[of _ bind] exI[of _ rest] exI[of _ n]) simp
next
  assume ?R
  then obtain auth ws bind rest n where r: "auth_granted px auth ws" "bind_granted bind addr"
    "ts_rx s = auth @ bind @ rest" "ts_writes s = n + length ws + 1"
    "t = s\<lparr>ts_rx := rest, ts_tx := ts_tx s @ concat ws @ associate_request, ts_writes := n\<rparr>" by blast
  let ?s1 = "s\<lparr>ts_rx := bind @ rest, ts_tx := ts_tx s @ concat ws, ts_writes := Suc n\<rparr>"
  have "negotiate_auth px s = (Done (), ?s1)"
    unfolding negotiate_auth_Done_iff
    using r by (intro exI[of _ auth] exI[of _ ws] exI[of _ "bind @ rest"] exI[of _ "Suc n"]) simp
  moreover have "read_bind_address (?s1\<lparr>ts_tx := ts_tx ?s1 @ associate_request, ts_writes := n\<rparr>) = (Done addr, t)"
    unfolding read_bind_address_Done_iff
    using r by (intro exI[of _ bind] exI[of _ rest]) simp
  ultimately show ?L
    by (auto simp: associate_dialogue_def sio_bind_Done_iff sio_wrap_Done_iff write_all_Done_iff)
qed

text \<open>
  C23. A UDP association is set up exactly when the connection to the proxy opens and the proxy
  sends a granting method reply (no authentication, or the credentials the client holds accepted)
  followed by a success reply with an IPv4 or IPv6 bind address, while the peer takes the client's
  writes. Then the client has written the method offer, the credentials if asked, and the
  associate request, has consumed exactly those replies, and uses the announced relay with the
  proxy's own address in place of an unspecified one.
\<close>

theorem udp_associate_succeeds_iff:
  "udp_associate connect px = Done (control, relay) \<longleftrightarrow>
     (\<exists>s auth ws bind addr rest n. connect (px_addr px) = Connected s \<and>
        auth_granted px auth ws \<and> bind_granted bind addr \<and>
        ts_rx s = auth @ bind @ rest \<and> ts_writes s = n + length ws + 1 \<and>
        control = s\<lparr>ts_rx := rest, ts_tx := ts_tx s @ concat ws @ associate_request, ts_writes := n\<rparr> \<and>
        relay = normalize_relay addr (px_addr px))"
proof (cases "connect (px_addr px)")
  case (Connected s)
  have "udp_associate connect px = Done (control, relay) \<longleftrightarrow>
      (\<exists>addr. associate_dialogue px s = (Done addr, control) \<and> relay = normalize_relay addr (px_addr px))"
    by (auto simp: udp_associate_def Connected split: outcome.splits prod.splits)
  then show ?thesis unfolding associate_dialogue_Done_iff Connected connect_result.inject by (simp only:) blast
qed (auto simp: udp_associate_def)

text \<open>The only write outside a timeout is the ten-byte associate request.\<close>

lemma sio_bind_Hang_iff:
  "fst (sio_bind m f s) = Hang \<longleftrightarrow>
     fst (m s) = Hang \<or> (\<exists>x s'. m s = (Done x, s') \<and> fst (f x s') = Hang)"
  by (cases "m s"; cases "fst (m s)") (auto simp: sio_defs)

lemma sio_timeout_not_Hang [simp]: "fst (sio_timeout c m s) \<noteq> Hang"
  by (cases "m s"; cases "fst (m s)") (auto simp: sio_defs)

lemma sio_context_Hang_iff [simp]: "fst (sio_context c m s) = Hang \<longleftrightarrow> fst (m s) = Hang"
  by (cases "m s"; cases "fst (m s)") (auto simp: sio_defs)

lemma write_all_Hang_iff:
  "fst (write_all bs s) = Hang \<longleftrightarrow> ts_writes s = 0 \<and> ts_tx_end s = Stalled"
  by (cases "ts_writes s"; cases "ts_tx_end s") (simp_all add: write_all_def)

text \<open>
  C24. Setting up an association waits forever only if, after a completed method negotiation, the
  peer stops taking the ten bytes of the request; every other wait is bounded by the connect
  timeout.
\<close>

theorem udp_associate_hangs_iff:
  "udp_associate connect px = Hang \<longleftrightarrow>
     (\<exists>s s'. connect (px_addr px) = Connected s \<and> negotiate_auth px s = (Done (), s') \<and>
        ts_writes s' = 0 \<and> ts_tx_end s' = Stalled)"
proof (cases "connect (px_addr px)")
  case (Connected s)
  have "udp_associate connect px = Hang \<longleftrightarrow> fst (associate_dialogue px s) = Hang"
    by (auto simp: udp_associate_def Connected split: outcome.splits prod.splits)
  also have "\<dots> \<longleftrightarrow> (\<exists>s'. negotiate_auth px s = (Done (), s') \<and>
      fst (write_all associate_request s') = Hang)"
    by (simp add: associate_dialogue_def sio_bind_Hang_iff sio_wrap_Done_iff)
  also have "\<dots> \<longleftrightarrow> (\<exists>s'. negotiate_auth px s = (Done (), s') \<and> ts_writes s' = 0 \<and> ts_tx_end s' = Stalled)"
    by (simp add: write_all_Hang_iff)
  finally show ?thesis using Connected by simp
qed (auto simp: udp_associate_def)

text \<open>
  The relay the client sends to is never the unspecified address, unless the proxy's own
  address is; its port is always the announced one.
\<close>

theorem normalize_relay_specified:
  "sock_port (normalize_relay reply proxy) = sock_port reply \<and>
   (is_unspecified (sock_ip (normalize_relay reply proxy)) \<longleftrightarrow>
      is_unspecified (sock_ip reply) \<and> is_unspecified (sock_ip proxy))"
  by (simp add: normalize_relay_def)

subsection \<open>Credentials on the wire\<close>

text \<open>How a server reads the username/password request (RFC 1929): version, length, name, length, password.\<close>

definition rfc1929_parse :: "bytes \<Rightarrow> (bytes \<times> bytes) option" where
  "rfc1929_parse msg =
     (case msg of
        ver # ulen # rest \<Rightarrow>
          if ver \<noteq> 1 \<or> length rest < unat ulen then None
          else (case drop (unat ulen) rest of
                  plen # rest' \<Rightarrow>
                    if length rest' \<noteq> unat plen then None else Some (take (unat ulen) rest, rest')
                | [] \<Rightarrow> None)
      | _ \<Rightarrow> None)"

lemma rfc1929_parse_message:
  assumes "length u < 256" and "length p < 256"
  shows "rfc1929_parse (credentials_message u p) = Some (as_bytes u, as_bytes p)"
proof -
  have "unat (of_nat (length u) :: u8) = length u" "unat (of_nat (length p) :: u8) = length p"
    using assms by (simp_all add: unat_of_nat)
  then show ?thesis by (simp add: rfc1929_parse_def credentials_message_def as_bytes_def)
qed

lemma validated_credentials:
  assumes "Config_validate cfg = Inr ()" and "ProxyConfig_from_config cfg = Inr px"
    and "px_username px = Some u"
  shows "\<exists>p. px_password px = Some p \<and> length u < 256 \<and> length p < 256"
proof -
  have "px_username px = username cfg" "px_password px = password cfg"
    using assms(2) by (auto simp: ProxyConfig_from_config_def bind_panic_Inr_iff)
  moreover have "credentials_ok (username cfg) (password cfg)"
    using assms(1) by (simp add: Config_validate_ok_iff config_ok_def)
  ultimately show ?thesis using assms(3) by (auto simp: credentials_ok_def split: option.splits)
qed

text \<open>
  C25. With a validated configuration, a proxy that asks for username and password receives a
  request from which a server reads exactly the configured name and password: the one-byte lengths
  do not wrap. The negotiation then succeeds exactly when the server's status byte is zero.
\<close>

theorem credentials_reach_proxy:
  assumes "Config_validate cfg = Inr ()" and "ProxyConfig_from_config cfg = Inr px"
    and "px_username px = Some u"
    and "ts_rx s = [5, 2, ver, status] @ rest" and "ts_writes s = Suc (Suc n)"
  shows "\<exists>p msg. password cfg = Some p \<and> rfc1929_parse msg = Some (as_bytes u, as_bytes p) \<and>
    ts_tx (snd (negotiate_auth px s)) = ts_tx s @ [5, 2, 0, 2] @ msg \<and>
    fst (negotiate_auth px s) =
      (if status = 0 then Done () else Failed [''SOCKS5 authentication rejected by proxy''])"
proof -
  obtain p where p: "px_password px = Some p" "length u < 256" "length p < 256"
    using validated_credentials assms by blast
  have "password cfg = Some p"
    using assms(2) p(1) by (auto simp: ProxyConfig_from_config_def bind_panic_Inr_iff)
  moreover have "negotiate_auth px s =
      (if status = 0 then Done () else Failed [''SOCKS5 authentication rejected by proxy''],
       s\<lparr>ts_rx := rest, ts_tx := ts_tx s @ [5, 2, 0, 2] @ credentials_message u p, ts_writes := n\<rparr>)"
    using assms(3-5) p(1) by (simp add: negotiate_auth_def auth_offer_def sio_defs)
  ultimately show ?thesis using rfc1929_parse_message[OF p(2,3)]
    by (intro exI[of _ p] exI[of _ "credentials_message u p"]) simp
qed

abbreviation cfg_auth :: Config where
  "cfg_auth \<equiv> Config_default\<lparr>username := Some ''bob'', password := Some ''key''\<rparr>"

abbreviation auth_server :: tcp_stream where
  "auth_server \<equiv> \<lparr>ts_rx = [5, 2, 1, 0], ts_rx_end = Stalled, ts_tx = [], ts_writes = 2, ts_tx_end = Stalled\<rparr>"

lemma cfg_auth_valid: "Config_validate cfg_auth = Inr ()"
  using Config_default_valid by (simp add: Config_validate_ok_iff config_ok_def credentials_ok_def)

lemma cfg_auth_proxy:
  "ProxyConfig_from_config cfg_auth = Inr \<lparr>px_addr = SockV4 0x7f000001 1080, px_username = Some ''bob'',
     px_password = Some ''key'', px_connect_timeout = DEFAULT_CONNECT_TIMEOUT, px_tcp_nodelay = True\<rparr>"
  by (simp add: ProxyConfig_from_config_def proxy_socket_addr_def Config_default_def default_parses)

theorem credentials_reach_proxy_witness:
  "\<exists>px msg. ProxyConfig_from_config cfg_auth = Inr px \<and>
     rfc1929_parse msg = Some (as_bytes ''bob'', as_bytes ''key'') \<and>
     negotiate_auth px auth_server = (Done (), snd (negotiate_auth px auth_server)) \<and>
     ts_tx (snd (negotiate_auth px auth_server)) = [5, 2, 0, 2] @ msg"
  using credentials_reach_proxy[OF cfg_auth_valid cfg_auth_proxy, of "''bob''" auth_server 1 0 "[]" 0]
  by (auto simp: cfg_auth_proxy prod_eq_iff)

end
