(* ===== verification/Stats.thy ===== *)
theory Stats
  imports Rust_Std
begin

text \<open>
  \<^verbatim>\<open>src/stats.rs\<close>: the process-wide counters. Each static \<^verbatim>\<open>AtomicU64\<close>
  is a constructor of \<open>Counter\<close>, the counters' values are a function of it, and
  \<^verbatim>\<open>fetch_add\<close> and \<^verbatim>\<open>fetch_sub\<close> wrap around at 64 bits.
\<close>

datatype Counter =
    TCP_OPENED | TCP_CLOSED | TCP_ERRORS | TCP_ACTIVE
  | UDP_PACKETS | UDP_ERRORS | UDP_ACTIVE
  | BYTES_TX | BYTES_RX | BYTES_V4 | BYTES_V6
  | DNS_REQUESTS | DNS_FAILURES | DNS_POOL_HITS | DNS_POOL_MISSES
  | ROUTE_DIRECT | ROUTE_PROXY
  | CONN_FAILURES | SOCKS_HANDSHAKE_FAILURES | CONFIG_RELOADS

type_synonym stats = "Counter \<Rightarrow> u64"

definition stats_init :: stats where
  "stats_init = (\<lambda>_. 0)"

definition stats_inc :: "Counter \<Rightarrow> stats \<Rightarrow> stats" where
  "stats_inc c st = st(c := st c + 1)"

definition stats_add :: "Counter \<Rightarrow> u64 \<Rightarrow> stats \<Rightarrow> stats" where
  "stats_add c v st = st(c := st c + v)"

definition stats_dec :: "Counter \<Rightarrow> stats \<Rightarrow> stats" where
  "stats_dec c st = st(c := st c - 1)"

definition stats_get :: "stats \<Rightarrow> Counter \<Rightarrow> u64" where
  "stats_get st c = st c"

definition record_traffic :: "IpAddr \<Rightarrow> u64 \<Rightarrow> stats \<Rightarrow> stats" where
  "record_traffic addr n st =
     (case addr of V4 _ \<Rightarrow> stats_add BYTES_V4 n st | V6 _ \<Rightarrow> stats_add BYTES_V6 n st)"

text \<open>A \<^verbatim>\<open>GaugeGuard\<close> counts its own life: one up when made, one down when dropped.\<close>

definition GaugeGuard_new :: "Counter \<Rightarrow> stats \<Rightarrow> stats" where
  "GaugeGuard_new gauge st = st(gauge := st gauge + 1)"

definition GaugeGuard_drop :: "Counter \<Rightarrow> stats \<Rightarrow> stats" where
  "GaugeGuard_drop gauge st = st(gauge := st gauge - 1)"

lemmas stats_defs = stats_inc_def stats_add_def stats_dec_def stats_get_def record_traffic_def
  GaugeGuard_new_def GaugeGuard_drop_def

section \<open>Gauges\<close>

datatype guard_event = Make Counter | Drop Counter

fun guard_step :: "guard_event \<Rightarrow> stats \<Rightarrow> stats" where
  "guard_step (Make g) st = GaugeGuard_new g st"
| "guard_step (Drop g) st = GaugeGuard_drop g st"

abbreviation guard_run :: "guard_event list \<Rightarrow> stats \<Rightarrow> stats" where
  "guard_run es st \<equiv> fold guard_step es st"

definition live_guards :: "Counter \<Rightarrow> guard_event list \<Rightarrow> int" where
  "live_guards g es = int (count_list es (Make g)) - int (count_list es (Drop g))"

lemma guard_run_value: "guard_run es st g = st g + of_int (live_guards g es)"
proof (induction es arbitrary: st)
  case Nil
  show ?case by (simp add: live_guards_def)
next
  case (Cons e es)
  have "guard_run (e # es) st g = guard_step e st g + of_int (live_guards g es)"
    using Cons.IH by simp
  then show ?case
    by (cases e) (simp_all add: live_guards_def stats_defs)
qed

text \<open>
  C31. Whatever the order in which tasks create and drop their guards, a gauge that started at
  zero shows the number of its guards alive at the end, as long as that number is between zero and
  the largest 64-bit value.
\<close>

theorem gauge_counts_live_guards:
  assumes "0 \<le> live_guards g es" and "live_guards g es < 2 ^ 64"
  shows "uint (guard_run es stats_init g) = live_guards g es"
  using assms by (simp add: guard_run_value stats_init_def uint_word_of_int_eq take_bit_int_eq_self)

theorem gauge_counts_live_guards_witness:
  "uint (guard_run [Make TCP_ACTIVE, Make UDP_ACTIVE, Make TCP_ACTIVE, Drop UDP_ACTIVE] stats_init
     TCP_ACTIVE) = 2"
  using gauge_counts_live_guards[of TCP_ACTIVE
      "[Make TCP_ACTIVE, Make UDP_ACTIVE, Make TCP_ACTIVE, Drop UDP_ACTIVE]"]
  by (simp add: live_guards_def)

end
