(* ===== verification/Dns_Pool.thy ===== *)
theory Dns_Pool
  imports Rust_Async Rust_Collections Socks Stats
begin

text \<open>
  \<^verbatim>\<open>src/dns.rs\<close>: the pool of TCP connections over which DNS queries are pipelined.
  An \<^verbatim>\<open>Arc<Conn>\<close> is a position in a heap of connections that all tasks share, a
  \<^verbatim>\<open>oneshot\<close> channel is a position in a table of channels. Each \<^verbatim>\<open>async fn\<close>
  is a task whose actions are the pieces of code between two suspension points; the locks on the
  table of connections and on opening are held across suspension points and are modelled as flags.
  The reader that \<^verbatim>\<open>open_conn\<close> spawns is a machine kept with its connection.
\<close>

section \<open>Data\<close>

definition MAX_INFLIGHT_PER_CONN :: nat where
  "MAX_INFLIGHT_PER_CONN = 256"

definition MAX_CONNS_PER_TARGET :: nat where
  "MAX_CONNS_PER_TARGET = 8"

definition MAX_DNS_MESSAGE :: nat where
  "MAX_DNS_MESSAGE = 65535"

datatype Outcome = OutcomeOk bytes | OutcomeRetry error | OutcomeFatal error

type_synonym conn_ref = nat
type_synonym chan_ref = nat

text \<open>
  A sender stored in the table of queries in flight: \<open>Orphan\<close> is the one
  \<^verbatim>\<open>allocate_id\<close> reserves an identifier with, whose receiver is already dropped.
\<close>

datatype sender = Orphan | Tx chan_ref

datatype oneshot = Waiting | Sent bytes | SenderDropped | ReceiverDropped

text \<open>A channel remembers the connection and the identifier it was registered for.\<close>

record channel =
  ch_conn :: conn_ref
  ch_id :: u16
  ch_state :: oneshot

text \<open>
  The write half keeps the buffers it has sent completely. A write goes through, fails (the peer
  may have got a part of the buffer), or stays pending, as the state of the socket says.
\<close>

datatype write_state = Writable | WriteBlocked | WriteBroken string

record OwnedWriteHalf =
  wr_sent :: "bytes list"
  wr_state :: write_state

record Conn =
  cn_writer :: OwnedWriteHalf
  cn_inflight :: "(u16, sender) hashmap"
  cn_next_id :: u64
  cn_alive :: bool
  cn_last_used :: nat

text \<open>
  What arrives on the read half: a byte, a silence as long as the idle timeout, or the end of the
  stream. The machine's state says where the reader task is; \<open>rd_received\<close> is the list of the
  messages it has read so far, and \<open>rd_server\<close> the DNS server at the other end.
\<close>

datatype rx_event = Byte u8 | Silence | Ended string

datatype reader_pc =
    AtLength | AtIdle | AtBody nat | AtDeliver bytes | AtMarkDead | AtClear | ReaderGone

record reader_conn = Conn +
  rd_pc :: reader_pc
  rd_incoming :: "rx_event list"
  rd_received :: "bytes list"
  rd_server :: SocketAddr

record DnsPool =
  dp_proxy :: ProxyConfig
  dp_query_timeout :: nat
  dp_idle_timeout :: nat
  dp_conns :: "(SocketAddr, conn_ref list) hashmap"
  dp_conns_locked :: bool
  dp_open_locked :: bool

text \<open>
  The world of the tasks. The outcome of the \<open>n\<close>th connection through the proxy is that of
  \<open>dw_net n\<close>: the network may answer each attempt differently.
\<close>

record dns_world =
  dw_pool :: DnsPool
  dw_heap :: "reader_conn list"
  dw_chans :: "channel list"
  dw_stats :: stats
  dw_now :: nat
  dw_dials :: nat
  dw_net :: "nat \<Rightarrow> unit socket_env"

type_synonym 'a dns_task = "(dns_world, 'a) task"

section \<open>Access to the shared state\<close>

definition upd_conn :: "conn_ref \<Rightarrow> (reader_conn \<Rightarrow> reader_conn) \<Rightarrow> dns_world \<Rightarrow> dns_world" where
  "upd_conn k f w = w\<lparr>dw_heap := (dw_heap w)[k := f (dw_heap w ! k)]\<rparr>"

definition upd_pool :: "(DnsPool \<Rightarrow> DnsPool) \<Rightarrow> dns_world \<Rightarrow> dns_world" where
  "upd_pool f w = w\<lparr>dw_pool := f (dw_pool w)\<rparr>"

definition count_stat :: "Counter \<Rightarrow> dns_world \<Rightarrow> dns_world" where
  "count_stat c w = w\<lparr>dw_stats := stats_inc c (dw_stats w)\<rparr>"

definition lock_conns :: "unit dns_task" where
  "lock_conns = await (\<lambda>w. if dp_conns_locked (dw_pool w) then None
     else Some ((), upd_pool (dp_conns_locked_update (\<lambda>_. True)) w))"

definition unlock_conns :: "unit dns_task" where
  "unlock_conns = update (upd_pool (dp_conns_locked_update (\<lambda>_. False)))"

definition lock_open :: "unit dns_task" where
  "lock_open = await (\<lambda>w. if dp_open_locked (dw_pool w) then None
     else Some ((), upd_pool (dp_open_locked_update (\<lambda>_. True)) w))"

definition unlock_open :: "unit dns_task" where
  "unlock_open = update (upd_pool (dp_open_locked_update (\<lambda>_. False)))"

text \<open>Dropping a sender whose channel nobody has answered wakes the receiver with an error.\<close>

definition drop_sender :: "sender \<Rightarrow> channel list \<Rightarrow> channel list" where
  "drop_sender s chans =
     (case s of
        Orphan \<Rightarrow> chans
      | Tx ch \<Rightarrow> if ch_state (chans ! ch) = Waiting
          then chans[ch := (chans ! ch)\<lparr>ch_state := SenderDropped\<rparr>] else chans)"

definition send_reply :: "sender \<Rightarrow> bytes \<Rightarrow> channel list \<Rightarrow> channel list" where
  "send_reply s body chans =
     (case s of
        Orphan \<Rightarrow> chans
      | Tx ch \<Rightarrow> if ch_state (chans ! ch) = Waiting
          then chans[ch := (chans ! ch)\<lparr>ch_state := Sent body\<rparr>] else chans)"

definition inflight_remove :: "conn_ref \<Rightarrow> u16 \<Rightarrow> dns_world \<Rightarrow> dns_world" where
  "inflight_remove k i w =
     (case hm_get (cn_inflight (dw_heap w ! k)) i of
        None \<Rightarrow> w
      | Some s \<Rightarrow> upd_conn k (cn_inflight_update (hm_remove i))
          (w\<lparr>dw_chans := drop_sender s (dw_chans w)\<rparr>))"

definition inflight_clear :: "conn_ref \<Rightarrow> dns_world \<Rightarrow> dns_world" where
  "inflight_clear k w =
     upd_conn k (cn_inflight_update (\<lambda>_. []))
       (w\<lparr>dw_chans := fold (drop_sender \<circ> snd) (cn_inflight (dw_heap w ! k)) (dw_chans w)\<rparr>)"

section \<open>Connections\<close>

fun allocate_loop :: "nat \<Rightarrow> 'a Conn_scheme \<Rightarrow> u16 option \<times> 'a Conn_scheme" where
  "allocate_loop 0 c = (None, c)"
| "allocate_loop (Suc n) c =
     (let candidate = ucast (cn_next_id c AND 0xFFFF);
          c' = c\<lparr>cn_next_id := cn_next_id c + 1\<rparr>
      in case hm_get (cn_inflight c) candidate of
           None \<Rightarrow> (Some candidate, c'\<lparr>cn_inflight := hm_insert candidate Orphan (cn_inflight c)\<rparr>)
         | Some _ \<Rightarrow> allocate_loop n c')"

definition allocate_id :: "'a Conn_scheme \<Rightarrow> u16 option \<times> 'a Conn_scheme" where
  "allocate_id c =
     (if hm_len (cn_inflight c) \<ge> MAX_INFLIGHT_PER_CONN then (None, c)
      else allocate_loop 65536 c)"

definition alloc :: "conn_ref \<Rightarrow> u16 option dns_task" where
  "alloc k = atomic (\<lambda>w. case allocate_id (dw_heap w ! k) of (r, c) \<Rightarrow> (r, upd_conn k (\<lambda>_. c) w))"

subsection \<open>The reader task\<close>

datatype read_result = ReadPending | ReadTimedOut | ReadFailed | ReadOk bytes

text \<open>\<open>read_exact\<close> under \<open>timeout\<close>: the bytes read before the timeout are lost with the future.\<close>

fun read_timed :: "nat \<Rightarrow> rx_event list \<Rightarrow> read_result \<times> rx_event list" where
  "read_timed 0 es = (ReadOk [], es)"
| "read_timed (Suc n) [] = (ReadPending, [])"
| "read_timed (Suc n) (Byte b # es) =
     (case read_timed n es of (ReadOk bs, rest) \<Rightarrow> (ReadOk (b # bs), rest) | r \<Rightarrow> r)"
| "read_timed (Suc n) (Silence # es) = (ReadTimedOut, es)"
| "read_timed (Suc n) (Ended m # es) = (ReadFailed, Ended m # es)"

fun read_untimed :: "nat \<Rightarrow> rx_event list \<Rightarrow> read_result \<times> rx_event list" where
  "read_untimed 0 es = (ReadOk [], es)"
| "read_untimed (Suc n) [] = (ReadPending, [])"
| "read_untimed (Suc n) (Byte b # es) =
     (case read_untimed n es of (ReadOk bs, rest) \<Rightarrow> (ReadOk (b # bs), rest) | r \<Rightarrow> r)"
| "read_untimed (Suc n) (Silence # es) = read_untimed (Suc n) es"
| "read_untimed (Suc n) (Ended m # es) = (ReadFailed, Ended m # es)"

definition goto :: "conn_ref \<Rightarrow> reader_pc \<Rightarrow> dns_world \<Rightarrow> dns_world" where
  "goto k pc = upd_conn k (rd_pc_update (\<lambda>_. pc))"

definition deliver :: "conn_ref \<Rightarrow> bytes \<Rightarrow> dns_world \<Rightarrow> dns_world" where
  "deliver k body w =
     (let i = from_be_bytes (take 2 body) in
      case hm_get (cn_inflight (dw_heap w ! k)) i of
        None \<Rightarrow> w
      | Some s \<Rightarrow> upd_conn k (cn_inflight_update (hm_remove i))
          (w\<lparr>dw_chans := send_reply s body (dw_chans w)\<rparr>))"

definition reader_step :: "conn_ref \<Rightarrow> dns_world \<Rightarrow> dns_world option" where
  "reader_step k w =
     (let c = dw_heap w ! k in
      case rd_pc c of
        AtLength \<Rightarrow>
          (case read_timed 2 (rd_incoming c) of
             (ReadPending, _) \<Rightarrow> None
           | (ReadTimedOut, rest) \<Rightarrow>
               Some (upd_conn k (\<lambda>c. c\<lparr>rd_incoming := rest, rd_pc := AtIdle\<rparr>) w)
           | (ReadFailed, rest) \<Rightarrow>
               Some (upd_conn k (\<lambda>c. c\<lparr>rd_incoming := rest, rd_pc := AtMarkDead\<rparr>) w)
           | (ReadOk bs, rest) \<Rightarrow>
               (let len = unat (from_be_bytes bs :: u16) in
                Some (upd_conn k (\<lambda>c. c\<lparr>rd_incoming := rest,
                  rd_pc := (if len < 2 then AtMarkDead else AtBody len)\<rparr>) w)))
      | AtIdle \<Rightarrow> Some (goto k (if cn_inflight c = [] then AtMarkDead else AtLength) w)
      | AtBody len \<Rightarrow>
          (case read_untimed len (rd_incoming c) of
             (ReadOk body, rest) \<Rightarrow>
               Some (upd_conn k (\<lambda>c. c\<lparr>rd_incoming := rest, rd_pc := AtDeliver body,
                 rd_received := rd_received c @ [body]\<rparr>) w)
           | (ReadFailed, rest) \<Rightarrow>
               Some (upd_conn k (\<lambda>c. c\<lparr>rd_incoming := rest, rd_pc := AtMarkDead\<rparr>) w)
           | _ \<Rightarrow> None)
      | AtDeliver body \<Rightarrow> Some (goto k AtLength (deliver k body w))
      | AtMarkDead \<Rightarrow> Some (goto k AtClear (upd_conn k (cn_alive_update (\<lambda>_. False)) w))
      | AtClear \<Rightarrow> Some (goto k ReaderGone (inflight_clear k w))
      | ReaderGone \<Rightarrow> None)"

section \<open>The pool\<close>

definition DnsPool_new :: "ProxyConfig \<Rightarrow> nat \<Rightarrow> nat \<Rightarrow> DnsPool" where
  "DnsPool_new proxy query_timeout idle_timeout =
     \<lparr>dp_proxy = proxy, dp_query_timeout = query_timeout, dp_idle_timeout = idle_timeout,
      dp_conns = [], dp_conns_locked = False, dp_open_locked = False\<rparr>"

definition mark_all_dead :: "conn_ref list \<Rightarrow> dns_world \<Rightarrow> dns_world" where
  "mark_all_dead = fold (\<lambda>k. upd_conn k (cn_alive_update (\<lambda>_. False)))"

definition set_proxy :: "ProxyConfig \<Rightarrow> unit dns_task" where
  "set_proxy proxy =
     task_bind (update (upd_pool (dp_proxy_update (\<lambda>_. proxy)))) (\<lambda>_.
     task_bind lock_conns (\<lambda>_.
     task_bind (update (\<lambda>w. upd_pool (dp_conns_update (\<lambda>_. []))
       (mark_all_dead (concat (map snd (dp_conns (dw_pool w)))) w))) (\<lambda>_.
     unlock_conns)))"

definition Conn_new :: "SocketAddr \<Rightarrow> nat \<Rightarrow> reader_conn" where
  "Conn_new server now =
     \<lparr>cn_writer = \<lparr>wr_sent = [], wr_state = Writable\<rparr>, cn_inflight = [], cn_next_id = 0,
      cn_alive = True, cn_last_used = now,
      rd_pc = AtLength, rd_incoming = [], rd_received = [], rd_server = server\<rparr>"

definition open_conn :: "SocketAddr \<Rightarrow> conn_ref result dns_task" where
  "open_conn server =
     task_bind (load (\<lambda>w. dp_proxy (dw_pool w))) (\<lambda>proxy.
     atomic (\<lambda>w.
       let w' = w\<lparr>dw_dials := Suc (dw_dials w)\<rparr> in
       case context_res ''failed to open pooled DNS connection''
              (tcp_connect (dw_net w (dw_dials w)) proxy server) of
         Inl e \<Rightarrow> (Inl e, w')
       | Inr _ \<Rightarrow> (Inr (length (dw_heap w)),
           w'\<lparr>dw_heap := dw_heap w @ [Conn_new server (dw_now w)]\<rparr>)))"

text \<open>\<open>map.entry(server).or_default()\<close> followed by \<open>retain\<close>: the bucket of the server, without dead connections.\<close>

definition bucket :: "SocketAddr \<Rightarrow> dns_world \<Rightarrow> conn_ref list" where
  "bucket server w = (case hm_get (dp_conns (dw_pool w)) server of None \<Rightarrow> [] | Some b \<Rightarrow> b)"

definition set_bucket :: "SocketAddr \<Rightarrow> conn_ref list \<Rightarrow> dns_world \<Rightarrow> dns_world" where
  "set_bucket server b = upd_pool (dp_conns_update (hm_insert server b))"

definition retain_alive :: "SocketAddr \<Rightarrow> dns_world \<Rightarrow> conn_ref list \<times> dns_world" where
  "retain_alive server w =
     (let b = filter (\<lambda>k. cn_alive (dw_heap w ! k)) (bucket server w) in (b, set_bucket server b w))"

definition push_conn :: "SocketAddr \<Rightarrow> conn_ref \<Rightarrow> dns_world \<Rightarrow> dns_world" where
  "push_conn server k w = set_bucket server (bucket server w @ [k]) w"

primrec reuse_scan :: "conn_ref list \<Rightarrow> (conn_ref \<times> u16 \<times> bool) option dns_task" where
  "reuse_scan [] = task_bind unlock_conns (\<lambda>_. Ret None)"
| "reuse_scan (k # ks) =
     task_bind (alloc k) (\<lambda>r.
       case r of
         Some i \<Rightarrow>
           task_bind (update (count_stat DNS_POOL_HITS)) (\<lambda>_.
           task_bind unlock_conns (\<lambda>_. Ret (Some (k, i, True))))
       | None \<Rightarrow> reuse_scan ks)"

definition try_reuse :: "SocketAddr \<Rightarrow> (conn_ref \<times> u16 \<times> bool) option dns_task" where
  "try_reuse server =
     task_bind lock_conns (\<lambda>_. task_bind (atomic (retain_alive server)) reuse_scan)"

text \<open>The part \<open>acquire\<close> and \<open>open_and_register\<close> share: open, reserve an identifier, enter into the pool.\<close>

definition open_register :: "SocketAddr \<Rightarrow> (conn_ref \<times> u16 \<times> bool) result dns_task" where
  "open_register server =
     task_try (open_conn server) (\<lambda>k.
     task_try (task_bind (alloc k) (\<lambda>r.
       Ret (context_opt ''freshly opened DNS connection rejected allocation'' r))) (\<lambda>i.
     task_bind lock_conns (\<lambda>_.
     task_bind (update (\<lambda>w. count_stat DNS_POOL_MISSES (push_conn server k w))) (\<lambda>_.
     task_bind unlock_conns (\<lambda>_. Ret (Inr (k, i, False)))))))"

definition acquire_locked :: "SocketAddr \<Rightarrow> (conn_ref \<times> u16 \<times> bool) result dns_task" where
  "acquire_locked server =
     task_bind (try_reuse server) (\<lambda>r.
       case r of
         Some v \<Rightarrow> Ret (Inr v)
       | None \<Rightarrow>
           task_bind lock_conns (\<lambda>_.
           task_bind (atomic (retain_alive server)) (\<lambda>b.
           task_bind unlock_conns (\<lambda>_.
             if length b \<ge> MAX_CONNS_PER_TARGET
             then Ret (Inl [''DNS connection pool exhausted for '' @ show_socket_addr server])
             else open_register server))))"

definition acquire :: "SocketAddr \<Rightarrow> (conn_ref \<times> u16 \<times> bool) result dns_task" where
  "acquire server =
     task_bind (try_reuse server) (\<lambda>r.
       case r of
         Some v \<Rightarrow> Ret (Inr v)
       | None \<Rightarrow>
           task_bind lock_open (\<lambda>_.
           task_bind (acquire_locked server) (\<lambda>v.
           task_bind unlock_open (\<lambda>_. Ret v))))"

definition open_and_register :: "SocketAddr \<Rightarrow> (conn_ref \<times> u16 \<times> bool) result dns_task" where
  "open_and_register server =
     task_bind lock_open (\<lambda>_.
     task_bind (open_register server) (\<lambda>v.
     task_bind unlock_open (\<lambda>_. Ret v)))"

subsection \<open>Queries\<close>

text \<open>\<open>xs[i] = v\<close> on a vector: a panic out of range.\<close>

definition set_index :: "'a list \<Rightarrow> nat \<Rightarrow> 'a \<Rightarrow> 'a list may_panic" where
  "set_index xs i v = (if i < length xs then Inr (xs[i := v]) else Inl ''index out of bounds'')"

definition frame_query :: "bytes \<Rightarrow> u16 \<Rightarrow> bytes may_panic" where
  "frame_query query i =
     (let framed = be_bytes 2 (of_nat (length query) :: u16) @ query; b = be_bytes 2 i in
      bind_panic (set_index framed 2 (b ! 0)) (\<lambda>framed. set_index framed 3 (b ! 1)))"

definition restore_id :: "u8 \<times> u8 \<Rightarrow> bytes \<Rightarrow> bytes may_panic" where
  "restore_id original_id resp =
     bind_panic (set_index resp 0 (fst original_id)) (\<lambda>resp. set_index resp 1 (snd original_id))"

text \<open>\<open>oneshot::channel()\<close> and the insertion of its sender, which drops the reservation.\<close>

definition register_query :: "conn_ref \<Rightarrow> u16 \<Rightarrow> dns_world \<Rightarrow> chan_ref \<times> dns_world" where
  "register_query k i w =
     (let ch = length (dw_chans w);
          old = (case hm_get (cn_inflight (dw_heap w ! k)) i of None \<Rightarrow> Orphan | Some s \<Rightarrow> s)
      in (ch, upd_conn k (cn_inflight_update (hm_insert i (Tx ch)))
            (w\<lparr>dw_chans := drop_sender old (dw_chans w) @
                 [\<lparr>ch_conn = k, ch_id = i, ch_state = Waiting\<rparr>]\<rparr>)))"

definition write_frame :: "conn_ref \<Rightarrow> bytes \<Rightarrow> unit result dns_task" where
  "write_frame k framed =
     await (\<lambda>w.
       case wr_state (cn_writer (dw_heap w ! k)) of
         WriteBlocked \<Rightarrow> None
       | WriteBroken m \<Rightarrow> Some (Inl [m], w)
       | Writable \<Rightarrow> Some (Inr (),
           upd_conn k (cn_writer_update (wr_sent_update (\<lambda>s. s @ [framed]))) w))"

text \<open>
  \<open>timeout(query_timeout, rx)\<close> started at \<open>start\<close>: an answer counts even when the time is up. The
  receiver is dropped with the timeout.
\<close>

datatype reply = Replied bytes | ReplyClosed | ReplyTimedOut

definition await_reply :: "nat \<Rightarrow> chan_ref \<Rightarrow> reply dns_task" where
  "await_reply start ch =
     await (\<lambda>w.
       case ch_state (dw_chans w ! ch) of
         Sent body \<Rightarrow> Some (Replied body, w)
       | Waiting \<Rightarrow>
           if dw_now w \<ge> start + dp_query_timeout (dw_pool w)
           then Some (ReplyTimedOut,
             w\<lparr>dw_chans := (dw_chans w)[ch := (dw_chans w ! ch)\<lparr>ch_state := ReceiverDropped\<rparr>]\<rparr>)
           else None
       | _ \<Rightarrow> Some (ReplyClosed, w))"

definition finish_query ::
  "u8 \<times> u8 \<Rightarrow> conn_ref \<Rightarrow> u16 \<Rightarrow> chan_ref \<Rightarrow> Outcome may_panic dns_task" where
  "finish_query original_id k i ch =
     task_bind (update (\<lambda>w. upd_conn k (cn_last_used_update (\<lambda>_. dw_now w)) w)) (\<lambda>_.
     task_bind (load dw_now) (\<lambda>start.
     task_bind (await_reply start ch) (\<lambda>a.
     case a of
       Replied body \<Rightarrow> Ret (bind_panic (restore_id original_id body) (Inr \<circ> OutcomeOk))
     | ReplyClosed \<Rightarrow>
         task_bind (update (inflight_remove k i)) (\<lambda>_.
         Ret (Inr (OutcomeRetry [''pooled DNS connection closed before reply''])))
     | ReplyTimedOut \<Rightarrow>
         task_bind (update (inflight_remove k i)) (\<lambda>_.
         Ret (Inr (OutcomeFatal [''pooled DNS query timed out'']))))))"

definition exchange ::
  "bytes \<Rightarrow> u8 \<times> u8 \<Rightarrow> conn_ref \<Rightarrow> u16 \<Rightarrow> Outcome may_panic dns_task" where
  "exchange query original_id k i =
     task_bind (atomic (register_query k i)) (\<lambda>ch.
     case frame_query query i of
       Inl p \<Rightarrow> Ret (Inl p)
     | Inr framed \<Rightarrow>
         task_bind (write_frame k framed) (\<lambda>r.
         case r of
           Inl e \<Rightarrow>
             task_bind (update (upd_conn k (cn_alive_update (\<lambda>_. False)))) (\<lambda>_.
             task_bind (update (inflight_remove k i)) (\<lambda>_.
             Ret (Inr (OutcomeRetry (''failed to write DNS query'' # e)))))
         | Inr _ \<Rightarrow> finish_query original_id k i ch))"

definition attempt ::
  "SocketAddr \<Rightarrow> bytes \<Rightarrow> u8 \<times> u8 \<Rightarrow> bool \<Rightarrow> Outcome may_panic dns_task" where
  "attempt server query original_id force_new =
     task_bind (if force_new then open_and_register server else acquire server) (\<lambda>acquired.
     case acquired of
       Inl e \<Rightarrow> Ret (Inr (OutcomeRetry e))
     | Inr (k, i, _) \<Rightarrow> exchange query original_id k i)"

primrec resolve_loop ::
  "nat list \<Rightarrow> SocketAddr \<Rightarrow> bytes \<Rightarrow> u8 \<times> u8 \<Rightarrow> error option \<Rightarrow> bytes result may_panic dns_task" where
  "resolve_loop [] server query original_id last_err =
     Ret (Inr (Inl (case last_err of Some e \<Rightarrow> e | None \<Rightarrow> [''DNS resolution failed''])))"
| "resolve_loop (n # ns) server query original_id last_err =
     task_bind (attempt server query original_id (n > 0)) (\<lambda>r.
     case r of
       Inl p \<Rightarrow> Ret (Inl p)
     | Inr (OutcomeOk resp) \<Rightarrow> Ret (Inr (Inr resp))
     | Inr (OutcomeRetry e) \<Rightarrow> resolve_loop ns server query original_id (Some e)
     | Inr (OutcomeFatal e) \<Rightarrow> Ret (Inr (Inl e)))"

definition resolve :: "SocketAddr \<Rightarrow> bytes \<Rightarrow> bytes result may_panic dns_task" where
  "resolve server query =
     (if length query < 12 then Ret (Inr (Inl [''DNS query too short'']))
      else if length query > MAX_DNS_MESSAGE then Ret (Inr (Inl [''DNS query too large'']))
      else resolve_loop [0, 1] server query (query ! 0, query ! 1) None)"

subsection \<open>Maintenance\<close>

primrec prune_bucket :: "nat \<Rightarrow> nat \<Rightarrow> conn_ref list \<Rightarrow> conn_ref list \<Rightarrow> conn_ref list dns_task" where
  "prune_bucket now idle [] keep = Ret keep"
| "prune_bucket now idle (k # ks) keep =
     task_bind (load (\<lambda>w. cn_alive (dw_heap w ! k))) (\<lambda>alive.
     if \<not> alive then prune_bucket now idle ks keep
     else
       task_bind (load (\<lambda>w. cn_last_used (dw_heap w ! k))) (\<lambda>last.
       task_bind (load (\<lambda>w. cn_inflight (dw_heap w ! k) = [])) (\<lambda>empty.
       if empty \<and> now - last > idle
       then task_bind (update (upd_conn k (cn_alive_update (\<lambda>_. False)))) (\<lambda>_.
              prune_bucket now idle ks keep)
       else prune_bucket now idle ks (keep @ [k]))))"

primrec prune_buckets :: "nat \<Rightarrow> nat \<Rightarrow> (SocketAddr, conn_ref list) hashmap \<Rightarrow> unit dns_task" where
  "prune_buckets now idle [] = Ret ()"
| "prune_buckets now idle (e # rest) =
     task_bind (prune_bucket now idle (snd e) []) (\<lambda>keep.
     task_bind (update (set_bucket (fst e) keep)) (\<lambda>_. prune_buckets now idle rest))"

definition prune :: "unit dns_task" where
  "prune =
     task_bind (load (\<lambda>w. (dw_now w, dp_idle_timeout (dw_pool w)))) (\<lambda>(now, idle).
     task_bind lock_conns (\<lambda>_.
     task_bind (load (\<lambda>w. dp_conns (dw_pool w))) (\<lambda>m.
     task_bind (prune_buckets now idle m) (\<lambda>_.
     task_bind (update (upd_pool (dp_conns_update (filter (\<lambda>(_, v). v \<noteq> []))))) (\<lambda>_.
     unlock_conns)))))"

definition conn_count :: "nat dns_task" where
  "conn_count =
     task_bind lock_conns (\<lambda>_.
     task_bind (load (\<lambda>w. sum_list (map (length \<circ> snd) (dp_conns (dw_pool w))))) (\<lambda>n.
     task_bind unlock_conns (\<lambda>_. Ret n)))"

end
