(* ===== verification/Dns_Invariant.thy ===== *)
theory Dns_Invariant
  imports Dns_Pool "HOL-Library.Multiset"
begin

text \<open>
  The invariant of the DNS pool. Identifiers: one is found whenever the connection has room, and it
  is not in flight. Senders in flight belong to the connection and the identifier they were
  registered for; the replies handed to queries are no more than those read. Every primitive
  operation and every step of the reader keeps this, and only extends what was sent and received.
\<close>

section \<open>Identifiers\<close>

lemma low_half: "(ucast (x AND 0xFFFF :: u64) :: u16) = ucast x"
proof -
  have "(0xFFFF :: u64) = mask 16" by (simp add: mask_eq_exp_minus_1)
  then show ?thesis by (simp add: bit_eq_iff bit_simps)
qed

lemma ucast_add_u16: "(ucast (x + y :: u64) :: u16) = ucast x + ucast y"
proof transfer
  fix x y :: int
  have "take_bit 16 (take_bit 64 x + take_bit 64 y) =
        take_bit 16 (take_bit 16 (take_bit 64 x) + take_bit 16 (take_bit 64 y))"
    by (simp only: take_bit_add)
  also have "\<dots> = take_bit 16 (x + y)" by (simp add: take_bit_add)
  finally show "take_bit LENGTH(16) (take_bit LENGTH(64) (x + y)) =
        take_bit LENGTH(16) (take_bit LENGTH(64) x + take_bit LENGTH(64) y)" by simp
qed

lemma allocate_loop_spec:
  "allocate_loop n c = (r, c') \<Longrightarrow>
   case r of
     None \<Rightarrow> (\<forall>j<n. hm_get (cn_inflight c) (ucast (cn_next_id c) + of_nat j) \<noteq> None)
   | Some i \<Rightarrow> hm_get (cn_inflight c) i = None \<and>
       (\<exists>x. c' = c\<lparr>cn_next_id := x, cn_inflight := hm_insert i Orphan (cn_inflight c)\<rparr>)"
proof (induction n arbitrary: c)
  case 0
  then show ?case by auto
next
  case (Suc n)
  let ?i = "ucast (cn_next_id c) :: u16"
  show ?case
  proof (cases "hm_get (cn_inflight c) ?i")
    case None
    then show ?thesis using Suc.prems by (auto simp: Let_def low_half)
  next
    case (Some s)
    then have "allocate_loop n (c\<lparr>cn_next_id := cn_next_id c + 1\<rparr>) = (r, c')"
      using Suc.prems by (simp add: Let_def low_half)
    note IH = Suc.IH[OF this]
    show ?thesis
    proof (cases r)
      case None
      then have "\<forall>j<n. hm_get (cn_inflight c) (?i + 1 + of_nat j) \<noteq> None"
        using IH by (simp add: ucast_add_u16)
      then show ?thesis using Some None
        by (auto simp: less_Suc_eq_0_disj add.assoc)
    next
      case (Some i)
      then show ?thesis using IH by auto
    qed
  qed
qed

lemma inflight_vacant:
  assumes "hm_wf m" and "hm_len m < 65536"
  shows "\<exists>i :: u16. hm_get m i = None"
proof -
  have "card (UNIV :: u16 set) = 65536" by (simp add: card_word)
  then show ?thesis using hm.vacant_key[OF assms(1), of UNIV] assms(2) by auto
qed

lemma allocate_id_fails_iff:
  assumes "hm_wf (cn_inflight c)"
  shows "fst (allocate_id c) = None \<longleftrightarrow> hm_len (cn_inflight c) \<ge> MAX_INFLIGHT_PER_CONN"
proof (cases "hm_len (cn_inflight c) \<ge> MAX_INFLIGHT_PER_CONN")
  case True
  then show ?thesis by (simp add: allocate_id_def)
next
  case False
  obtain r c' where loop: "allocate_loop 65536 c = (r, c')" by fastforce
  obtain i :: u16 where i: "hm_get (cn_inflight c) i = None"
    using inflight_vacant[OF assms] False by (auto simp: MAX_INFLIGHT_PER_CONN_def)
  let ?j = "unat (i - ucast (cn_next_id c))"
  have "?j < 65536" using unsigned_less[of "i - ucast (cn_next_id c)"] by simp
  moreover have "ucast (cn_next_id c) + of_nat ?j = i" by simp
  ultimately have "\<exists>j<65536. hm_get (cn_inflight c) (ucast (cn_next_id c) + of_nat j) = None"
    using i by (intro exI[of _ ?j]) simp
  then have "r \<noteq> None" using allocate_loop_spec[OF loop] by (cases r) auto
  then show ?thesis using False loop by (simp add: allocate_id_def)
qed

lemma allocate_id_someD:
  assumes "allocate_id c = (Some i, c')"
  shows "hm_get (cn_inflight c) i = None"
    and "hm_len (cn_inflight c) < MAX_INFLIGHT_PER_CONN"
    and "\<exists>x. c' = c\<lparr>cn_next_id := x, cn_inflight := hm_insert i Orphan (cn_inflight c)\<rparr>"
  using assms allocate_loop_spec[of 65536 c "Some i" c'] by (auto simp: allocate_id_def split: if_splits)

lemma allocate_id_noneD:
  assumes "allocate_id c = (None, c')"
  shows "hm_wf (cn_inflight c) \<Longrightarrow> c' = c"
  using assms allocate_id_fails_iff[of c] by (auto simp: allocate_id_def split: if_splits)

section \<open>The invariant\<close>

definition pc_ok :: "reader_conn \<Rightarrow> bool" where
  "pc_ok c \<longleftrightarrow>
     (case rd_pc c of
        AtBody n \<Rightarrow> 2 \<le> n
      | AtDeliver body \<Rightarrow> 2 \<le> length body
      | _ \<Rightarrow> True)"

definition sender_ok :: "channel list \<Rightarrow> conn_ref \<Rightarrow> u16 \<Rightarrow> sender \<Rightarrow> bool" where
  "sender_ok chans k i s \<longleftrightarrow>
     (case s of
        Orphan \<Rightarrow> True
      | Tx ch \<Rightarrow> ch < length chans \<and> ch_conn (chans ! ch) = k \<and> ch_id (chans ! ch) = i \<and>
          (ch_state (chans ! ch) = Waiting \<or> ch_state (chans ! ch) = ReceiverDropped))"

definition conn_ok :: "channel list \<Rightarrow> conn_ref \<Rightarrow> reader_conn \<Rightarrow> bool" where
  "conn_ok chans k c \<longleftrightarrow>
     hm_wf (cn_inflight c) \<and> pc_ok c \<and>
     (\<forall>i s. hm_get (cn_inflight c) i = Some s \<longrightarrow> sender_ok chans k i s)"

definition reply_ok :: "u16 \<Rightarrow> bytes \<Rightarrow> bool" where
  "reply_ok i body \<longleftrightarrow> 2 \<le> length body \<and> from_be_bytes (take 2 body) = i"

definition chan_ok :: "channel \<Rightarrow> bool" where
  "chan_ok chn \<longleftrightarrow> (case ch_state chn of Sent body \<Rightarrow> reply_ok (ch_id chn) body | _ \<Rightarrow> True)"

text \<open>
  The replies handed to the queries of connection \<open>k\<close>, and the one its reader is about to hand over:
  together never more than what was read.
\<close>

definition answered :: "conn_ref \<Rightarrow> channel \<Rightarrow> bytes multiset" where
  "answered k chn =
     (case ch_state chn of Sent body \<Rightarrow> if ch_conn chn = k then {#body#} else {#} | _ \<Rightarrow> {#})"

definition delivered :: "channel list \<Rightarrow> conn_ref \<Rightarrow> bytes multiset" where
  "delivered chans k = sum_list (map (answered k) chans)"

definition pending :: "reader_conn \<Rightarrow> bytes multiset" where
  "pending c = (case rd_pc c of AtDeliver body \<Rightarrow> {#body#} | _ \<Rightarrow> {#})"

definition once :: "channel list \<Rightarrow> conn_ref \<Rightarrow> reader_conn \<Rightarrow> bool" where
  "once chans k c \<longleftrightarrow> delivered chans k + pending c \<subseteq># mset (rd_received c)"

definition table_ok :: "reader_conn list \<Rightarrow> (SocketAddr, conn_ref list) hashmap \<Rightarrow> bool" where
  "table_ok heap conns \<longleftrightarrow>
     hm_wf conns \<and>
     (\<forall>server b k. hm_get conns server = Some b \<longrightarrow> k \<in> set b \<longrightarrow>
        k < length heap \<and> rd_server (heap ! k) = server)"

definition world_ok :: "dns_world \<Rightarrow> bool" where
  "world_ok w \<longleftrightarrow>
     (\<forall>k<length (dw_heap w).
        conn_ok (dw_chans w) k (dw_heap w ! k) \<and> once (dw_chans w) k (dw_heap w ! k)) \<and>
     (\<forall>ch<length (dw_chans w).
        chan_ok (dw_chans w ! ch) \<and> ch_conn (dw_chans w ! ch) < length (dw_heap w)) \<and>
     table_ok (dw_heap w) (dp_conns (dw_pool w))"

text \<open>What never changes or only grows.\<close>

definition conn_grows :: "reader_conn \<Rightarrow> reader_conn \<Rightarrow> bool" where
  "conn_grows c c' \<longleftrightarrow>
     rd_server c' = rd_server c \<and> set (wr_sent (cn_writer c)) \<subseteq> set (wr_sent (cn_writer c')) \<and>
     set (rd_received c) \<subseteq> set (rd_received c')"

definition chan_grows :: "channel \<Rightarrow> channel \<Rightarrow> bool" where
  "chan_grows chn chn' \<longleftrightarrow>
     ch_conn chn' = ch_conn chn \<and> ch_id chn' = ch_id chn \<and>
     (\<forall>body. ch_state chn = Sent body \<longrightarrow> ch_state chn' = Sent body)"

definition grows :: "dns_world \<Rightarrow> dns_world \<Rightarrow> bool" where
  "grows w w' \<longleftrightarrow>
     length (dw_heap w) \<le> length (dw_heap w') \<and>
     (\<forall>k<length (dw_heap w). conn_grows (dw_heap w ! k) (dw_heap w' ! k)) \<and>
     length (dw_chans w) \<le> length (dw_chans w') \<and>
     (\<forall>ch<length (dw_chans w). chan_grows (dw_chans w ! ch) (dw_chans w' ! ch))"

definition evolves :: "dns_world \<Rightarrow> dns_world \<Rightarrow> bool" where
  "evolves w w' \<longleftrightarrow> (world_ok w \<longrightarrow> world_ok w' \<and> grows w w')"

lemma conn_grows_refl [simp]: "conn_grows c c"
  and chan_grows_refl [simp]: "chan_grows chn chn"
  by (simp_all add: conn_grows_def chan_grows_def)

lemma grows_refl [simp]: "grows w w"
  by (simp add: grows_def)

lemma evolves_refl [simp]: "evolves w w"
  by (simp add: evolves_def)

lemma conn_grows_trans: "conn_grows a b \<Longrightarrow> conn_grows b c \<Longrightarrow> conn_grows a c"
  and chan_grows_trans: "chan_grows x y \<Longrightarrow> chan_grows y z \<Longrightarrow> chan_grows x z"
  by (auto simp: conn_grows_def chan_grows_def)

lemma grows_trans: "grows u v \<Longrightarrow> grows v w \<Longrightarrow> grows u w"
  unfolding grows_def by (meson conn_grows_trans chan_grows_trans order_trans order_less_le_trans)

lemma evolves_trans: "evolves u v \<Longrightarrow> evolves v w \<Longrightarrow> evolves u w"
  unfolding evolves_def using grows_trans by blast

lemma evolves_same:
  "dw_heap w' = dw_heap w \<Longrightarrow> dw_chans w' = dw_chans w \<Longrightarrow>
   dp_conns (dw_pool w') = dp_conns (dw_pool w) \<Longrightarrow> evolves w w'"
  by (simp add: evolves_def world_ok_def grows_def)

lemma world_okD:
  assumes "world_ok w"
  shows "k < length (dw_heap w) \<Longrightarrow> conn_ok (dw_chans w) k (dw_heap w ! k)"
    and "k < length (dw_heap w) \<Longrightarrow> once (dw_chans w) k (dw_heap w ! k)"
    and "ch < length (dw_chans w) \<Longrightarrow> chan_ok (dw_chans w ! ch)"
    and "ch < length (dw_chans w) \<Longrightarrow> ch_conn (dw_chans w ! ch) < length (dw_heap w)"
    and "table_ok (dw_heap w) (dp_conns (dw_pool w))"
  using assms by (auto simp: world_ok_def)

section \<open>Transitions of one connection\<close>

text \<open>A change of the channels that belongs to connection \<open>k\<close>.\<close>

definition chans_step :: "conn_ref \<Rightarrow> channel list \<Rightarrow> channel list \<Rightarrow> bool" where
  "chans_step k chans chans' \<longleftrightarrow>
     length chans \<le> length chans' \<and>
     (\<forall>ch<length chans. chan_grows (chans ! ch) (chans' ! ch) \<and>
        (ch_conn (chans ! ch) \<noteq> k \<longrightarrow> chans' ! ch = chans ! ch)) \<and>
     (\<forall>ch. length chans \<le> ch \<longrightarrow> ch < length chans' \<longrightarrow> ch_conn (chans' ! ch) = k)"

lemma chans_step_refl [simp]: "chans_step k chans chans"
  by (simp add: chans_step_def)

lemma answered_other: "ch_conn chn \<noteq> j \<Longrightarrow> answered j chn = {#}"
  by (simp add: answered_def split: oneshot.split)

lemma sum_list_empty: "(\<And>x. x \<in> set xs \<Longrightarrow> f x = {#}) \<Longrightarrow> sum_list (map f xs) = {#}"
  by (induction xs) simp_all

lemma delivered_other:
  assumes "chans_step k chans chans'" and "j \<noteq> k"
  shows "delivered chans' j = delivered chans j"
proof -
  let ?n = "length chans"
  have len: "?n \<le> length chans'" using assms(1) by (simp add: chans_step_def)
  have "map (answered j) (take ?n chans') = map (answered j) chans"
  proof (rule nth_equalityI)
    show "length (map (answered j) (take ?n chans')) = length (map (answered j) chans)"
      using len by simp
    fix ch assume "ch < length (map (answered j) (take ?n chans'))"
    then have ch: "ch < ?n" using len by simp
    show "map (answered j) (take ?n chans') ! ch = map (answered j) chans ! ch"
    proof (cases "ch_conn (chans ! ch) = k")
      case True
      moreover have "ch_conn (chans' ! ch) = k"
        using assms(1) ch True by (simp add: chans_step_def chan_grows_def)
      ultimately show ?thesis using ch len assms(2) by (simp add: answered_other)
    next
      case False
      then show ?thesis using assms(1) ch len by (simp add: chans_step_def)
    qed
  qed
  moreover have "answered j chn = {#}" if mem: "chn \<in> set (drop ?n chans')" for chn
  proof -
    obtain m where "m < length (drop ?n chans')" "chn = drop ?n chans' ! m"
      using mem by (auto simp: in_set_conv_nth)
    then have "ch_conn chn = k" using assms(1) len by (simp add: chans_step_def)
    then show ?thesis using assms(2) by (simp add: answered_other)
  qed
  then have "sum_list (map (answered j) (drop ?n chans')) = {#}" by (intro sum_list_empty) simp
  moreover have "delivered chans' j =
      sum_list (map (answered j) (take ?n chans')) + sum_list (map (answered j) (drop ?n chans'))"
    unfolding delivered_def sum_list_append[symmetric] map_append[symmetric] append_take_drop_id ..
  ultimately show ?thesis by (simp add: delivered_def)
qed

lemma sender_ok_other:
  assumes "chans_step k chans chans'" and "j \<noteq> k" and "sender_ok chans j i s"
  shows "sender_ok chans' j i s"
  using assms by (auto simp: sender_ok_def chans_step_def split: sender.splits)

lemma conn_transition:
  assumes ok: "world_ok w" and k: "k < length (dw_heap w)"
    and step: "chans_step k (dw_chans w) chans'"
    and conn: "conn_ok chans' k c'" and once: "once chans' k c'"
    and grows: "conn_grows (dw_heap w ! k) c'"
    and chan: "\<And>ch. ch < length chans' \<Longrightarrow> ch_conn (chans' ! ch) = k \<Longrightarrow> chan_ok (chans' ! ch)"
  shows "world_ok (w\<lparr>dw_heap := (dw_heap w)[k := c'], dw_chans := chans'\<rparr>) \<and>
         grows w (w\<lparr>dw_heap := (dw_heap w)[k := c'], dw_chans := chans'\<rparr>)"
proof -
  let ?h = "(dw_heap w)[k := c']"
  have others: "conn_ok chans' j (?h ! j) \<and> once chans' j (?h ! j)" if "j < length ?h" for j
  proof (cases "j = k")
    case True
    then show ?thesis using conn once k by simp
  next
    case False
    then have "once chans' j (?h ! j)"
      using world_okD(2)[OF ok, of j] that delivered_other[OF step False] by (simp add: once_def)
    moreover have "conn_ok chans' j (?h ! j)"
      using world_okD(1)[OF ok, of j] that False sender_ok_other[OF step False]
      by (simp add: conn_ok_def)
    ultimately show ?thesis by simp
  qed
  have chans: "chan_ok (chans' ! ch) \<and> ch_conn (chans' ! ch) < length ?h" if "ch < length chans'" for ch
  proof (cases "ch_conn (chans' ! ch) = k")
    case True
    then show ?thesis using chan that k by simp
  next
    case False
    then have "ch < length (dw_chans w)"
      using step that unfolding chans_step_def by (meson not_le)
    moreover from this have "chans' ! ch = dw_chans w ! ch"
      using step False unfolding chans_step_def chan_grows_def by metis
    ultimately show ?thesis using world_okD(3,4)[OF ok] by simp
  qed
  have table: "table_ok ?h (dp_conns (dw_pool w))"
    unfolding table_ok_def
  proof (intro conjI allI impI)
    show "hm_wf (dp_conns (dw_pool w))" using world_okD(5)[OF ok] by (simp add: table_ok_def)
    fix server b j assume "hm_get (dp_conns (dw_pool w)) server = Some b" and "j \<in> set b"
    then have "j < length (dw_heap w)" "rd_server (dw_heap w ! j) = server"
      using world_okD(5)[OF ok] unfolding table_ok_def by blast+
    then show "j < length ?h" "rd_server (?h ! j) = server"
      using grows k by (auto simp: nth_list_update conn_grows_def)
  qed
  have "grows w (w\<lparr>dw_heap := ?h, dw_chans := chans'\<rparr>)"
    using step grows k by (simp add: grows_def chans_step_def nth_list_update)
  then show ?thesis using others chans table by (simp add: world_ok_def)
qed

lemma evolvesI:
  assumes "world_ok w \<Longrightarrow> world_ok w' \<and> grows w w'"
  shows "evolves w w'"
  using assms by (simp add: evolves_def)

lemma upd_conn_none: "length (dw_heap w) \<le> k \<Longrightarrow> upd_conn k f w = w"
  by (cases w) (simp add: upd_conn_def list_update_beyond)

lemma upd_conn_inert:
  assumes "cn_inflight (f (dw_heap w ! k)) = cn_inflight (dw_heap w ! k)"
    and "rd_received (f (dw_heap w ! k)) = rd_received (dw_heap w ! k)"
    and "rd_server (f (dw_heap w ! k)) = rd_server (dw_heap w ! k)"
    and "set (wr_sent (cn_writer (dw_heap w ! k))) \<subseteq> set (wr_sent (cn_writer (f (dw_heap w ! k))))"
    and "pc_ok (dw_heap w ! k) \<Longrightarrow> pc_ok (f (dw_heap w ! k))"
    and "pending (f (dw_heap w ! k)) \<subseteq># pending (dw_heap w ! k)"
  shows "evolves w (upd_conn k f w)"
proof (cases "k < length (dw_heap w)")
  case True
  show ?thesis
  proof (rule evolvesI)
    let ?c = "dw_heap w ! k"
    assume ok: "world_ok w"
    have "upd_conn k f w = w\<lparr>dw_heap := (dw_heap w)[k := f ?c], dw_chans := dw_chans w\<rparr>"
      by (simp add: upd_conn_def)
    moreover have "conn_ok (dw_chans w) k (f ?c)"
      using world_okD(1)[OF ok True] assms(1,5) by (simp add: conn_ok_def)
    moreover have "once (dw_chans w) k (f ?c)"
      using world_okD(2)[OF ok True] assms(2,6) unfolding once_def
      by (metis subset_mset.add_left_mono subset_mset.order_trans)
    moreover have "conn_grows ?c (f ?c)" using assms(2-4) by (simp add: conn_grows_def)
    ultimately show "world_ok (upd_conn k f w) \<and> grows w (upd_conn k f w)"
      using conn_transition[OF ok True chans_step_refl] world_okD(3)[OF ok] by simp
  qed
next
  case False
  then show ?thesis by (simp add: upd_conn_none)
qed

lemma alive_evolves [simp]: "evolves w (upd_conn k (cn_alive_update f) w)"
  and last_used_evolves [simp]: "evolves w (upd_conn k (cn_last_used_update g) w)"
  by (rule upd_conn_inert; simp add: pc_ok_def pending_def)+

lemma frame_evolves [simp]:
  "evolves w (upd_conn k (cn_writer_update (wr_sent_update (\<lambda>s. s @ [framed]))) w)"
  by (rule upd_conn_inert) (auto simp: pc_ok_def pending_def)

lemma goto_evolves: "(\<And>n. pc \<noteq> AtBody n) \<Longrightarrow> (\<And>b. pc \<noteq> AtDeliver b) \<Longrightarrow> evolves w (goto k pc w)"
  unfolding goto_def
  by (rule upd_conn_inert) (auto simp: pc_ok_def pending_def split: reader_pc.splits)

lemma pool_evolves [simp]:
  "evolves w (upd_pool (dp_conns_locked_update f) w)"
  "evolves w (upd_pool (dp_open_locked_update f) w)"
  "evolves w (upd_pool (dp_proxy_update g) w)"
  "evolves w (count_stat c w)"
  by (auto intro!: evolves_same simp: upd_pool_def count_stat_def)

subsection \<open>Identifiers and senders\<close>

lemma alloc_evolves:
  assumes "allocate_id (dw_heap w ! k) = (r, c)"
  shows "evolves w (upd_conn k (\<lambda>_. c) w)"
proof (cases "k < length (dw_heap w)")
  case True
  show ?thesis
  proof (rule evolvesI)
    let ?c = "dw_heap w ! k"
    assume ok: "world_ok w"
    have wf: "hm_wf (cn_inflight ?c)" using world_okD(1)[OF ok True] by (simp add: conn_ok_def)
    have conn: "conn_ok (dw_chans w) k c \<and> once (dw_chans w) k c \<and> conn_grows ?c c"
    proof (cases r)
      case None
      then show ?thesis using allocate_id_noneD[of ?c c] assms wf world_okD(1,2)[OF ok True] by simp
    next
      case (Some i)
      then obtain x where "c = ?c\<lparr>cn_next_id := x, cn_inflight := hm_insert i Orphan (cn_inflight ?c)\<rparr>"
        using allocate_id_someD(3)[of ?c i c] assms by auto
      then show ?thesis using wf world_okD(1,2)[OF ok True]
        by (auto simp: conn_ok_def once_def conn_grows_def pc_ok_def pending_def hm_simps sender_ok_def)
    qed
    have "upd_conn k (\<lambda>_. c) w = w\<lparr>dw_heap := (dw_heap w)[k := c], dw_chans := dw_chans w\<rparr>"
      by (simp add: upd_conn_def)
    then show "world_ok (upd_conn k (\<lambda>_. c) w) \<and> grows w (upd_conn k (\<lambda>_. c) w)"
      using conn_transition[OF ok True chans_step_refl] conn world_okD(3)[OF ok] by simp
  qed
next
  case False
  then show ?thesis by (simp add: upd_conn_none)
qed

lemma delivered_update:
  assumes "ch < length chans" and "answered k chn = answered k (chans ! ch)"
  shows "delivered (chans[ch := chn]) k = delivered chans k"
  using assms unfolding delivered_def
  by (metis list_update_id map_update)

lemma drop_sender_step:
  assumes "sender_ok chans k i s"
  shows "chans_step k chans (drop_sender s chans)"
  using assms by (auto simp: drop_sender_def sender_ok_def chans_step_def chan_grows_def nth_list_update
      split: sender.splits)

lemma drop_sender_delivered:
  assumes "sender_ok chans k i s"
  shows "delivered (drop_sender s chans) j = delivered chans j"
  using assms by (auto simp: drop_sender_def sender_ok_def answered_def intro!: delivered_update
      split: sender.splits)

lemma drop_sender_chan_ok:
  assumes "ch < length chans" and "chan_ok (chans ! ch)"
  shows "chan_ok (drop_sender s chans ! ch)"
proof (cases s)
  case Orphan
  then show ?thesis using assms by (simp add: drop_sender_def)
next
  case (Tx x)
  then show ?thesis using assms by (cases "x = ch") (auto simp: drop_sender_def chan_ok_def split: oneshot.splits)
qed

lemma length_drop_sender [simp]: "length (drop_sender s chans) = length chans"
  by (simp add: drop_sender_def split: sender.split)

text \<open>Dropping one sender leaves the senders under other identifiers as they are.\<close>

lemma drop_sender_other:
  assumes "sender_ok chans k i s" and "sender_ok chans k j t" and "i \<noteq> j"
  shows "sender_ok (drop_sender s chans) k j t"
  using assms by (auto simp: drop_sender_def sender_ok_def nth_list_update split: sender.splits)

lemma chans_step_trans:
  "chans_step k a b \<Longrightarrow> length b = length a \<Longrightarrow> chans_step k b c \<Longrightarrow> chans_step k a c"
  unfolding chans_step_def by (auto intro: chan_grows_trans simp: chan_grows_def)

lemma conn_chans_transition:
  assumes ok: "world_ok w" and k: "k < length (dw_heap w)"
    and step: "chans_step k (dw_chans w) chans'"
    and conn: "conn_ok chans' k (f (dw_heap w ! k))" and once: "once chans' k (f (dw_heap w ! k))"
    and grows: "conn_grows (dw_heap w ! k) (f (dw_heap w ! k))"
    and chan: "\<And>ch. ch < length chans' \<Longrightarrow> ch_conn (chans' ! ch) = k \<Longrightarrow> chan_ok (chans' ! ch)"
  shows "world_ok (upd_conn k f (w\<lparr>dw_chans := chans'\<rparr>)) \<and> grows w (upd_conn k f (w\<lparr>dw_chans := chans'\<rparr>))"
proof -
  have "upd_conn k f (w\<lparr>dw_chans := chans'\<rparr>) =
        w\<lparr>dw_heap := (dw_heap w)[k := f (dw_heap w ! k)], dw_chans := chans'\<rparr>"
    by (simp add: upd_conn_def)
  then show ?thesis using conn_transition[OF assms] by simp
qed

lemma inflight_sender_ok:
  assumes "world_ok w" and "k < length (dw_heap w)" and "hm_get (cn_inflight (dw_heap w ! k)) i = Some s"
  shows "sender_ok (dw_chans w) k i s"
  using world_okD(1)[OF assms(1,2)] assms(3) by (simp add: conn_ok_def)

lemma inflight_remove_evolves [simp]:
  "k < length (dw_heap w) \<Longrightarrow> evolves w (inflight_remove k i w)"
proof (rule evolvesI)
  let ?c = "dw_heap w ! k"
  assume k: "k < length (dw_heap w)" and ok: "world_ok w"
  show "world_ok (inflight_remove k i w) \<and> grows w (inflight_remove k i w)"
  proof (cases "hm_get (cn_inflight ?c) i")
    case None
    then show ?thesis using ok by (simp add: inflight_remove_def)
  next
    case (Some s)
    note s = inflight_sender_ok[OF ok k Some]
    have "conn_ok (drop_sender s (dw_chans w)) k (cn_inflight_update (hm_remove i) ?c)"
      using world_okD(1)[OF ok k] drop_sender_other[OF s]
      by (auto simp: conn_ok_def hm_simps pc_ok_def split: if_splits)
    moreover have "once (drop_sender s (dw_chans w)) k (cn_inflight_update (hm_remove i) ?c)"
      using world_okD(2)[OF ok k] by (simp add: once_def drop_sender_delivered[OF s] pending_def)
    moreover have "chan_ok (drop_sender s (dw_chans w) ! ch)" if "ch < length (drop_sender s (dw_chans w))" for ch
      using that world_okD(3)[OF ok] by (simp add: drop_sender_chan_ok)
    ultimately show ?thesis
      using conn_chans_transition[OF ok k drop_sender_step[OF s]] Some
      by (simp add: inflight_remove_def conn_grows_def)
  qed
qed

lemma sum_list_snoc_delivered: "delivered (chans @ [chn]) k = delivered chans k + answered k chn"
  by (simp add: delivered_def)

lemma chans_step_snoc:
  assumes "chans_step k chans chans'" and "length chans' = length chans" and "ch_conn chn = k"
  shows "chans_step k chans (chans' @ [chn])"
  using assms unfolding chans_step_def by (auto simp: nth_append not_less le_less_Suc_eq)

lemma sender_ok_append:
  "sender_ok chans k i s \<Longrightarrow> sender_ok (chans @ cs) k i s"
  by (auto simp: sender_ok_def nth_append split: sender.splits)

lemma register_query_evolves:
  assumes "k < length (dw_heap w)"
  shows "evolves w (snd (register_query k i w))"
proof (rule evolvesI)
  let ?c = "dw_heap w ! k" and ?ch = "length (dw_chans w)"
  let ?old = "case hm_get (cn_inflight ?c) i of None \<Rightarrow> Orphan | Some s \<Rightarrow> s"
  let ?chn = "\<lparr>ch_conn = k, ch_id = i, ch_state = Waiting\<rparr>"
  let ?cs = "drop_sender ?old (dw_chans w) @ [?chn]"
  assume ok: "world_ok w"
  have old: "sender_ok (dw_chans w) k i ?old"
    using inflight_sender_ok[OF ok assms] by (auto simp: sender_ok_def split: option.split)
  have wf: "hm_wf (cn_inflight ?c)" using world_okD(1)[OF ok assms] by (simp add: conn_ok_def)
  have "sender_ok ?cs k j s" if "hm_get (hm_insert i (Tx ?ch) (cn_inflight ?c)) j = Some s" for j s
  proof (cases "j = i")
    case True
    then show ?thesis using that wf by (auto simp: hm_simps sender_ok_def nth_append)
  next
    case False
    then have "hm_get (cn_inflight ?c) j = Some s" using that wf by (simp add: hm_simps)
    from inflight_sender_ok[OF ok assms this] False drop_sender_other[OF old]
    show ?thesis by (intro sender_ok_append) simp
  qed
  then have "conn_ok ?cs k (cn_inflight_update (hm_insert i (Tx ?ch)) ?c)"
    using world_okD(1)[OF ok assms] by (simp add: conn_ok_def hm_simps pc_ok_def)
  moreover have "once ?cs k (cn_inflight_update (hm_insert i (Tx ?ch)) ?c)"
    using world_okD(2)[OF ok assms] drop_sender_delivered[OF old]
    by (simp add: once_def sum_list_snoc_delivered answered_def pending_def)
  moreover have "chan_ok (?cs ! ch)" if "ch < length ?cs" for ch
    using that drop_sender_chan_ok[of ch "dw_chans w" ?old] world_okD(3)[OF ok, of ch]
    by (cases "ch = ?ch") (auto simp: nth_append chan_ok_def[of ?chn])
  ultimately show "world_ok (snd (register_query k i w)) \<and> grows w (snd (register_query k i w))"
    using conn_chans_transition[OF ok assms chans_step_snoc[OF drop_sender_step[OF old]], of ?chn]
    by (simp add: register_query_def Let_def conn_grows_def)
qed

subsection \<open>The reader\<close>

lemma drop_senders:
  assumes "distinct (map fst m)" and "\<And>i s. (i, s) \<in> set m \<Longrightarrow> sender_ok chans k i s"
    and "\<And>ch. ch < length chans \<Longrightarrow> chan_ok (chans ! ch)"
  shows "chans_step k chans (fold (drop_sender \<circ> snd) m chans) \<and>
         delivered (fold (drop_sender \<circ> snd) m chans) k = delivered chans k \<and>
         length (fold (drop_sender \<circ> snd) m chans) = length chans \<and>
         (\<forall>ch<length chans. chan_ok (fold (drop_sender \<circ> snd) m chans ! ch))"
  using assms
proof (induction m arbitrary: chans)
  case Nil
  then show ?case by simp
next
  case (Cons e m)
  obtain i s where e: "e = (i, s)" by fastforce
  have s: "sender_ok chans k i s" using Cons.prems(2) e by simp
  let ?cs = "drop_sender s chans"
  have "sender_ok ?cs k j t" if "(j, t) \<in> set m" for j t
  proof -
    have "i \<noteq> j" using Cons.prems(1) e that by force
    then show ?thesis using drop_sender_other[OF s] Cons.prems(2) that by simp
  qed
  note IH = Cons.IH[of ?cs, OF _ this]
  have "distinct (map fst m)" using Cons.prems(1) by simp
  note IH = IH[OF this]
  have ok: "chan_ok (?cs ! ch)" if "ch < length ?cs" for ch
    using that Cons.prems(3) by (simp add: drop_sender_chan_ok)
  note IH = IH[OF _ ok]
  then show ?case
    using e chans_step_trans[OF drop_sender_step[OF s]] drop_sender_delivered[OF s] by simp
qed

lemma inflight_clear_evolves:
  assumes "k < length (dw_heap w)"
  shows "evolves w (inflight_clear k w)"
proof (rule evolvesI)
  let ?c = "dw_heap w ! k"
  let ?cs = "fold (drop_sender \<circ> snd) (cn_inflight ?c) (dw_chans w)"
  assume ok: "world_ok w"
  have wf: "distinct (map fst (cn_inflight ?c))"
    using world_okD(1)[OF ok assms] by (simp add: conn_ok_def hm_wf_def)
  have "sender_ok (dw_chans w) k i s" if "(i, s) \<in> set (cn_inflight ?c)" for i s
    using that inflight_sender_ok[OF ok assms] wf by (simp add: hm_get_def)
  note cs = drop_senders[OF wf this world_okD(3)[OF ok]]
  have "once ?cs k (cn_inflight_update (\<lambda>_. []) ?c)"
    using world_okD(2)[OF ok assms] cs by (simp add: once_def pending_def)
  moreover have "conn_ok ?cs k (cn_inflight_update (\<lambda>_. []) ?c)"
    using world_okD(1)[OF ok assms] by (simp add: conn_ok_def hm_simps pc_ok_def)
  ultimately show "world_ok (inflight_clear k w) \<and> grows w (inflight_clear k w)"
    using conn_chans_transition[OF ok assms, of ?cs] cs
    by (simp add: inflight_clear_def conn_grows_def)
qed

lemma sum_list_replace:
  fixes x :: "'a multiset"
  shows "n < length xs \<Longrightarrow> sum_list (xs[n := x]) + xs ! n = sum_list xs + x"
proof (induction xs arbitrary: n)
  case (Cons y ys)
  then show ?case by (cases n) (simp_all add: ac_simps)
qed simp

lemma send_reply_facts:
  assumes "sender_ok chans k i s" and "reply_ok i body" and "\<And>ch. ch < length chans \<Longrightarrow> chan_ok (chans ! ch)"
  shows "chans_step k chans (send_reply s body chans)"
    and "delivered (send_reply s body chans) k \<subseteq># delivered chans k + {#body#}"
    and "ch < length (send_reply s body chans) \<Longrightarrow> chan_ok (send_reply s body chans ! ch)"
    and "sender_ok chans k j t \<Longrightarrow> i \<noteq> j \<Longrightarrow> sender_ok (send_reply s body chans) k j t"
proof -
  show "chans_step k chans (send_reply s body chans)"
    using assms(1)
    by (auto simp: send_reply_def sender_ok_def chans_step_def chan_grows_def nth_list_update
        split: sender.splits)
  show "ch < length (send_reply s body chans) \<Longrightarrow> chan_ok (send_reply s body chans ! ch)"
    using assms(1,2) assms(3)[of ch]
    by (auto simp: send_reply_def chan_ok_def sender_ok_def nth_list_update
        split: sender.splits if_splits oneshot.splits)
  show "sender_ok chans k j t \<Longrightarrow> i \<noteq> j \<Longrightarrow> sender_ok (send_reply s body chans) k j t"
    using assms(1) by (auto simp: send_reply_def sender_ok_def nth_list_update split: sender.splits)
  show "delivered (send_reply s body chans) k \<subseteq># delivered chans k + {#body#}"
  proof (cases s)
    case Orphan
    then show ?thesis by (simp add: send_reply_def)
  next
    case (Tx ch)
    then have ch: "ch < length chans" using assms(1) by (simp add: sender_ok_def)
    have "delivered (chans[ch := chn]) k + answered k (chans ! ch) = delivered chans k + answered k chn" for chn
      using ch sum_list_replace[of ch "map (answered k) chans" "answered k chn"]
      by (simp add: delivered_def map_update)
    from this[of "(chans ! ch)\<lparr>ch_state := Sent body\<rparr>"] show ?thesis using Tx
      by (auto simp: send_reply_def answered_def split: if_splits)
  qed
qed

lemma deliver_evolves:
  assumes k: "k < length (dw_heap w)" and pc: "rd_pc (dw_heap w ! k) = AtDeliver body"
  shows "evolves w (goto k AtLength (deliver k body w))"
proof (rule evolvesI)
  let ?c = "dw_heap w ! k" and ?i = "from_be_bytes (take 2 body) :: u16"
  assume ok: "world_ok w"
  have len: "2 \<le> length body" and wf: "hm_wf (cn_inflight ?c)"
    using world_okD(1)[OF ok k] pc by (simp_all add: conn_ok_def pc_ok_def)
  show "world_ok (goto k AtLength (deliver k body w)) \<and> grows w (goto k AtLength (deliver k body w))"
  proof (cases "hm_get (cn_inflight ?c) ?i")
    case None
    then show ?thesis using goto_evolves[of AtLength w k] ok by (simp add: deliver_def evolves_def)
  next
    case (Some s)
    note s = inflight_sender_ok[OF ok k Some]
    have reply: "reply_ok ?i body" using len by (simp add: reply_ok_def)
    note facts = send_reply_facts[OF s reply world_okD(3)[OF ok], simplified]
    let ?cs = "send_reply s body (dw_chans w)"
    let ?f = "\<lambda>c. (cn_inflight_update (hm_remove ?i) c)\<lparr>rd_pc := AtLength\<rparr>"
    have eq: "goto k AtLength (deliver k body w) = upd_conn k ?f (w\<lparr>dw_chans := ?cs\<rparr>)"
      using Some k by (simp add: goto_def deliver_def upd_conn_def)
    have "conn_ok ?cs k (?f ?c)"
      using world_okD(1)[OF ok k] facts(4) wf by (auto simp: conn_ok_def hm_simps pc_ok_def split: if_splits)
    moreover have "once ?cs k (?f ?c)"
      using world_okD(2)[OF ok k] facts(2) pc unfolding once_def
      by (simp add: pending_def)
    ultimately show ?thesis
      unfolding eq using conn_chans_transition[OF ok k facts(1), of ?f] facts(3)
      by (simp add: conn_grows_def)
  qed
qed

lemma received_evolves:
  assumes k: "k < length (dw_heap w)" and pc: "rd_pc (dw_heap w ! k) = AtBody (length body)"
  shows "evolves w (upd_conn k (\<lambda>c. c\<lparr>rd_incoming := rest, rd_pc := AtDeliver body,
                 rd_received := rd_received c @ [body]\<rparr>) w)"
proof (rule evolvesI)
  let ?c = "dw_heap w ! k"
  let ?f = "\<lambda>c. c\<lparr>rd_incoming := rest, rd_pc := AtDeliver body, rd_received := rd_received c @ [body]\<rparr>"
  assume ok: "world_ok w"
  have "conn_ok (dw_chans w) k (?f ?c)"
    using world_okD(1)[OF ok k] pc by (simp add: conn_ok_def pc_ok_def)
  moreover have "once (dw_chans w) k (?f ?c)"
    using world_okD(2)[OF ok k] pc by (simp add: once_def pending_def)
  moreover have "w\<lparr>dw_chans := dw_chans w\<rparr> = w" by simp
  ultimately show "world_ok (upd_conn k ?f w) \<and> grows w (upd_conn k ?f w)"
    using conn_chans_transition[OF ok k chans_step_refl, of ?f] world_okD(3)[OF ok]
    by (auto simp: conn_grows_def)
qed

lemma read_untimed_length: "read_untimed n es = (ReadOk bs, rest) \<Longrightarrow> length bs = n"
  by (induction n es arbitrary: bs rest rule: read_untimed.induct)
    (auto split: prod.splits read_result.splits)

lemma reader_evolves:
  assumes k: "k < length (dw_heap w)" and step: "reader_step k w = Some w'"
  shows "evolves w w'"
proof -
  let ?c = "dw_heap w ! k"
  have inert: "evolves w (upd_conn k (\<lambda>c. c\<lparr>rd_incoming := rest, rd_pc := pc\<rparr>) w)"
    if "\<And>b. pc \<noteq> AtDeliver b" and "\<And>n. pc = AtBody n \<Longrightarrow> 2 \<le> n" for pc rest
    using that by (intro upd_conn_inert) (auto simp: pc_ok_def pending_def split: reader_pc.splits)
  show ?thesis
  proof (cases "rd_pc ?c")
    case AtLength
    then show ?thesis using step
      by (auto simp: reader_step_def Let_def intro!: inert split: prod.splits read_result.splits if_splits)
  next
    case AtIdle
    then show ?thesis using step goto_evolves by (auto simp: reader_step_def Let_def)
  next
    case (AtBody n)
    show ?thesis
    proof (cases "read_untimed n (rd_incoming ?c)")
      case (Pair r rest)
      then show ?thesis using step AtBody inert[of AtMarkDead rest] received_evolves[OF k, of _ rest]
          read_untimed_length[of n "rd_incoming ?c" _ rest]
        by (auto simp: reader_step_def Let_def split: read_result.splits)
    qed
  next
    case (AtDeliver body)
    then show ?thesis using step deliver_evolves[OF k] by (auto simp: reader_step_def Let_def)
  next
    case AtMarkDead
    then show ?thesis using step
      by (auto simp: reader_step_def Let_def intro!: evolves_trans[OF alive_evolves goto_evolves])
  next
    case AtClear
    then show ?thesis using step
      by (auto simp: reader_step_def Let_def intro!: evolves_trans[OF inflight_clear_evolves[OF k] goto_evolves])
  next
    case ReaderGone
    then show ?thesis using step by (simp add: reader_step_def Let_def)
  qed
qed

subsection \<open>The table of connections\<close>

lemma conns_evolves:
  assumes "table_ok (dw_heap w) (dp_conns (dw_pool w)) \<Longrightarrow> table_ok (dw_heap w) (f (dp_conns (dw_pool w)))"
  shows "evolves w (upd_pool (dp_conns_update f) w)"
  using assms by (auto simp: evolves_def world_ok_def grows_def upd_pool_def)

lemma table_okD:
  "table_ok heap conns \<Longrightarrow> hm_get conns server = Some b \<Longrightarrow> k \<in> set b \<Longrightarrow>
   k < length heap \<and> rd_server (heap ! k) = server"
  unfolding table_ok_def by blast

lemma table_okI:
  assumes "hm_wf conns"
    and "\<And>server b k. hm_get conns server = Some b \<Longrightarrow> k \<in> set b \<Longrightarrow>
           k < length heap \<and> rd_server (heap ! k) = server"
  shows "table_ok heap conns"
  using assms unfolding table_ok_def by blast

lemma table_ok_insert:
  assumes "table_ok heap conns" and "\<And>k. k \<in> set b \<Longrightarrow> k < length heap \<and> rd_server (heap ! k) = server"
  shows "table_ok heap (hm_insert server b conns)"
  using assms by (auto simp: table_ok_def hm_simps split: if_splits)

lemma table_ok_filter:
  assumes "table_ok heap conns"
  shows "table_ok heap (filter P conns)"
proof -
  have wf: "distinct (map fst conns)" using assms by (simp add: table_ok_def hm_wf_def)
  then have "hm_wf (filter P conns)" by (simp add: hm_wf_def distinct_map_filter)
  moreover have "hm_get conns server = Some b" if "hm_get (filter P conns) server = Some b" for server b
    using that map_of_SomeD[of "filter P conns" server b] wf by (auto simp: hm_get_def)
  ultimately show ?thesis using table_okD[OF assms] by (intro table_okI) blast+
qed

lemma bucket_servers:
  assumes "world_ok w" and "k \<in> set (bucket server w)"
  shows "k < length (dw_heap w) \<and> rd_server (dw_heap w ! k) = server"
proof (cases "hm_get (dp_conns (dw_pool w)) server")
  case (Some b)
  then show ?thesis using table_okD[OF world_okD(5)[OF assms(1)]] assms(2) by (simp add: bucket_def)
qed (use assms(2) in \<open>simp add: bucket_def\<close>)

lemma set_bucket_evolves:
  assumes "world_ok w \<Longrightarrow> (\<And>k. k \<in> set b \<Longrightarrow> k < length (dw_heap w) \<and> rd_server (dw_heap w ! k) = server)"
  shows "evolves w (set_bucket server b w)"
proof -
  have "evolves w (set_bucket server b w)" if "world_ok w"
    unfolding set_bucket_def by (intro conns_evolves table_ok_insert) (use assms that in auto)
  then show ?thesis by (auto simp: evolves_def)
qed

lemma retain_alive_evolves: "evolves w (snd (retain_alive server w))"
  by (auto simp: retain_alive_def Let_def dest: bucket_servers intro!: set_bucket_evolves)

lemma mark_all_dead_evolves: "evolves w (mark_all_dead ks w)"
proof (induction ks arbitrary: w)
  case (Cons k ks)
  then show ?case unfolding mark_all_dead_def by (auto intro: evolves_trans[OF alive_evolves])
qed (simp add: mark_all_dead_def)

lemma append_conn_evolves:
  assumes "cn_inflight c = []" and "rd_pc c = AtLength" and "rd_received c = []"
  shows "evolves w (w\<lparr>dw_dials := n, dw_heap := dw_heap w @ [c]\<rparr>)"
proof (rule evolvesI)
  assume ok: "world_ok w"
  let ?w = "w\<lparr>dw_dials := n, dw_heap := dw_heap w @ [c]\<rparr>" and ?n = "length (dw_heap w)"
  have "answered ?n chn = {#}" if chn: "chn \<in> set (dw_chans w)" for chn
  proof -
    obtain ch where "ch < length (dw_chans w)" "chn = dw_chans w ! ch"
      using chn by (auto simp: in_set_conv_nth)
    then show ?thesis using world_okD(4)[OF ok, of ch] by (intro answered_other) simp
  qed
  then have "delivered (dw_chans w) ?n = {#}"
    unfolding delivered_def by (intro sum_list_empty)
  then have "conn_ok (dw_chans w) ?n c \<and> once (dw_chans w) ?n c"
    using assms by (simp add: conn_ok_def once_def pending_def pc_ok_def hm_simps)
  then have "conn_ok (dw_chans w) k (dw_heap ?w ! k) \<and> once (dw_chans w) k (dw_heap ?w ! k)"
    if "k < Suc ?n" for k
    using that world_okD(1,2)[OF ok, of k] by (cases "k = ?n") (simp_all add: nth_append)
  moreover have "table_ok (dw_heap ?w) (dp_conns (dw_pool w))"
  proof (rule table_okI)
    show "hm_wf (dp_conns (dw_pool w))" using world_okD(5)[OF ok] by (simp add: table_ok_def)
    fix server b k assume "hm_get (dp_conns (dw_pool w)) server = Some b" "k \<in> set b"
    from table_okD[OF world_okD(5)[OF ok] this]
    show "k < length (dw_heap ?w) \<and> rd_server (dw_heap ?w ! k) = server" by (simp add: nth_append)
  qed
  ultimately show "world_ok ?w \<and> grows w ?w"
    using world_okD(3,4)[OF ok] by (simp add: world_ok_def grows_def nth_append less_SucI)
qed

lemma sender_ok_receiver_drop:
  "sender_ok chans k i s \<Longrightarrow> sender_ok (chans[ch := (chans ! ch)\<lparr>ch_state := ReceiverDropped\<rparr>]) k i s"
  by (cases s; cases "ch < length chans") (simp_all add: sender_ok_def nth_list_update list_update_beyond)

lemma receiver_drop_evolves:
  assumes "ch_state (dw_chans w ! ch) = Waiting" and "ch < length (dw_chans w)"
  shows "evolves w (w\<lparr>dw_chans := (dw_chans w)[ch := (dw_chans w ! ch)\<lparr>ch_state := ReceiverDropped\<rparr>]\<rparr>)"
proof (rule evolvesI)
  assume ok: "world_ok w"
  let ?k = "ch_conn (dw_chans w ! ch)"
  let ?cs = "(dw_chans w)[ch := (dw_chans w ! ch)\<lparr>ch_state := ReceiverDropped\<rparr>]"
  have k: "?k < length (dw_heap w)" using world_okD(4)[OF ok assms(2)] .
  have step: "chans_step ?k (dw_chans w) ?cs"
    using assms by (auto simp: chans_step_def chan_grows_def nth_list_update)
  have "delivered ?cs ?k = delivered (dw_chans w) ?k"
    using assms by (intro delivered_update) (simp_all add: answered_def)
  then have "once ?cs ?k (dw_heap w ! ?k)" using world_okD(2)[OF ok k] by (simp add: once_def)
  moreover have "conn_ok ?cs ?k (dw_heap w ! ?k)"
    using world_okD(1)[OF ok k] sender_ok_receiver_drop by (simp add: conn_ok_def)
  moreover have "chan_ok (?cs ! c)" if "c < length ?cs" for c
    using that world_okD(3)[OF ok, of c] assms(2) by (simp add: nth_list_update chan_ok_def)
  ultimately show "world_ok (w\<lparr>dw_chans := ?cs\<rparr>) \<and> grows w (w\<lparr>dw_chans := ?cs\<rparr>)"
    using conn_transition[OF ok k step, of "dw_heap w ! ?k"] by simp
qed

end
