(* ===== verification/Dns_Matching.thy ===== *)
theory Dns_Matching
  imports Dns_Invariant
begin

text \<open>
  Correctness of the DNS pool under every interleaving of its tasks: the rely-guarantee proof of each
  task, and the system of any number of queries, readers and maintenance tasks.
\<close>

section \<open>The tasks\<close>

definition conn_to :: "SocketAddr \<Rightarrow> conn_ref \<Rightarrow> dns_world \<Rightarrow> bool" where
  "conn_to server k w \<longleftrightarrow>
     world_ok w \<and> k < length (dw_heap w) \<and> rd_server (dw_heap w ! k) = server"

definition registered :: "SocketAddr \<Rightarrow> conn_ref \<Rightarrow> u16 \<Rightarrow> chan_ref \<Rightarrow> dns_world \<Rightarrow> bool" where
  "registered server k i ch w \<longleftrightarrow>
     conn_to server k w \<and> ch < length (dw_chans w) \<and>
     ch_conn (dw_chans w ! ch) = k \<and> ch_id (dw_chans w ! ch) = i"

definition asked :: "SocketAddr \<Rightarrow> conn_ref \<Rightarrow> bytes \<Rightarrow> dns_world \<Rightarrow> bool" where
  "asked server k framed w \<longleftrightarrow>
     conn_to server k w \<and> framed \<in> set (wr_sent (cn_writer (dw_heap w ! k)))"

definition heard :: "SocketAddr \<Rightarrow> conn_ref \<Rightarrow> bytes \<Rightarrow> dns_world \<Rightarrow> bool" where
  "heard server k body w \<longleftrightarrow> conn_to server k w \<and> body \<in> set (rd_received (dw_heap w ! k))"

text \<open>
  What makes \<open>resp\<close> the answer to \<open>query\<close>: on one connection to the server the query was sent under
  some identifier, a message with that identifier was read, and \<open>resp\<close> is that message with the
  identifier the client had chosen.
\<close>

definition answer_to :: "SocketAddr \<Rightarrow> bytes \<Rightarrow> u8 \<times> u8 \<Rightarrow> bytes \<Rightarrow> dns_world \<Rightarrow> bool" where
  "answer_to server query oid resp w \<longleftrightarrow>
     (\<exists>k i framed body.
        frame_query query i = Inr framed \<and> asked server k framed w \<and>
        heard server k body w \<and> reply_ok i body \<and> restore_id oid body = Inr resp)"

lemma stable_world_ok: "stable_in evolves world_ok"
  by (rule stable_inI) (simp add: evolves_def)

lemma stable_conn_to: "stable_in evolves (conn_to server k)"
  by (rule stable_inI) (auto simp: conn_to_def evolves_def grows_def conn_grows_def)

lemma stable_registered: "stable_in evolves (registered server k i ch)"
  by (rule stable_inI)
    (auto simp: registered_def conn_to_def evolves_def grows_def conn_grows_def chan_grows_def)

lemma stable_asked: "stable_in evolves (asked server k framed)"
  and stable_heard: "stable_in evolves (heard server k body)"
  by (rule stable_inI; auto simp: asked_def heard_def conn_to_def evolves_def grows_def conn_grows_def)+

lemma stable_answer_to: "stable_in evolves (answer_to server query oid resp)"
proof (rule stable_inI)
  fix w w' assume "answer_to server query oid resp w" and E: "evolves w w'"
  then show "answer_to server query oid resp w'"
    unfolding answer_to_def
    using stable_inD[OF stable_asked _ E] stable_inD[OF stable_heard _ E] by fast
qed

lemma rg_load_keeps:
  "stable_in evolves P \<Longrightarrow> rg evolves P (load f) (\<lambda>_. P)"
  by (rule rg_load) auto

lemma rg_locks:
  assumes "stable_in evolves P"
  shows "rg evolves P lock_conns (\<lambda>_. P)" and "rg evolves P unlock_conns (\<lambda>_. P)"
    and "rg evolves P lock_open (\<lambda>_. P)" and "rg evolves P unlock_open (\<lambda>_. P)"
proof -
  show "rg evolves P lock_conns (\<lambda>_. P)" "rg evolves P lock_open (\<lambda>_. P)"
    unfolding lock_conns_def lock_open_def
    by (rule rg_await; use assms in \<open>auto split: if_splits intro: stable_inD\<close>)+
  show "rg evolves P unlock_conns (\<lambda>_. P)" "rg evolves P unlock_open (\<lambda>_. P)"
    unfolding unlock_conns_def unlock_open_def by (rule rg_update_keeps[OF assms]; simp)+
qed

lemma rg_alloc: "stable_in evolves P \<Longrightarrow> rg evolves P (alloc k) (\<lambda>_. P)"
  unfolding alloc_def by (rule rg_atomic_keeps) (auto split: prod.splits intro: alloc_evolves)

definition acquired :: "SocketAddr \<Rightarrow> (conn_ref \<times> u16 \<times> bool) result \<Rightarrow> dns_world \<Rightarrow> bool" where
  "acquired server r w \<longleftrightarrow> (case r of Inl _ \<Rightarrow> world_ok w | Inr (k, _, _) \<Rightarrow> conn_to server k w)"

definition reused :: "SocketAddr \<Rightarrow> (conn_ref \<times> u16 \<times> bool) option \<Rightarrow> dns_world \<Rightarrow> bool" where
  "reused server r w \<longleftrightarrow> (case r of None \<Rightarrow> world_ok w | Some (k, _, _) \<Rightarrow> conn_to server k w)"

definition all_conn_to :: "SocketAddr \<Rightarrow> conn_ref list \<Rightarrow> dns_world \<Rightarrow> bool" where
  "all_conn_to server ks w \<longleftrightarrow> world_ok w \<and> (\<forall>k\<in>set ks. conn_to server k w)"

lemma stable_all_conn_to: "stable_in evolves (all_conn_to server ks)"
proof (rule stable_inI)
  fix w w' assume "all_conn_to server ks w" and E: "evolves w w'"
  then show "all_conn_to server ks w'"
    unfolding all_conn_to_def
    using stable_inD[OF stable_conn_to _ E] stable_inD[OF stable_world_ok _ E] by blast
qed

lemma stable_acquired: "stable_in evolves (acquired server r)"
  unfolding acquired_def by (cases r) (auto simp: stable_world_ok stable_conn_to split: prod.splits)

lemma stable_reused: "stable_in evolves (reused server r)"
  unfolding reused_def by (cases r) (auto simp: stable_world_ok stable_conn_to split: prod.splits)

lemma rg_reuse_scan: "rg evolves (all_conn_to server ks) (reuse_scan ks) (reused server)"
proof (induction ks)
  case Nil
  show ?case
    unfolding reuse_scan.simps
    by (rule rg_bind[OF rg_locks(2)[OF stable_all_conn_to]], rule rg_Ret)
      (simp add: reused_def all_conn_to_def)
next
  case (Cons k ks)
  let ?P = "all_conn_to server (k # ks)"
  note st = stable_all_conn_to[of server "k # ks"]
  have found: "rg evolves ?P (task_bind (update (count_stat DNS_POOL_HITS)) (\<lambda>_.
      task_bind unlock_conns (\<lambda>_. Ret (Some (k, i, True))))) (reused server)" for i
  proof (rule rg_bind[OF rg_update_keeps[OF st]])
    show "evolves w (count_stat DNS_POOL_HITS w)" for w by simp
    show "rg evolves ?P (task_bind unlock_conns (\<lambda>_. Ret (Some (k, i, True)))) (reused server)"
      by (rule rg_bind[OF rg_locks(2)[OF st]], rule rg_Ret) (simp add: reused_def all_conn_to_def)
  qed
  have next_one: "rg evolves ?P (reuse_scan ks) (reused server)"
    by (rule rg_weaken[OF Cons.IH]) (simp add: all_conn_to_def)
  show ?case
    unfolding reuse_scan.simps
    by (rule rg_bind[OF rg_alloc[OF st]]) (intro rg_case_option found next_one)
qed

lemma rg_retain_alive:
  "rg evolves world_ok (atomic (retain_alive server)) (all_conn_to server)"
proof (rule rg_atomic[OF stable_all_conn_to])
  fix w b w' assume ok: "world_ok w" and r: "retain_alive server w = (b, w')"
  have E: "evolves w w'" using retain_alive_evolves[of w server] r by simp
  have "conn_to server k w" if "k \<in> set b" for k
    using that r bucket_servers[OF ok, of k server] ok by (auto simp: retain_alive_def Let_def conn_to_def)
  then have "all_conn_to server b w" using ok by (simp add: all_conn_to_def)
  then show "evolves w w' \<and> all_conn_to server b w'"
    using E stable_inD[OF stable_all_conn_to _ E] by blast
qed

lemma rg_try_reuse: "rg evolves world_ok (try_reuse server) (reused server)"
  unfolding try_reuse_def
  by (rule rg_bind[OF rg_locks(1)[OF stable_world_ok] rg_bind[OF rg_retain_alive rg_reuse_scan]])

definition opened :: "SocketAddr \<Rightarrow> conn_ref result \<Rightarrow> dns_world \<Rightarrow> bool" where
  "opened server r w \<longleftrightarrow> (case r of Inl _ \<Rightarrow> world_ok w | Inr k \<Rightarrow> conn_to server k w)"

lemma stable_opened: "stable_in evolves (opened server r)"
  unfolding opened_def by (cases r) (simp_all add: stable_world_ok stable_conn_to)

lemma rg_open_conn: "rg evolves world_ok (open_conn server) (opened server)"
  unfolding open_conn_def
proof (rule rg_bind[OF rg_load_keeps[OF stable_world_ok]], rule rg_atomic[OF stable_opened])
  fix proxy w w' and r :: "conn_ref result"
  assume ok: "world_ok w"
    and step: "(let w' = w\<lparr>dw_dials := Suc (dw_dials w)\<rparr> in
       case context_res ''failed to open pooled DNS connection''
              (tcp_connect (dw_net w (dw_dials w)) proxy server) of
         Inl e \<Rightarrow> (Inl e, w')
       | Inr _ \<Rightarrow> (Inr (length (dw_heap w)),
           w'\<lparr>dw_heap := dw_heap w @ [Conn_new server (dw_now w)]\<rparr>)) = (r, w')"
  show "evolves w w' \<and> opened server r w'"
  proof (cases "tcp_connect (dw_net w (dw_dials w)) proxy server")
    case (Inl e)
    then have w': "w' = w\<lparr>dw_dials := Suc (dw_dials w)\<rparr>" "\<exists>e. r = Inl e"
      using step by (auto simp: Let_def)
    then have "evolves w w'" by (simp add: evolves_same)
    then show ?thesis using ok w'(2) by (auto simp: evolves_def opened_def)
  next
    case (Inr u)
    let ?c = "Conn_new server (dw_now w)"
    have w': "w' = w\<lparr>dw_dials := Suc (dw_dials w), dw_heap := dw_heap w @ [?c]\<rparr>"
      and r: "r = Inr (length (dw_heap w))"
      using step Inr by (simp_all add: Let_def)
    have E: "evolves w w'" unfolding w' by (rule append_conn_evolves) (simp_all add: Conn_new_def)
    then have "world_ok w'" using ok by (simp add: evolves_def)
    then show ?thesis using E unfolding r w' by (simp add: opened_def conn_to_def Conn_new_def)
  qed
qed

lemma push_conn_evolves:
  assumes "conn_to server k w"
  shows "evolves w (count_stat c (push_conn server k w))"
proof -
  have "evolves w (push_conn server k w)"
    unfolding push_conn_def
    by (rule set_bucket_evolves) (use assms bucket_servers in \<open>auto simp: conn_to_def\<close>)
  then show ?thesis by (rule evolves_trans) simp
qed

lemma rg_open_register: "rg evolves world_ok (open_register server) (acquired server)"
  unfolding open_register_def
proof (rule rg_task_tryI[OF rg_open_conn])
  fix k :: conn_ref
  note st = stable_conn_to[of server k]
  have alloc: "rg evolves (opened server (Inr k)) (task_bind (alloc k) (\<lambda>r.
      Ret (context_opt ''freshly opened DNS connection rejected allocation'' r))) (\<lambda>_. conn_to server k)"
    by (rule rg_weaken[OF rg_bind[OF rg_alloc[OF st]]]) (auto intro: rg_Ret simp: opened_def)
  have push: "rg evolves (conn_to server k)
      (update (\<lambda>w. count_stat DNS_POOL_MISSES (push_conn server k w))) (\<lambda>_. conn_to server k)"
    by (rule rg_update_keeps[OF st]) (rule push_conn_evolves)
  have fin: "rg evolves (conn_to server k) (Ret (Inr (k, i, False))) (acquired server)" for i
    by (rule rg_Ret) (simp add: acquired_def)
  show "rg evolves (opened server (Inr k))
     (task_try (task_bind (alloc k) (\<lambda>r.
      Ret (context_opt ''freshly opened DNS connection rejected allocation'' r))) (\<lambda>i. task_bind lock_conns (\<lambda>_.
       task_bind (update (\<lambda>w. count_stat DNS_POOL_MISSES (push_conn server k w))) (\<lambda>_.
       task_bind unlock_conns (\<lambda>_. Ret (Inr (k, i, False))))))) (acquired server)"
    by (rule rg_task_tryI[OF alloc _
          rg_bind[OF rg_locks(1)[OF st] rg_bind[OF push rg_bind[OF rg_locks(2)[OF st] fin]]]])
      (simp add: acquired_def conn_to_def)
qed (simp add: acquired_def opened_def)

lemma rg_acquire_locked: "rg evolves world_ok (acquire_locked server) (acquired server)"
  unfolding acquire_locked_def
proof (rule rg_bind[OF rg_try_reuse], rule rg_case_option)
  fix r :: "(conn_ref \<times> u16 \<times> bool) option"
  assume r: "r = None"
  have exhausted: "rg evolves (all_conn_to server b)
      (if MAX_CONNS_PER_TARGET \<le> length b
       then Ret (Inl [''DNS connection pool exhausted for '' @ show_socket_addr server])
       else open_register server) (acquired server)" for b
    by (rule rg_if)
      (auto intro!: rg_Ret rg_weaken[OF rg_open_register] simp: acquired_def all_conn_to_def)
  show "rg evolves (reused server r) (task_bind lock_conns (\<lambda>_.
      task_bind (atomic (retain_alive server)) (\<lambda>b.
      task_bind unlock_conns (\<lambda>_.
        if MAX_CONNS_PER_TARGET \<le> length b
        then Ret (Inl [''DNS connection pool exhausted for '' @ show_socket_addr server])
        else open_register server)))) (acquired server)"
    by (rule rg_weaken[OF rg_bind[OF rg_locks(1)[OF stable_world_ok]
          rg_bind[OF rg_retain_alive rg_bind[OF rg_locks(2)[OF stable_all_conn_to] exhausted]]]])
      (simp add: r reused_def)
next
  fix r :: "(conn_ref \<times> u16 \<times> bool) option" and v assume "r = Some v"
  then show "rg evolves (reused server r) (Ret (Inr v)) (acquired server)"
    by (intro rg_Ret) (simp add: reused_def acquired_def)
qed

lemma rg_with_open_lock:
  assumes "rg evolves world_ok t (acquired server)"
  shows "rg evolves world_ok
    (task_bind lock_open (\<lambda>_. task_bind t (\<lambda>v. task_bind unlock_open (\<lambda>_. Ret v)))) (acquired server)"
  by (rule rg_bind[OF rg_locks(3)[OF stable_world_ok]
      rg_bind[OF assms rg_bind[OF rg_locks(4)[OF stable_acquired] rg_Ret]]])

lemma rg_acquire: "rg evolves world_ok (acquire server) (acquired server)"
  unfolding acquire_def
proof (rule rg_bind[OF rg_try_reuse], rule rg_case_option)
  fix r :: "(conn_ref \<times> u16 \<times> bool) option"
  assume "r = None"
  then show "rg evolves (reused server r) (task_bind lock_open (\<lambda>_.
      task_bind (acquire_locked server) (\<lambda>v. task_bind unlock_open (\<lambda>_. Ret v)))) (acquired server)"
    by (intro rg_weaken[OF rg_with_open_lock[OF rg_acquire_locked]]) (simp add: reused_def)
next
  fix r :: "(conn_ref \<times> u16 \<times> bool) option" and v assume "r = Some v"
  then show "rg evolves (reused server r) (Ret (Inr v)) (acquired server)"
    by (intro rg_Ret) (simp add: reused_def acquired_def)
qed

lemma rg_open_and_register: "rg evolves world_ok (open_and_register server) (acquired server)"
  unfolding open_and_register_def by (rule rg_with_open_lock[OF rg_open_register])

subsection \<open>Queries\<close>

lemma be_bytes_two: "\<exists>a b. be_bytes 2 w = [a, b]"
  by (simp add: numeral_2_eq_2 be_bytes_Suc be_bytes_def[of 0])

lemma frame_query_ok:
  assumes "2 \<le> length query"
  shows "frame_query query i =
    Inr (be_bytes 2 (of_nat (length query) :: u16) @ be_bytes 2 i @ drop 2 query)"
proof -
  obtain a b rest where q: "query = a # b # rest"
    using assms by (cases query rule: list.exhaust; cases "tl query") auto
  obtain c d where l: "be_bytes 2 (of_nat (length query) :: u16) = [c, d]"
    using be_bytes_two by blast
  obtain e f where i: "be_bytes 2 i = [e, f]"
    using be_bytes_two by blast
  show ?thesis
    unfolding frame_query_def l i Let_def
    by (simp add: q set_index_def bind_panic_def eval_nat_numeral)
qed

lemma restore_id_ok: "2 \<le> length body \<Longrightarrow> restore_id (a, b) body = Inr (a # b # drop 2 body)"
  by (cases body; cases "tl body") (auto simp: restore_id_def set_index_def bind_panic_def)

text \<open>What the caller of one exchange gets.\<close>

definition outcome_ok :: "SocketAddr \<Rightarrow> bytes \<Rightarrow> u8 \<times> u8 \<Rightarrow> Outcome may_panic \<Rightarrow> dns_world \<Rightarrow> bool" where
  "outcome_ok server query oid r w \<longleftrightarrow>
     world_ok w \<and>
     (case r of
        Inl _ \<Rightarrow> False
      | Inr (OutcomeOk resp) \<Rightarrow> answer_to server query oid resp w
      | Inr _ \<Rightarrow> True)"

lemma outcome_ok_error:
  "outcome_ok server query oid (Inr (OutcomeRetry e)) w = world_ok w"
  "outcome_ok server query oid (Inr (OutcomeFatal e)) w = world_ok w"
  by (simp_all add: outcome_ok_def)

lemma registered_conn_to: "registered server k i ch w \<Longrightarrow> conn_to server k w"
  by (simp add: registered_def)

lemma conn_to_ok: "conn_to server k w \<Longrightarrow> world_ok w \<and> k < length (dw_heap w)"
  by (simp add: conn_to_def)

lemma rg_register_query:
  "rg evolves (conn_to server k) (atomic (register_query k i)) (registered server k i)"
proof (rule rg_atomic[OF stable_registered])
  fix w ch w' assume P: "conn_to server k w" and r: "register_query k i w = (ch, w')"
  have E: "evolves w w'" using register_query_evolves[of k w i] P r by (simp add: conn_to_def)
  have "conn_to server k w'" by (rule stable_inD[OF stable_conn_to P E])
  moreover have "ch < length (dw_chans w')" "dw_chans w' ! ch = \<lparr>ch_conn = k, ch_id = i, ch_state = Waiting\<rparr>"
    using r by (auto simp: register_query_def Let_def upd_conn_def nth_append)
  ultimately show "evolves w w' \<and> registered server k i ch w'" using E by (simp add: registered_def)
qed

lemma rg_inflight_remove:
  "rg evolves (conn_to server k) (task_bind (update (inflight_remove k i)) (\<lambda>_. Ret (Inr (OutcomeRetry e))))
     (outcome_ok server query oid)"
  "rg evolves (conn_to server k) (task_bind (update (inflight_remove k i)) (\<lambda>_. Ret (Inr (OutcomeFatal e))))
     (outcome_ok server query oid)"
  by (rule rg_bind[OF rg_update_keeps[OF stable_conn_to]];
      auto intro: rg_Ret simp: outcome_ok_error conn_to_def)+

definition written :: "SocketAddr \<Rightarrow> conn_ref \<Rightarrow> u16 \<Rightarrow> chan_ref \<Rightarrow> bytes \<Rightarrow> unit result \<Rightarrow> dns_world \<Rightarrow> bool" where
  "written server k i ch framed r w \<longleftrightarrow>
     registered server k i ch w \<and> (case r of Inl _ \<Rightarrow> True | Inr _ \<Rightarrow> asked server k framed w)"

lemma stable_written: "stable_in evolves (written server k i ch framed r)"
  unfolding written_def
  by (cases r) (simp_all add: stable_registered stable_conj[OF stable_registered stable_asked])

lemma rg_write_frame:
  "rg evolves (registered server k i ch) (write_frame k framed) (written server k i ch framed)"
  unfolding write_frame_def
proof (rule rg_await[OF stable_written])
  fix w r w'
  assume P: "registered server k i ch w"
    and step: "(case wr_state (cn_writer (dw_heap w ! k)) of
         WriteBlocked \<Rightarrow> None
       | WriteBroken m \<Rightarrow> Some (Inl [m], w)
       | Writable \<Rightarrow> Some (Inr (),
           upd_conn k (cn_writer_update (wr_sent_update (\<lambda>s. s @ [framed]))) w)) = Some (r, w')"
  have E: "evolves w w'" using step by (auto split: write_state.splits)
  have R: "registered server k i ch w'" by (rule stable_inD[OF stable_registered P E])
  show "evolves w w' \<and> written server k i ch framed r w'"
  proof (cases "wr_state (cn_writer (dw_heap w ! k))")
    case Writable
    have "k < length (dw_heap w)" using P by (simp add: registered_def conn_to_def)
    then have "framed \<in> set (wr_sent (cn_writer (dw_heap w' ! k)))"
      using step Writable by (auto simp: upd_conn_def)
    then show ?thesis using E R step Writable by (auto simp: written_def asked_def registered_def)
  qed (use E R step in \<open>auto simp: written_def\<close>)
qed

definition replied :: "SocketAddr \<Rightarrow> conn_ref \<Rightarrow> u16 \<Rightarrow> bytes \<Rightarrow> reply \<Rightarrow> dns_world \<Rightarrow> bool" where
  "replied server k i framed r w \<longleftrightarrow>
     asked server k framed w \<and>
     (case r of Replied body \<Rightarrow> heard server k body w \<and> reply_ok i body | _ \<Rightarrow> True)"

lemma stable_replied: "stable_in evolves (replied server k i framed r)"
  unfolding replied_def
  by (cases r) (simp_all add: stable_asked stable_conj stable_heard stable_const)

lemma delivered_member:
  assumes "ch < length chans" and "ch_conn (chans ! ch) = k" and "ch_state (chans ! ch) = Sent body"
  shows "body \<in># delivered chans k"
proof -
  have "delivered chans k = sum_list ((map (answered k) chans)[ch := {#}]) + answered k (chans ! ch)"
    using sum_list_replace[of ch "map (answered k) chans" "{#}"] assms(1) by (simp add: delivered_def)
  then show ?thesis using assms by (simp add: answered_def)
qed

lemma sent_reply_heard:
  assumes "registered server k i ch w" and "ch_state (dw_chans w ! ch) = Sent body"
  shows "heard server k body w \<and> reply_ok i body"
proof -
  have ok: "world_ok w" and k: "k < length (dw_heap w)" and ch: "ch < length (dw_chans w)"
    and conn: "ch_conn (dw_chans w ! ch) = k" and i: "ch_id (dw_chans w ! ch) = i"
    using assms(1) by (simp_all add: registered_def conn_to_def)
  have "body \<in># delivered (dw_chans w) k" by (rule delivered_member[OF ch conn assms(2)])
  then have "body \<in># delivered (dw_chans w) k + pending (dw_heap w ! k)" by simp
  then have "body \<in> set (rd_received (dw_heap w ! k))"
    using mset_subset_eqD[OF world_okD(2)[OF ok k, unfolded once_def]] by simp
  moreover have "reply_ok i body" using world_okD(3)[OF ok ch] assms(2) i by (simp add: chan_ok_def)
  ultimately show ?thesis using assms(1) by (simp add: heard_def registered_def)
qed

lemma rg_await_reply:
  "rg evolves (\<lambda>w. registered server k i ch w \<and> asked server k framed w)
     (await_reply start ch) (replied server k i framed)"
  unfolding await_reply_def
proof (rule rg_await[OF stable_replied])
  fix w r w'
  assume P: "registered server k i ch w \<and> asked server k framed w"
    and step: "(case ch_state (dw_chans w ! ch) of
         Sent body \<Rightarrow> Some (Replied body, w)
       | Waiting \<Rightarrow>
           if dw_now w \<ge> start + dp_query_timeout (dw_pool w)
           then Some (ReplyTimedOut,
             w\<lparr>dw_chans := (dw_chans w)[ch := (dw_chans w ! ch)\<lparr>ch_state := ReceiverDropped\<rparr>]\<rparr>)
           else None
       | _ \<Rightarrow> Some (ReplyClosed, w)) = Some (r, w')"
  have "ch < length (dw_chans w)" using P by (simp add: registered_def)
  then have E: "evolves w w'"
    using step receiver_drop_evolves[of w ch] by (auto split: oneshot.splits if_splits)
  have "asked server k framed w'" using stable_inD[OF stable_asked _ E] P by blast
  moreover have "heard server k body w' \<and> reply_ok i body" if "r = Replied body" for body
    using step that sent_reply_heard[of server k i ch w body] P by (auto split: oneshot.splits if_splits)
  ultimately show "evolves w w' \<and> replied server k i framed r w'"
    using E by (cases r) (simp_all add: replied_def)
qed

lemma rg_finish_query:
  assumes "frame_query query i = Inr framed"
  shows "rg evolves (\<lambda>w. registered server k i ch w \<and> asked server k framed w)
    (finish_query oid k i ch) (outcome_ok server query oid)"
  unfolding finish_query_def
proof (rule rg_bind[OF rg_update_keeps], goal_cases)
  case 1
  show ?case by (rule stable_conj[OF stable_registered stable_asked])
next
  case (2 w)
  show ?case by simp
next
  case (3 u)
  note keep = rg_load_keeps[OF stable_conj[OF stable_registered stable_asked]]
  show ?case
  proof (rule rg_bind[OF keep rg_bind[OF rg_await_reply]], goal_cases)
    case (1 start r)
    show ?case
    proof (cases r)
      case (Replied body)
      have "outcome_ok server query oid (bind_panic (restore_id oid body) (Inr \<circ> OutcomeOk)) w"
        if "replied server k i framed r w" for w
      proof -
        have len: "2 \<le> length body" and R: "asked server k framed w" "heard server k body w" "reply_ok i body"
          using that Replied by (simp_all add: replied_def reply_ok_def)
        obtain resp where resp: "restore_id oid body = Inr resp"
          using restore_id_ok[OF len] by (cases oid) simp
        then have "answer_to server query oid resp w"
          unfolding answer_to_def using assms R by blast
        then show ?thesis using resp R(1)
          by (simp add: outcome_ok_def bind_panic_def asked_def conn_to_def)
      qed
      then show ?thesis using Replied by (auto intro!: rg_Ret)
    next
      case ReplyClosed
      then show ?thesis
        by (auto intro!: rg_weaken[OF rg_inflight_remove(1)] simp: replied_def asked_def)
    next
      case ReplyTimedOut
      then show ?thesis
        by (auto intro!: rg_weaken[OF rg_inflight_remove(2)] simp: replied_def asked_def)
    qed
  qed
qed

lemma rg_exchange:
  assumes "2 \<le> length query"
  shows "rg evolves (conn_to server k) (exchange query oid k i) (outcome_ok server query oid)"
  unfolding exchange_def
proof (rule rg_bind[OF rg_register_query])
  fix ch
  obtain framed where framed: "frame_query query i = Inr framed"
    using frame_query_ok[OF assms] by blast
  have failed: "rg evolves (written server k i ch framed (Inl e))
      (task_bind (update (upd_conn k (cn_alive_update (\<lambda>_. False)))) (\<lambda>_.
       task_bind (update (inflight_remove k i)) (\<lambda>_.
       Ret (Inr (OutcomeRetry (''failed to write DNS query'' # e)))))) (outcome_ok server query oid)" for e
    by (rule rg_weaken[OF rg_bind[OF rg_update_keeps[OF stable_conn_to[of server k]] rg_inflight_remove(1)]])
      (auto simp: written_def registered_def)
  have sent: "rg evolves (written server k i ch framed (Inr u)) (finish_query oid k i ch)
      (outcome_ok server query oid)" for u
    by (rule rg_weaken[OF rg_finish_query[OF framed]]) (simp add: written_def)
  have "rg evolves (written server k i ch framed r)
      (case r of
         Inl e \<Rightarrow>
           task_bind (update (upd_conn k (cn_alive_update (\<lambda>_. False)))) (\<lambda>_.
           task_bind (update (inflight_remove k i)) (\<lambda>_.
           Ret (Inr (OutcomeRetry (''failed to write DNS query'' # e)))))
       | Inr _ \<Rightarrow> finish_query oid k i ch) (outcome_ok server query oid)" for r
    using failed sent by (cases r) simp_all
  then show "rg evolves (registered server k i ch)
     (case frame_query query i of
       Inl p \<Rightarrow> Ret (Inl p)
     | Inr framed \<Rightarrow>
         task_bind (write_frame k framed) (\<lambda>r.
         case r of
           Inl e \<Rightarrow>
             task_bind (update (upd_conn k (cn_alive_update (\<lambda>_. False)))) (\<lambda>_.
             task_bind (update (inflight_remove k i)) (\<lambda>_.
             Ret (Inr (OutcomeRetry (''failed to write DNS query'' # e)))))
         | Inr _ \<Rightarrow> finish_query oid k i ch)) (outcome_ok server query oid)"
    unfolding framed sum.case by (rule rg_bind[OF rg_write_frame])
qed

lemma rg_attempt:
  assumes "2 \<le> length query"
  shows "rg evolves world_ok (attempt server query oid force_new) (outcome_ok server query oid)"
  unfolding attempt_def
proof (rule rg_bind)
  show "rg evolves world_ok (if force_new then open_and_register server else acquire server) (acquired server)"
    by (simp add: rg_acquire rg_open_and_register)
  fix r :: "(conn_ref \<times> u16 \<times> bool) result"
  show "rg evolves (acquired server r)
      (case r of Inl e \<Rightarrow> Ret (Inr (OutcomeRetry e)) | Inr (k, i, _) \<Rightarrow> exchange query oid k i)
      (outcome_ok server query oid)"
  proof (cases r)
    case (Inl e)
    then show ?thesis by (auto intro!: rg_Ret simp: acquired_def outcome_ok_error)
  next
    case (Inr v)
    then show ?thesis
      by (cases v) (auto intro!: rg_weaken[OF rg_exchange[OF assms]] simp: acquired_def)
  qed
qed

definition resolve_ok :: "SocketAddr \<Rightarrow> bytes \<Rightarrow> u8 \<times> u8 \<Rightarrow> bytes result may_panic \<Rightarrow> dns_world \<Rightarrow> bool" where
  "resolve_ok server query oid r w \<longleftrightarrow>
     world_ok w \<and>
     (case r of
        Inl _ \<Rightarrow> False
      | Inr (Inl _) \<Rightarrow> True
      | Inr (Inr resp) \<Rightarrow> 12 \<le> length query \<and> answer_to server query oid resp w)"

lemma rg_resolve_loop:
  assumes "12 \<le> length query"
  shows "rg evolves world_ok (resolve_loop ns server query oid last_err) (resolve_ok server query oid)"
proof (induction ns arbitrary: last_err)
  case Nil
  show ?case unfolding resolve_loop.simps by (rule rg_Ret) (simp add: resolve_ok_def)
next
  case (Cons n ns)
  show ?case
    unfolding resolve_loop.simps
  proof (rule rg_bind[OF rg_attempt])
    show "2 \<le> length query" using assms by simp
    fix r :: "Outcome may_panic"
    consider p where "r = Inl p" | resp where "r = Inr (OutcomeOk resp)"
      | e where "r = Inr (OutcomeRetry e)" | e where "r = Inr (OutcomeFatal e)"
      by (cases r) (auto, metis Outcome.exhaust)
    then show "rg evolves (outcome_ok server query oid r)
       (case r of
         Inl p \<Rightarrow> Ret (Inl p)
       | Inr (OutcomeOk resp) \<Rightarrow> Ret (Inr (Inr resp))
       | Inr (OutcomeRetry e) \<Rightarrow> resolve_loop ns server query oid (Some e)
       | Inr (OutcomeFatal e) \<Rightarrow> Ret (Inr (Inl e))) (resolve_ok server query oid)"
    proof cases
      case (3 e)
      then show ?thesis using Cons.IH by (auto intro!: rg_weaken[OF Cons.IH] simp: outcome_ok_error)
    qed (use assms in \<open>auto intro!: rg_Ret simp: outcome_ok_def resolve_ok_def\<close>)
  qed
qed

lemma rg_resolve:
  "rg evolves world_ok (resolve server query) (resolve_ok server query (query ! 0, query ! 1))"
  unfolding resolve_def
  by (intro rg_if rg_Ret rg_resolve_loop) (simp_all add: resolve_ok_def)

subsection \<open>Maintenance\<close>

lemma rg_set_proxy: "rg evolves world_ok (set_proxy proxy) (\<lambda>_. world_ok)"
proof -
  have cleared: "evolves w (upd_pool (dp_conns_update (\<lambda>_. [])) (mark_all_dead ks w))" for ks w
    by (rule evolves_trans[OF mark_all_dead_evolves conns_evolves])
      (simp add: table_ok_def hm_simps)
  show ?thesis
    unfolding set_proxy_def
    by (intro rg_bind[OF rg_update_keeps[OF stable_world_ok]] rg_bind[OF rg_locks(1)[OF stable_world_ok]]
        rg_locks(2)[OF stable_world_ok]) (simp_all add: cleared)
qed

lemma rg_prune_bucket:
  "rg evolves (all_conn_to server (ks @ keep)) (prune_bucket now idle ks keep) (all_conn_to server)"
proof (induction ks arbitrary: keep)
  case Nil
  show ?case by (auto intro: rg_Ret)
next
  case (Cons k ks)
  let ?P = "all_conn_to server (k # ks @ keep)"
  note st = stable_all_conn_to[of server "k # ks @ keep"]
  have skip: "rg evolves ?P (prune_bucket now idle ks keep) (all_conn_to server)"
    by (rule rg_weaken[OF Cons.IH]) (simp add: all_conn_to_def)
  have keep: "rg evolves ?P (prune_bucket now idle ks (keep @ [k])) (all_conn_to server)"
    by (rule rg_weaken[OF Cons.IH]) (auto simp: all_conn_to_def)
  show ?case
    unfolding prune_bucket.simps append.simps
    by (intro rg_bind[OF rg_load_keeps[OF st]] rg_if skip keep
        rg_bind[OF rg_update_keeps[OF st]]) simp_all
qed

lemma rg_prune_buckets:
  "rg evolves (\<lambda>w. world_ok w \<and> (\<forall>e\<in>set m. all_conn_to (fst e) (snd e) w))
     (prune_buckets now idle m) (\<lambda>_. world_ok)"
proof (induction m)
  case Nil
  show ?case by (auto intro: rg_Ret)
next
  case (Cons e m)
  let ?R = "\<lambda>w. world_ok w \<and> (\<forall>e\<in>set m. all_conn_to (fst e) (snd e) w)"
  have st: "stable_in evolves ?R"
    by (rule stable_inI)
      (meson stable_inD[OF stable_world_ok] stable_inD[OF stable_all_conn_to])
  have store: "rg evolves (\<lambda>w. all_conn_to (fst e) keep w \<and> ?R w) (update (set_bucket (fst e) keep)) (\<lambda>_. ?R)"
    for keep
  proof (rule rg_update[OF st])
    fix w assume P: "all_conn_to (fst e) keep w \<and> ?R w"
    have E: "evolves w (set_bucket (fst e) keep w)"
      by (rule set_bucket_evolves) (use P in \<open>auto simp: all_conn_to_def conn_to_def\<close>)
    show "evolves w (set_bucket (fst e) keep w) \<and> ?R (set_bucket (fst e) keep w)"
      using E stable_inD[OF st _ E] P by blast
  qed
  have "rg evolves (\<lambda>w. all_conn_to (fst e) (snd e @ []) w \<and> ?R w)
      (prune_buckets now idle (e # m)) (\<lambda>_. world_ok)"
    unfolding prune_buckets.simps
    by (rule rg_bind[OF rg_frame[OF rg_prune_bucket st] rg_bind[OF store Cons.IH]])
  then show ?case by (rule rg_weaken) auto
qed

lemma rg_prune: "rg evolves world_ok prune (\<lambda>_. world_ok)"
proof -
  let ?all = "\<lambda>m w. world_ok w \<and> (\<forall>e\<in>set m. all_conn_to (fst e) (snd e) w)"
  have st: "stable_in evolves (?all m)" for m
    by (rule stable_inI)
      (meson stable_inD[OF stable_world_ok] stable_inD[OF stable_all_conn_to])
  have table: "rg evolves world_ok (load (\<lambda>w. dp_conns (dw_pool w))) ?all"
  proof (rule rg_load[OF st], intro conjI ballI)
    fix w assume ok: "world_ok w"
    show "evolves w w" "world_ok w" using ok by simp_all
    fix e assume e: "e \<in> set (dp_conns (dw_pool w))"
    have "hm_get (dp_conns (dw_pool w)) (fst e) = Some (snd e)"
      using world_okD(5)[OF ok] e by (simp add: table_ok_def hm_wf_def hm_get_def)
    from table_okD[OF world_okD(5)[OF ok] this] ok
    show "all_conn_to (fst e) (snd e) w" by (simp add: all_conn_to_def conn_to_def)
  qed
  have retain: "rg evolves world_ok (update (upd_pool (dp_conns_update (filter (\<lambda>(_, v). v \<noteq> []))))) (\<lambda>_. world_ok)"
    by (rule rg_update_keeps[OF stable_world_ok]) (rule conns_evolves, erule table_ok_filter)
  show ?thesis
    unfolding prune_def
    by (intro rg_bind[OF rg_load_keeps[OF stable_world_ok]] rg_case_prod
        rg_bind[OF rg_locks(1)[OF stable_world_ok]] rg_bind[OF table] rg_bind[OF rg_prune_buckets]
        rg_bind[OF retain] rg_locks(2)[OF stable_world_ok])
qed

lemma rg_conn_count: "rg evolves world_ok conn_count (\<lambda>_. world_ok)"
  unfolding conn_count_def
  by (intro rg_bind[OF rg_locks(1)[OF stable_world_ok]] rg_bind[OF rg_load_keeps[OF stable_world_ok]]
      rg_bind[OF rg_locks(2)[OF stable_world_ok]] rg_Ret)

section \<open>The system\<close>

text \<open>
  Any number of queries and maintenance tasks, the readers of all connections, the network and the
  clock. A run is a list of actions, in the order in which the scheduler lets them happen.
\<close>

datatype dns_job =
    Query SocketAddr bytes "bytes result may_panic dns_task"
  | Upkeep "unit dns_task"

datatype dns_action =
    Ask SocketAddr bytes
  | StartPrune
  | StartSetProxy ProxyConfig
  | RunJob nat
  | RunReader conn_ref
  | Arrive conn_ref "rx_event list"
  | Socket conn_ref write_state
  | Tick nat

type_synonym dns_system = "dns_world \<times> dns_job list"

definition dns_init :: "ProxyConfig \<Rightarrow> nat \<Rightarrow> nat \<Rightarrow> (nat \<Rightarrow> unit socket_env) \<Rightarrow> dns_system" where
  "dns_init proxy query_timeout idle_timeout net =
     (\<lparr>dw_pool = DnsPool_new proxy query_timeout idle_timeout, dw_heap = [], dw_chans = [],
       dw_stats = stats_init, dw_now = 0, dw_dials = 0, dw_net = net\<rparr>, [])"

definition run_job :: "nat \<Rightarrow> dns_system \<Rightarrow> dns_system option" where
  "run_job n s =
     (case s of (w, js) \<Rightarrow>
       if n < length js then
         (case js ! n of
            Query server query (Act f) \<Rightarrow>
              map_option (\<lambda>(t, w'). (w', js[n := Query server query t])) (f w)
          | Upkeep (Act f) \<Rightarrow> map_option (\<lambda>(t, w'). (w', js[n := Upkeep t])) (f w)
          | _ \<Rightarrow> None)
       else None)"

fun dns_act :: "dns_action \<Rightarrow> dns_system \<Rightarrow> dns_system option" where
  "dns_act (Ask server query) (w, js) = Some (w, js @ [Query server query (resolve server query)])"
| "dns_act StartPrune (w, js) = Some (w, js @ [Upkeep prune])"
| "dns_act (StartSetProxy proxy) (w, js) = Some (w, js @ [Upkeep (set_proxy proxy)])"
| "dns_act (RunJob n) (w, js) = run_job n (w, js)"
| "dns_act (RunReader k) (w, js) =
     (if k < length (dw_heap w) then map_option (\<lambda>w'. (w', js)) (reader_step k w) else None)"
| "dns_act (Arrive k es) (w, js) = Some (upd_conn k (rd_incoming_update (\<lambda>r. r @ es)) w, js)"
| "dns_act (Socket k st) (w, js) =
     Some (upd_conn k (cn_writer_update (wr_state_update (\<lambda>_. st))) w, js)"
| "dns_act (Tick d) (w, js) = Some (w\<lparr>dw_now := dw_now w + d\<rparr>, js)"

fun dns_run :: "dns_action list \<Rightarrow> dns_system \<Rightarrow> dns_system option" where
  "dns_run [] s = Some s"
| "dns_run (a # as) s = (case dns_act a s of None \<Rightarrow> None | Some s' \<Rightarrow> dns_run as s')"

fun job_ok :: "dns_world \<Rightarrow> dns_job \<Rightarrow> bool" where
  "job_ok w (Query server query t) =
     on_track evolves w t (resolve_ok server query (query ! 0, query ! 1))"
| "job_ok w (Upkeep t) = on_track evolves w t (\<lambda>_. world_ok)"

definition system_ok :: "dns_system \<Rightarrow> bool" where
  "system_ok s \<longleftrightarrow> world_ok (fst s) \<and> (\<forall>j\<in>set (snd s). job_ok (fst s) j)"

lemma job_ok_others: "job_ok w j \<Longrightarrow> evolves w w' \<Longrightarrow> job_ok w' j"
  by (cases j) (auto intro: on_track_others)

lemma system_okI:
  assumes "system_ok (w, js)" and "evolves w w'" and "\<And>j. j \<in> set js' \<Longrightarrow> j \<in> set js \<or> job_ok w' j"
  shows "system_ok (w', js')"
  using assms job_ok_others[OF _ assms(2)] by (auto simp: system_ok_def evolves_def)

lemma job_start:
  assumes "world_ok w"
  shows "job_ok w (Query server query (resolve server query))" and "job_ok w (Upkeep prune)"
    and "job_ok w (Upkeep (set_proxy proxy))"
  unfolding job_ok.simps
  by (rule on_trackI[OF stable_world_ok assms] rg_resolve rg_prune rg_set_proxy)+

lemma in_set_update: "y \<in> set (xs[n := x]) \<Longrightarrow> y = x \<or> y \<in> set xs"
  using set_update_subset_insert[of xs n x] by blast

lemma run_job_ok:
  assumes ok: "system_ok (w, js)" and step: "run_job n (w, js) = Some (w', js')"
  shows "system_ok (w', js')"
proof -
  have n: "n < length js" using step by (simp add: run_job_def split: if_splits)
  then have job: "job_ok w (js ! n)" using ok by (simp add: system_ok_def)
  show ?thesis
  proof (cases "js ! n")
    case (Query server query t)
    then obtain f t' where t: "t = Act f" "f w = Some (t', w')" "js' = js[n := Query server query t']"
      using step n by (cases t) (auto simp: run_job_def)
    have "on_track evolves w (Act f) (resolve_ok server query (query ! 0, query ! 1))"
      using job unfolding Query t(1) job_ok.simps .
    from on_track_step[OF this t(2)] have "evolves w w' \<and> job_ok w' (Query server query t')"
      unfolding job_ok.simps .
    then show ?thesis unfolding t(3) by (intro system_okI[OF ok]) (blast dest: in_set_update)+
  next
    case (Upkeep t)
    then obtain f t' where t: "t = Act f" "f w = Some (t', w')" "js' = js[n := Upkeep t']"
      using step n by (cases t) (auto simp: run_job_def)
    have "on_track evolves w (Act f) (\<lambda>_. world_ok)" using job unfolding Upkeep t(1) job_ok.simps .
    from on_track_step[OF this t(2)] have "evolves w w' \<and> job_ok w' (Upkeep t')"
      unfolding job_ok.simps .
    then show ?thesis unfolding t(3) by (intro system_okI[OF ok]) (blast dest: in_set_update)+
  qed
qed

lemma dns_act_ok:
  assumes ok: "system_ok (w, js)" and step: "dns_act a (w, js) = Some s'"
  shows "system_ok s'"
proof -
  have w: "world_ok w" using ok by (simp add: system_ok_def)
  have same: "system_ok (w', js)" if "evolves w w'" for w'
    using system_okI[OF ok that] by simp
  show ?thesis
  proof (cases a)
    case (RunJob n)
    then show ?thesis using run_job_ok[OF ok] step by (cases s') simp
  next
    case (RunReader k)
    then show ?thesis using step reader_evolves[of k w] by (auto split: if_splits intro!: same)
  next
    case (Arrive k es)
    have "evolves w (upd_conn k (rd_incoming_update (\<lambda>r. r @ es)) w)"
      by (rule upd_conn_inert) (simp_all add: pc_ok_def pending_def)
    then show ?thesis using step Arrive same by auto
  next
    case (Socket k st)
    have "evolves w (upd_conn k (cn_writer_update (wr_state_update (\<lambda>_. st))) w)"
      by (rule upd_conn_inert) (simp_all add: pc_ok_def pending_def)
    then show ?thesis using step Socket same by auto
  next
    case (Tick d)
    have "evolves w (w\<lparr>dw_now := dw_now w + d\<rparr>)" by (simp add: evolves_same)
    then show ?thesis using step Tick same by auto
  qed (use ok step job_start[OF w] in \<open>auto simp: system_ok_def\<close>)
qed

lemma dns_run_ok: "system_ok s \<Longrightarrow> dns_run as s = Some s' \<Longrightarrow> system_ok s'"
proof (induction as arbitrary: s)
  case (Cons a as)
  obtain w js where s: "s = (w, js)" by fastforce
  obtain u where u: "dns_act a s = Some u" "dns_run as u = Some s'"
    using Cons.prems(2) by (auto split: option.splits)
  show ?case using Cons.IH[OF _ u(2)] dns_act_ok Cons.prems(1) u(1) s by blast
qed simp

lemma dns_init_ok: "system_ok (dns_init proxy qt idle net)"
  by (simp add: dns_init_def system_ok_def world_ok_def table_ok_def DnsPool_new_def hm_simps)

lemma answer_to_explicit:
  assumes "answer_to server query (query ! 0, query ! 1) resp w" and "2 \<le> length query"
  shows "\<exists>k i body. k < length (dw_heap w) \<and> rd_server (dw_heap w ! k) = server \<and>
    be_bytes 2 (of_nat (length query) :: u16) @ be_bytes 2 (i :: u16) @ drop 2 query
      \<in> set (wr_sent (cn_writer (dw_heap w ! k))) \<and>
    be_bytes 2 i @ body \<in> set (rd_received (dw_heap w ! k)) \<and>
    resp = take 2 query @ body"
proof -
  obtain k i framed full where f: "frame_query query i = Inr framed" "asked server k framed w"
    "heard server k full w" "reply_ok i full" "restore_id (query ! 0, query ! 1) full = Inr resp"
    using assms(1) unfolding answer_to_def by blast
  have len: "length (take 2 full) = 2" using f(4) by (simp add: reply_ok_def)
  have "be_bytes 2 i = take 2 full"
    using be_bytes_from_be_bytes[of "take 2 full", where 'a = 16] f(4) len by (simp add: reply_ok_def)
  then have full: "full = be_bytes 2 i @ drop 2 full" by simp
  have "take 2 query = [query ! 0, query ! 1]"
    using assms(2) by (cases query; cases "tl query") auto
  then have "resp = take 2 query @ drop 2 full"
    using f(4,5) restore_id_ok[of full] by (simp add: reply_ok_def)
  moreover have "be_bytes 2 i @ drop 2 full \<in> set (rd_received (dw_heap w ! k))"
    using f(3) full by (simp add: heard_def)
  ultimately show ?thesis
    using f(1,2) frame_query_ok[OF assms(2)]
    by (intro exI[of _ k] exI[of _ i] exI[of _ "drop 2 full"]) (simp add: asked_def conn_to_def)
qed

lemma finished_query_ok:
  assumes "dns_run acts (dns_init proxy qt idle net) = Some (w, js)"
    and "Query server query (Ret r) \<in> set js"
  shows "resolve_ok server query (query ! 0, query ! 1) r w"
proof -
  have "system_ok (w, js)" by (rule dns_run_ok[OF dns_init_ok assms(1)])
  then have "job_ok w (Query server query (Ret r))" using assms(2) by (simp add: system_ok_def del: job_ok.simps)
  then show ?thesis unfolding job_ok.simps by (rule on_track_Ret)
qed

text \<open>
  C3. In every interleaving of any number of DNS queries, connection readers, prunings and proxy
  changes, with connections that break, stall and answer as they like: a query that finishes does
  not panic, and when it returns a response there is one connection to the server asked on which
  the query was sent under some identifier and a message with that same identifier was read, and
  the response is that message with the client's own identifier put back.
\<close>

theorem resolved_reply_matches_query:
  assumes "dns_run acts (dns_init proxy qt idle net) = Some (w, js)"
    and "Query server query (Ret r) \<in> set js"
  shows "\<exists>res. r = Inr res \<and> (\<forall>resp. res = Inr resp \<longrightarrow>
    (\<exists>k i body. k < length (dw_heap w) \<and> rd_server (dw_heap w ! k) = server \<and>
      be_bytes 2 (of_nat (length query) :: u16) @ be_bytes 2 (i :: u16) @ drop 2 query
        \<in> set (wr_sent (cn_writer (dw_heap w ! k))) \<and>
      be_bytes 2 i @ body \<in> set (rd_received (dw_heap w ! k)) \<and>
      resp = take 2 query @ body))"
proof -
  note ok = finished_query_ok[OF assms]
  then obtain res where res: "r = Inr res" by (cases r) (simp_all add: resolve_ok_def)
  have "\<exists>k i body. k < length (dw_heap w) \<and> rd_server (dw_heap w ! k) = server \<and>
      be_bytes 2 (of_nat (length query) :: u16) @ be_bytes 2 (i :: u16) @ drop 2 query
        \<in> set (wr_sent (cn_writer (dw_heap w ! k))) \<and>
      be_bytes 2 i @ body \<in> set (rd_received (dw_heap w ! k)) \<and>
      resp = take 2 query @ body" if "res = Inr resp" for resp
  proof (rule answer_to_explicit)
    show "answer_to server query (query ! 0, query ! 1) resp w" and "2 \<le> length query"
      using ok res that by (simp_all add: resolve_ok_def)
  qed
  then show ?thesis using res by blast
qed

text \<open>
  C7. No message read from a connection is handed to two queries: in every interleaving, the
  replies that the queries of a connection have been given are, counted with repetitions, among the
  messages its reader has read.
\<close>

theorem replies_delivered_once:
  assumes "dns_run acts (dns_init proxy qt idle net) = Some (w, js)" and "k < length (dw_heap w)"
  shows "delivered (dw_chans w) k \<subseteq># mset (rd_received (dw_heap w ! k))"
proof -
  have "world_ok w" using dns_run_ok[OF dns_init_ok assms(1)] by (simp add: system_ok_def)
  from world_okD(2)[OF this assms(2)] show ?thesis
    unfolding once_def by (meson mset_subset_eq_add_left subset_mset.order_trans)
qed

subsection \<open>A concrete run\<close>

definition example_env :: "unit socket_env" where
  "example_env = \<lparr>socks5_connect = (\<lambda>_ _ _. Established ()), set_nodelay = (\<lambda>_ s. (None, s)),
     set_recv_buffer_size = (\<lambda>_ s. (None, s)), set_send_buffer_size = (\<lambda>_ s. (None, s))\<rparr>"

definition example_server :: SocketAddr where
  "example_server = SockV4 0x08080808 53"

definition example_proxy :: ProxyConfig where
  "example_proxy = \<lparr>px_addr = SockV4 0x7F000001 1080, px_username = None, px_password = None,
     px_connect_timeout = 10, px_tcp_nodelay = True\<rparr>"

definition example_query :: bytes where
  "example_query = [0xAB, 0xCD, 1, 0, 0, 1, 0, 0, 0, 0, 0, 0]"

definition example_reply :: "rx_event list" where
  "example_reply = map Byte [0, 4, 0, 0, 0x81, 0x80]"

lemma allocate_id_fresh:
  assumes "cn_inflight c = []"
  shows "allocate_id c = (Some (ucast (cn_next_id c)),
    c\<lparr>cn_next_id := cn_next_id c + 1, cn_inflight := [(ucast (cn_next_id c), Orphan)]\<rparr>)"
proof -
  have "allocate_loop (Suc 65535) c = (Some (ucast (cn_next_id c)),
    c\<lparr>cn_next_id := cn_next_id c + 1, cn_inflight := [(ucast (cn_next_id c), Orphan)]\<rparr>)"
    using assms by (simp only: allocate_loop.simps Let_def low_half hm_simps option.case)
      (simp add: hm_insert_def)
  then show ?thesis using assms by (simp add: allocate_id_def hm_len_def MAX_INFLIGHT_PER_CONN_def)
qed

lemmas task_defs = attempt_def acquire_def acquire_locked_def try_reuse_def
  open_register_def open_conn_def exchange_def finish_query_def task_try_def
  lock_conns_def unlock_conns_def lock_open_def unlock_open_def alloc_def write_frame_def await_reply_def
  load_def update_def atomic_def await_def task_bind_await

lemmas world_defs = 
  upd_pool_def upd_conn_def retain_alive_def bucket_def set_bucket_def push_conn_def count_stat_def
  register_query_def inflight_remove_def drop_sender_def deliver_def send_reply_def goto_def
  reader_step_def Conn_new_def DnsPool_new_def dns_init_def
  hm_get_def hm_insert_def hm_remove_def hm_len_def tcp_connect_def example_proxy_def
  example_env_def tune_socket_def

text \<open>The run exists, and its only job is a query that has finished with the given answer.\<close>

fun finished_with :: "SocketAddr \<Rightarrow> bytes \<Rightarrow> bytes \<Rightarrow> dns_system option \<Rightarrow> bool" where
  "finished_with server query resp (Some (w, js)) =
     (case js of [Query s q (Ret (Inr (Inr r)))] \<Rightarrow> s = server \<and> q = query \<and> r = resp | _ \<Rightarrow> False)"
| "finished_with server query resp None = False"

lemma example_frame:
  "frame_query example_query i = Inr (0 # 12 # be_bytes 2 i @ [1, 0, 0, 1, 0, 0, 0, 0, 0, 0])"
  by (subst frame_query_ok) (simp_all add: example_query_def, code_simp)

lemma example_resolve:
  "resolve example_server example_query = resolve_loop [0, 1] example_server example_query (0xAB, 0xCD) None"
  by (simp add: resolve_def example_query_def MAX_DNS_MESSAGE_def)

definition example_schedule :: "dns_action list" where
  "example_schedule =
     Ask example_server example_query # replicate 21 (RunJob 0) @
     [Arrive 0 example_reply, RunReader 0, RunReader 0, RunReader 0, RunJob 0]"

lemma example_lengths: "unat (from_be_bytes [0, 4] :: u16) = Suc (Suc (Suc (Suc 0)))" "(from_be_bytes [0, 0] :: u16) = 0"
  by code_simp+

lemma example_run:
  "finished_with example_server example_query [0xAB, 0xCD, 0x81, 0x80]
     (dns_run example_schedule (dns_init example_proxy 1 1 (\<lambda>_. example_env)))"
  by (simp add: example_resolve example_frame task_defs allocate_id_fresh Let_def eval_nat_numeral run_job_def
      world_defs MAX_CONNS_PER_TARGET_def example_schedule_def example_reply_def example_lengths
      restore_id_def set_index_def bind_panic_def)

lemma example_finished:
  obtains w where "dns_run example_schedule (dns_init example_proxy 1 1 (\<lambda>_. example_env)) =
     Some (w, [Query example_server example_query (Ret (Inr (Inr [0xAB, 0xCD, 0x81, 0x80])))])"
proof -
  let ?s = "dns_run example_schedule (dns_init example_proxy 1 1 (\<lambda>_. example_env))"
  obtain w js where s: "?s = Some (w, js)" using example_run by (cases ?s) auto
  have "js = [Query example_server example_query (Ret (Inr (Inr [0xAB, 0xCD, 0x81, 0x80])))]"
    using example_run unfolding s finished_with.simps
    by (cases js; cases "tl js") (simp_all split: dns_job.splits task.splits sum.splits)
  then show thesis using that s by blast
qed

theorem resolved_reply_matches_query_witness:
  "\<exists>w k i body. dns_run example_schedule (dns_init example_proxy 1 1 (\<lambda>_. example_env)) =
     Some (w, [Query example_server example_query (Ret (Inr (Inr [0xAB, 0xCD, 0x81, 0x80])))]) \<and>
     k < length (dw_heap w) \<and> be_bytes 2 (i :: u16) @ body \<in> set (rd_received (dw_heap w ! k)) \<and>
     [0xAB, 0xCD, 0x81, 0x80] = take 2 example_query @ body"
proof -
  obtain w where w: "dns_run example_schedule (dns_init example_proxy 1 1 (\<lambda>_. example_env)) =
     Some (w, [Query example_server example_query (Ret (Inr (Inr [0xAB, 0xCD, 0x81, 0x80])))])"
    by (rule example_finished)
  from resolved_reply_matches_query[OF this] w show ?thesis by force
qed

theorem replies_delivered_once_witness:
  "\<exists>w js k. dns_run example_schedule (dns_init example_proxy 1 1 (\<lambda>_. example_env)) = Some (w, js) \<and>
     k < length (dw_heap w) \<and> delivered (dw_chans w) k \<subseteq># mset (rd_received (dw_heap w ! k))"
proof -
  obtain w where w: "dns_run example_schedule (dns_init example_proxy 1 1 (\<lambda>_. example_env)) =
     Some (w, [Query example_server example_query (Ret (Inr (Inr [0xAB, 0xCD, 0x81, 0x80])))])"
    by (rule example_finished)
  have "resolve_ok example_server example_query (example_query ! 0, example_query ! 1)
      (Inr (Inr [0xAB, 0xCD, 0x81, 0x80])) w"
    by (rule finished_query_ok[OF w]) simp
  then obtain k where "k < length (dw_heap w)"
    using answer_to_explicit[of example_server example_query _ w] by (auto simp: resolve_ok_def)
  then show ?thesis using replies_delivered_once[OF w] w by blast
qed

end
