(* ===== verification/Dns_Limits.thy ===== *)
theory Dns_Limits
  imports Dns_Matching
begin

text \<open>
  The limit on the number of pooled connections per DNS server: what happens to a query when all
  connections to its server are alive and busy.
\<close>

section \<open>The limit on connections\<close>

definition full_conn :: "dns_world \<Rightarrow> conn_ref \<Rightarrow> bool" where
  "full_conn w k \<longleftrightarrow> cn_alive (dw_heap w ! k) \<and>
     hm_len (cn_inflight (dw_heap w ! k)) \<ge> MAX_INFLIGHT_PER_CONN"

definition conns_lock :: "bool \<Rightarrow> dns_world \<Rightarrow> dns_world" where
  "conns_lock b = upd_pool (dp_conns_locked_update (\<lambda>_. b))"

definition open_lock :: "bool \<Rightarrow> dns_world \<Rightarrow> dns_world" where
  "open_lock b = upd_pool (dp_open_locked_update (\<lambda>_. b))"

lemma lock_simps [simp]:
  "dw_heap (conns_lock b w) = dw_heap w" "dw_heap (open_lock b w) = dw_heap w"
  "bucket server (conns_lock b w) = bucket server w" "bucket server (open_lock b w) = bucket server w"
  "dp_conns_locked (dw_pool (conns_lock b w)) = b" "dp_open_locked (dw_pool (conns_lock b w)) = dp_open_locked (dw_pool w)"
  "dp_open_locked (dw_pool (open_lock b w)) = b" "dp_conns_locked (dw_pool (open_lock b w)) = dp_conns_locked (dw_pool w)"
  "dw_net (conns_lock b w) = dw_net w" "dw_net (open_lock b w) = dw_net w"
  "dw_dials (conns_lock b w) = dw_dials w" "dw_dials (open_lock b w) = dw_dials w"
  "dp_proxy (dw_pool (conns_lock b w)) = dp_proxy (dw_pool w)" "dp_proxy (dw_pool (open_lock b w)) = dp_proxy (dw_pool w)"
  by (simp_all add: conns_lock_def open_lock_def upd_pool_def bucket_def)

lemma reaches_locks:
  "\<not> dp_conns_locked (dw_pool w) \<Longrightarrow> reaches lock_conns w (Ret ()) (conns_lock True w)"
  "reaches unlock_conns w (Ret ()) (conns_lock False w)"
  "\<not> dp_open_locked (dw_pool w) \<Longrightarrow> reaches lock_open w (Ret ()) (open_lock True w)"
  "reaches unlock_open w (Ret ()) (open_lock False w)"
  unfolding lock_conns_def unlock_conns_def lock_open_def unlock_open_def conns_lock_def open_lock_def
  by (rule reaches_await reaches_update; simp)+

lemma scan_full:
  "(\<And>k. k \<in> set ks \<Longrightarrow> full_conn w k) \<Longrightarrow> reaches (reuse_scan ks) w (Ret None) (conns_lock False w)"
proof (induction ks)
  case Nil
  show ?case unfolding reuse_scan.simps by (rule reaches_seq[OF reaches_locks(2) reaches_refl])
next
  case (Cons k ks)
  have "allocate_id (dw_heap w ! k) = (None, dw_heap w ! k)"
    using Cons.prems[of k] by (simp add: full_conn_def allocate_id_def)
  then have "reaches (alloc k) w (Ret None) w"
    unfolding alloc_def by (intro reaches_atomic) (simp add: upd_conn_def)
  then show ?case unfolding reuse_scan.simps
    by (rule reaches_seq) (simp add: Cons)
qed

text \<open>A bucket without dead connections is stored back as it was found.\<close>

definition settled :: "SocketAddr \<Rightarrow> dns_world \<Rightarrow> dns_world" where
  "settled server w = set_bucket server (bucket server w) w"

lemma settled_simps [simp]:
  "dw_heap (settled server w) = dw_heap w" "bucket server (settled server w) = bucket server w"
  "dp_conns_locked (dw_pool (settled server w)) = dp_conns_locked (dw_pool w)"
  "dp_open_locked (dw_pool (settled server w)) = dp_open_locked (dw_pool w)"
  "dw_net (settled server w) = dw_net w" "dw_dials (settled server w) = dw_dials w"
  "dp_proxy (dw_pool (settled server w)) = dp_proxy (dw_pool w)"
  by (simp_all add: settled_def set_bucket_def upd_pool_def bucket_def hm_get_def hm_insert_def update_conv')

lemma full_conn_cong [simp]:
  "full_conn (conns_lock b w) = full_conn w" "full_conn (open_lock b w) = full_conn w"
  "full_conn (settled server w) = full_conn w"
  by (simp_all add: full_conn_def fun_eq_iff)

lemma retain_full:
  assumes "\<And>k. k \<in> set (bucket server w) \<Longrightarrow> full_conn w k"
  shows "reaches (atomic (retain_alive server)) w (Ret (bucket server w)) (settled server w)"
proof -
  have "filter (\<lambda>k. cn_alive (dw_heap w ! k)) (bucket server w) = bucket server w"
    using assms by (intro filter_True) (simp add: full_conn_def)
  then show ?thesis by (intro reaches_atomic) (simp add: retain_alive_def settled_def Let_def)
qed

lemma reuse_full:
  assumes "\<And>k. k \<in> set (bucket server w) \<Longrightarrow> full_conn w k" and "\<not> dp_conns_locked (dw_pool w)"
  shows "reaches (try_reuse server) w (Ret None) (conns_lock False (settled server (conns_lock True w)))"
  unfolding try_reuse_def
  by (rule reaches_seq[OF reaches_locks(1)[OF assms(2)]], rule reaches_seq[OF retain_full])
    (use assms(1) in \<open>auto intro: scan_full\<close>)

text \<open>Everything about a world in which the server's bucket is full of busy connections.\<close>

definition exhausted :: "SocketAddr \<Rightarrow> conn_ref list \<Rightarrow> reader_conn list \<Rightarrow> dns_world \<Rightarrow> bool" where
  "exhausted server b heap w \<longleftrightarrow>
     bucket server w = b \<and> dw_heap w = heap \<and> (\<forall>k\<in>set b. k < length heap \<and> full_conn w k) \<and>
     MAX_CONNS_PER_TARGET \<le> length b \<and> \<not> dp_conns_locked (dw_pool w) \<and> \<not> dp_open_locked (dw_pool w) \<and>
     (\<exists>s. tcp_connect (dw_net w (dw_dials w)) (dp_proxy (dw_pool w)) server = Inr s)"

lemma acquire_exhausted:
  assumes ex: "exhausted server b heap w"
  shows "\<exists>v. exhausted server b heap v \<and>
    reaches (acquire server) w (Ret (Inl [''DNS connection pool exhausted for '' @ show_socket_addr server])) v"
proof -
  let ?m = "[''DNS connection pool exhausted for '' @ show_socket_addr server]"
  let ?r = "\<lambda>w. conns_lock False (settled server (conns_lock True w))"
  let ?w1 = "?r w" let ?w2 = "open_lock True ?w1" let ?w3 = "?r ?w2" let ?w4 = "?r ?w3"
  have w: "\<And>k. k \<in> set (bucket server w) \<Longrightarrow> full_conn w k" "\<not> dp_conns_locked (dw_pool w)"
    "\<not> dp_open_locked (dw_pool w)" "MAX_CONNS_PER_TARGET \<le> length (bucket server w)"
    using ex by (simp_all add: exhausted_def)
  have reuse: "reaches (try_reuse server) u (Ret None) (?r u)" if "u = w \<or> u = ?w2" for u
    using that w(1,2) by (intro reuse_full) auto
  have checked: "reaches (task_bind lock_conns (\<lambda>_. task_bind (atomic (retain_alive server)) (\<lambda>b.
      task_bind unlock_conns (\<lambda>_. if MAX_CONNS_PER_TARGET \<le> length b then Ret (Inl ?m)
        else open_register server)))) ?w3 (Ret (Inl ?m)) ?w4"
    by (rule reaches_seq[OF reaches_locks(1) reaches_seq[OF retain_full reaches_seq[OF reaches_locks(2)]]])
      (use w in \<open>simp_all add: reaches_refl\<close>)
  have locked: "reaches (acquire_locked server) ?w2 (Ret (Inl ?m)) ?w4"
    unfolding acquire_locked_def
    by (rule reaches_seq[OF reuse]) (simp, unfold option.case, rule checked)
  have "reaches (task_bind lock_open (\<lambda>_. task_bind (acquire_locked server) (\<lambda>v.
      task_bind unlock_open (\<lambda>_. Ret v)))) ?w1 (Ret (Inl ?m)) (open_lock False ?w4)"
    by (rule reaches_seq[OF reaches_locks(3) reaches_seq[OF locked reaches_seq[OF reaches_locks(4) reaches_refl]]])
      (use w(3) in simp)
  then have "reaches (acquire server) w (Ret (Inl ?m)) (open_lock False ?w4)"
    unfolding acquire_def
    by (intro reaches_seq[OF reuse]) (simp, unfold option.case)
  moreover have "exhausted server b heap (open_lock False ?w4)"
    using ex by (simp add: exhausted_def)
  ultimately show ?thesis by blast
qed

text \<open>A forced connection: opened, given its first identifier, and added to the bucket.\<close>

lemma forced_open:
  assumes ex: "exhausted server b heap w"
  shows "\<exists>v i. bucket server v = b @ [length heap] \<and> length (dw_heap v) = Suc (length heap) \<and>
    take (length heap) (dw_heap v) = heap \<and> cn_alive (dw_heap v ! length heap) \<and>
    reaches (open_and_register server) w (Ret (Inr (length heap, i, False))) v"
proof -
  obtain s where s: "tcp_connect (dw_net w (dw_dials w)) (dp_proxy (dw_pool w)) server = Inr s"
    and heap: "dw_heap w = heap" and b: "bucket server w = b"
    and locks: "\<not> dp_conns_locked (dw_pool w)" "\<not> dp_open_locked (dw_pool w)"
    using ex by (auto simp: exhausted_def)
  let ?k = "length heap" and ?c = "Conn_new server (dw_now w)"
  let ?w1 = "open_lock True w"
  let ?w2 = "?w1\<lparr>dw_dials := Suc (dw_dials w), dw_heap := heap @ [?c]\<rparr>"
  obtain c where alloc: "allocate_id ?c = (Some 0, c)" and c: "cn_alive c"
    using allocate_id_fresh[of ?c] by (simp add: Conn_new_def)
  let ?w3 = "upd_conn ?k (\<lambda>_. c) ?w2"
  let ?w4 = "conns_lock True ?w3"
  let ?w5 = "count_stat DNS_POOL_MISSES (push_conn server ?k ?w4)"
  let ?v = "open_lock False (conns_lock False ?w5)"
  have dial: "reaches (open_conn server) ?w1 (Ret (Inr ?k)) ?w2"
    unfolding open_conn_def
    by (rule reaches_seq[OF reaches_load], rule reaches_atomic)
      (use s heap in \<open>simp add: Let_def open_lock_def upd_pool_def\<close>)
  have first: "reaches (alloc ?k) ?w2 (Ret (Some 0)) ?w3"
    unfolding alloc_def by (rule reaches_atomic) (simp add: alloc)
  have reg: "reaches (open_register server) ?w1 (Ret (Inr (?k, 0, False))) (conns_lock False ?w5)"
    unfolding open_register_def task_try_def
    by (rule reaches_seq[OF dial], unfold sum.case,
        rule reaches_seq[OF reaches_seq[OF first reaches_refl]], unfold context_opt_simps sum.case,
        rule reaches_seq[OF reaches_locks(1) reaches_seq[OF reaches_update reaches_seq[OF reaches_locks(2) reaches_refl]]])
      (use locks in \<open>simp add: upd_conn_def open_lock_def upd_pool_def\<close>)
  have "reaches (open_and_register server) w (Ret (Inr (?k, 0, False))) ?v"
    unfolding open_and_register_def
    by (rule reaches_seq[OF reaches_locks(3) reaches_seq[OF reg reaches_seq[OF reaches_locks(4) reaches_refl]]])
      (rule locks)
  moreover have "bucket server ?v = b @ [?k]" "dw_heap ?v = heap @ [c]"
    using b by (simp_all add: count_stat_def push_conn_def set_bucket_def upd_pool_def bucket_def
        upd_conn_def open_lock_def conns_lock_def hm_get_def hm_insert_def update_conv')
  ultimately show ?thesis using c by (intro exI[of _ ?v] exI[of _ 0]) simp
qed

text \<open>
  C36. The limit of eight connections per server does not hold. When a server's connections are all
  alive and full and there are eight of them or more, a query is first told that the pool is
  exhausted, and its second attempt opens and registers one more connection all the same: the
  number of live connections grows with every query.
\<close>

theorem exhausted_pool_opens_more:
  assumes "exhausted server b heap w" and "12 \<le> length query" and "length query \<le> MAX_DNS_MESSAGE"
  shows "\<exists>t v. reaches (resolve server query) w t v \<and>
    bucket server v = b @ [length heap] \<and> (\<forall>k\<in>set (bucket server v). cn_alive (dw_heap v ! k))"
proof -
  let ?oid = "(query ! 0, query ! 1)"
  obtain u where u: "exhausted server b heap u" and
    acq: "reaches (acquire server) w (Ret (Inl [''DNS connection pool exhausted for '' @ show_socket_addr server])) u"
    using acquire_exhausted[OF assms(1)] by blast
  obtain v i where v: "bucket server v = b @ [length heap]" "length (dw_heap v) = Suc (length heap)"
      "take (length heap) (dw_heap v) = heap" "cn_alive (dw_heap v ! length heap)"
    and reg: "reaches (open_and_register server) u (Ret (Inr (length heap, i, False))) v"
    using forced_open[OF u] by blast
  have "reaches (attempt server query ?oid False) w (Ret (Inr (OutcomeRetry
      [''DNS connection pool exhausted for '' @ show_socket_addr server]))) u"
    unfolding attempt_def if_False by (rule reaches_seq[OF acq]) (unfold sum.case, rule reaches_refl)
  then have first: "reaches (resolve server query) w
      (resolve_loop [1] server query ?oid (Some [''DNS connection pool exhausted for '' @ show_socket_addr server])) u"
    using assms(2,3) unfolding resolve_def
    by (simp del: resolve_loop.simps(2) append.simps add: resolve_loop.simps(2)[of 0])
      (erule reaches_seq, simp add: reaches_refl)
  have "reaches (attempt server query ?oid True) u (exchange query ?oid (length heap) i) v"
    unfolding attempt_def if_True by (rule reaches_seq[OF reg]) (simp add: reaches_refl)
  then have second: "\<exists>t. reaches (resolve_loop [1] server query ?oid e) u t v" for e
    by (auto dest: reaches_bind)
  have "cn_alive (dw_heap v ! k)" if k: "k \<in> set (bucket server v)" for k
  proof (cases "k = length heap")
    case False
    then have "k < length heap" "cn_alive (heap ! k)"
      using k v(1) assms(1) by (auto simp: exhausted_def full_conn_def)
    then show ?thesis using nth_take[of k "length heap" "dw_heap v"] v(3) by simp
  qed (use v(4) in simp)
  then show ?thesis using second reaches_trans[OF first] v(1) by blast
qed

definition example_busy :: dns_world where
  "example_busy =
     \<lparr>dw_pool = (DnsPool_new example_proxy 5 30)\<lparr>dp_conns := [(example_server, [0, 1, 2, 3, 4, 5, 6, 7])]\<rparr>,
      dw_heap = replicate 8 ((Conn_new example_server 0)\<lparr>
        cn_inflight := map (\<lambda>i. (of_nat i, Orphan)) [0..<256]\<rparr>),
      dw_chans = [], dw_stats = stats_init, dw_now = 0, dw_dials = 8, dw_net = (\<lambda>_. example_env)\<rparr>"

lemma example_busy_exhausted:
  "exhausted example_server [0, 1, 2, 3, 4, 5, 6, 7] (dw_heap example_busy) example_busy"
  by (simp add: exhausted_def example_busy_def bucket_def full_conn_def DnsPool_new_def hm_get_def
      hm_len_def Conn_new_def MAX_CONNS_PER_TARGET_def MAX_INFLIGHT_PER_CONN_def tcp_connect_def
      example_env_def example_proxy_def)

theorem exhausted_pool_opens_more_witness:
  "\<exists>t v. reaches (resolve example_server example_query) example_busy t v \<and>
    bucket example_server v = [0, 1, 2, 3, 4, 5, 6, 7, 8]"
proof -
  have "12 \<le> length example_query" "length example_query \<le> MAX_DNS_MESSAGE"
    "length (dw_heap example_busy) = 8"
    by (simp_all add: example_query_def MAX_DNS_MESSAGE_def example_busy_def)
  then show ?thesis using exhausted_pool_opens_more[OF example_busy_exhausted, of example_query] by force
qed

end
