(* ===== verification/Logging.thy ===== *)
theory Logging
  imports Rust_Text
begin

text \<open>
  \<^verbatim>\<open>src/logging.rs\<close>: the logger is the sending end of an unbounded channel. The
  channel's content is the list of messages sent so far, oldest first; a send to it cannot block
  and its result is ignored by the source.
\<close>

datatype LogMessage = Info string | Warn string | Error string | Debug string

record Logger =
  log_sent :: "LogMessage list"
  log_verbose :: bool

definition Logger_new :: "bool \<Rightarrow> Logger" where
  "Logger_new v = \<lparr>log_sent = [], log_verbose = v\<rparr>"

definition log_info :: "string \<Rightarrow> Logger \<Rightarrow> Logger" where
  "log_info msg l = l\<lparr>log_sent := log_sent l @ [Info msg]\<rparr>"

definition log_warn :: "string \<Rightarrow> Logger \<Rightarrow> Logger" where
  "log_warn msg l = l\<lparr>log_sent := log_sent l @ [Warn msg]\<rparr>"

definition log_error :: "string \<Rightarrow> Logger \<Rightarrow> Logger" where
  "log_error msg l = l\<lparr>log_sent := log_sent l @ [Error msg]\<rparr>"

text \<open>A debug message is built only when the logger is verbose: the closure is not called otherwise.\<close>

definition log_debug :: "(unit \<Rightarrow> string) \<Rightarrow> Logger \<Rightarrow> Logger" where
  "log_debug msg l =
     (if log_verbose l then l\<lparr>log_sent := log_sent l @ [Debug (msg ())]\<rparr> else l)"

lemmas log_defs = log_info_def log_warn_def log_error_def log_debug_def

end
