(* ===== verification/Reload.thy ===== *)
theory Reload
  imports Config
begin

text \<open>
  \<^verbatim>\<open>src/reload.rs\<close>: the settings shared by the tasks and the plan that turns one
  configuration into another while the tunnel runs. The accessors of the configuration may panic,
  so computing a plan may as well; it does not for configurations that passed validation.
\<close>

section \<open>Shared settings\<close>

record Shared =
  sh_proxy :: ProxyConfig
  sh_routes :: RouteTable

definition Shared_new :: "ProxyConfig \<Rightarrow> RouteTable \<Rightarrow> Shared" where
  "Shared_new proxy routes = \<lparr>sh_proxy = proxy, sh_routes = routes\<rparr>"

definition store_proxy :: "ProxyConfig \<Rightarrow> Shared \<Rightarrow> Shared" where
  "store_proxy proxy sh = sh\<lparr>sh_proxy := proxy\<rparr>"

definition store_routes :: "RouteTable \<Rightarrow> Shared \<Rightarrow> Shared" where
  "store_routes routes sh = sh\<lparr>sh_routes := routes\<rparr>"

section \<open>What changed\<close>

definition IMMUTABLE_FIELDS :: "string list" where
  "IMMUTABLE_FIELDS = [''tun_name'', ''tun_ip'', ''metrics_addr'']"

definition immutable_changes :: "Config \<Rightarrow> Config \<Rightarrow> string list" where
  "immutable_changes old new =
     (let changed = [];
          changed = (if tun_name old \<noteq> tun_name new then changed @ [''tun_name''] else changed);
          changed = (if tun_ip old \<noteq> tun_ip new then changed @ [''tun_ip''] else changed);
          changed = (if metrics_addr old \<noteq> metrics_addr new then changed @ [''metrics_addr''] else changed)
      in changed)"

record ReloadPlan =
  pl_proxy :: ProxyConfig
  pl_route_table :: RouteTable
  pl_new_bypass :: CidrList
  pl_bypass_add :: CidrList
  pl_bypass_remove :: CidrList
  pl_dns :: "IpAddr option"
  pl_dns_changed :: bool
  pl_proxy_route_change :: "(IpAddr \<times> IpAddr) option"
  pl_proxy_changed :: bool

definition ReloadPlan_compute :: "Config \<Rightarrow> Config \<Rightarrow> ReloadPlan may_panic" where
  "ReloadPlan_compute old new =
     bind_panic (bypass_routes old) (\<lambda>old_bypass.
     bind_panic (bypass_routes new) (\<lambda>new_bypass.
     let (bypass_add, bypass_remove) = diff_cidrs old_bypass new_bypass in
     bind_panic (proxy_socket_addr old) (\<lambda>old_proxy.
     bind_panic (proxy_socket_addr new) (\<lambda>new_proxy.
     let proxy_route_change =
           (if sock_ip old_proxy \<noteq> sock_ip new_proxy
            then Some (sock_ip old_proxy, sock_ip new_proxy) else None);
         proxy_changed =
           (old_proxy \<noteq> new_proxy \<or> username old \<noteq> username new \<or> password old \<noteq> password new) in
     bind_panic (ProxyConfig_from_config new) (\<lambda>proxy.
     bind_panic (dns_addr new) (\<lambda>new_dns.
     bind_panic (dns_addr old) (\<lambda>old_dns.
     Inr \<lparr>pl_proxy = proxy, pl_route_table = RouteTable_new new_bypass,
          pl_new_bypass = new_bypass, pl_bypass_add = bypass_add, pl_bypass_remove = bypass_remove,
          pl_dns = new_dns, pl_dns_changed = (old_dns \<noteq> new_dns),
          pl_proxy_route_change = proxy_route_change, pl_proxy_changed = proxy_changed\<rparr>)))))))"

definition is_noop :: "ReloadPlan \<Rightarrow> bool" where
  "is_noop plan \<longleftrightarrow>
     pl_bypass_add plan = [] \<and> pl_bypass_remove plan = [] \<and> \<not> pl_dns_changed plan \<and>
     pl_proxy_route_change plan = None \<and> \<not> pl_proxy_changed plan"

section \<open>Plans\<close>

lemma ReloadPlan_compute_total:
  assumes "Config_validate old = Inr ()" and "Config_validate new = Inr ()"
  shows "\<exists>plan. ReloadPlan_compute old new = Inr plan"
  using validated_accessors[OF assms(1)] validated_accessors[OF assms(2)]
  by (fastforce simp: ReloadPlan_compute_def split_beta Let_def)

lemma ReloadPlan_computeE:
  assumes "ReloadPlan_compute old new = Inr plan"
  obtains ob nb oa na px od nd where
    "bypass_routes old = Inr ob" "bypass_routes new = Inr nb"
    "proxy_socket_addr old = Inr oa" "proxy_socket_addr new = Inr na"
    "ProxyConfig_from_config new = Inr px" "dns_addr old = Inr od" "dns_addr new = Inr nd"
    "plan = \<lparr>pl_proxy = px, pl_route_table = RouteTable_new nb, pl_new_bypass = nb,
       pl_bypass_add = fst (diff_cidrs ob nb), pl_bypass_remove = snd (diff_cidrs ob nb),
       pl_dns = nd, pl_dns_changed = (od \<noteq> nd),
       pl_proxy_route_change =
         (if sock_ip oa \<noteq> sock_ip na then Some (sock_ip oa, sock_ip na) else None),
       pl_proxy_changed = (oa \<noteq> na \<or> username old \<noteq> username new \<or> password old \<noteq> password new)\<rparr>"
  using assms
  by (auto simp: ReloadPlan_compute_def bind_panic_Inr_iff split_beta Let_def)

text \<open>
  C30. For validated configurations a plan is always computed, and it is a no-op exactly when the
  two configurations have the same bypass blocks, the same DNS server in force and the same proxy
  settings: a change of any of these is never skipped.
\<close>

theorem reload_noop_iff:
  assumes "Config_validate old = Inr ()" and "Config_validate new = Inr ()"
  shows "\<exists>plan. ReloadPlan_compute old new = Inr plan \<and>
    (is_noop plan \<longleftrightarrow>
       (\<exists>ob nb. bypass_routes old = Inr ob \<and> bypass_routes new = Inr nb \<and> set ob = set nb) \<and>
       dns_addr old = dns_addr new \<and> ProxyConfig_from_config old = ProxyConfig_from_config new)"
proof -
  obtain plan where plan: "ReloadPlan_compute old new = Inr plan"
    using ReloadPlan_compute_total[OF assms] by blast
  then obtain ob nb oa na px od nd where p:
    "bypass_routes old = Inr ob" "bypass_routes new = Inr nb"
    "proxy_socket_addr old = Inr oa" "proxy_socket_addr new = Inr na"
    "dns_addr old = Inr od" "dns_addr new = Inr nd"
    "pl_bypass_add plan = fst (diff_cidrs ob nb)" "pl_bypass_remove plan = snd (diff_cidrs ob nb)"
    "pl_dns_changed plan = (od \<noteq> nd)"
    "pl_proxy_route_change plan =
       (if sock_ip oa \<noteq> sock_ip na then Some (sock_ip oa, sock_ip na) else None)"
    "pl_proxy_changed plan = (oa \<noteq> na \<or> username old \<noteq> username new \<or> password old \<noteq> password new)"
    by (rule ReloadPlan_computeE) simp
  have "pl_bypass_add plan = [] \<and> pl_bypass_remove plan = [] \<longleftrightarrow> set ob = set nb"
    using p(7,8) diff_cidrs_empty_iff[of ob nb] by (simp add: prod_eq_iff)
  moreover have "ProxyConfig_from_config old = ProxyConfig_from_config new \<longleftrightarrow> \<not> pl_proxy_changed plan"
    using p by (auto simp: ProxyConfig_from_config_def)
  moreover have "pl_proxy_route_change plan = None" if "\<not> pl_proxy_changed plan"
    using that p by simp
  ultimately show ?thesis using plan p by (auto simp: is_noop_def)
qed

abbreviation cfg_no_dns :: Config where
  "cfg_no_dns \<equiv> Config_default\<lparr>override_dns := False\<rparr>"

lemma cfg_no_dns_valid: "Config_validate cfg_no_dns = Inr ()"
  using Config_default_valid by (simp add: Config_validate_ok_iff config_ok_def)

theorem reload_noop_iff_witness:
  "\<exists>plan. ReloadPlan_compute Config_default cfg_no_dns = Inr plan \<and> \<not> is_noop plan"
proof -
  have "dns_addr Config_default \<noteq> dns_addr cfg_no_dns"
    by (simp add: dns_addr_def Config_default_def default_override_dns_def default_dns_server_def
        default_parses)
  then show ?thesis
    using reload_noop_iff[OF Config_default_valid cfg_no_dns_valid] by blast
qed

text \<open>
  Exactly the changes of the tunnel name, the tunnel address and the metrics address are
  reported as needing a restart, each once and in that order.
\<close>

theorem immutable_changes_exact:
  "immutable_changes old new =
     filter (\<lambda>f. (f = ''tun_name'' \<and> tun_name old \<noteq> tun_name new) \<or>
                 (f = ''tun_ip'' \<and> tun_ip old \<noteq> tun_ip new) \<or>
                 (f = ''metrics_addr'' \<and> metrics_addr old \<noteq> metrics_addr new)) IMMUTABLE_FIELDS"
  by (simp add: immutable_changes_def IMMUTABLE_FIELDS_def)



end
