(* ===== verification/Udp.thy ===== *)
theory Udp
  imports Dns_Pool Logging Reload
begin

text \<open>
  \<^verbatim>\<open>src/udp.rs\<close>: the UDP side of the tunnel. One dispatcher hands the datagrams of
  each client address to a session of its own, at most \<open>max_sessions\<close> of them; each session is a
  task that relays between its queue and a SOCKS5 association. DNS datagrams go to the pool instead,
  under a semaphore. The dispatcher's two handlers, the body of the session's loop and the DNS task
  are functions; \<open>udp_step\<close> lets the dispatcher, the tasks, the writer and the network act in any
  order.
\<close>

section \<open>Data\<close>

type_synonym UdpMsg = "bytes \<times> SocketAddr \<times> SocketAddr"  \<comment> \<open>payload, remote, local\<close>

definition MAX_DATAGRAM :: nat where
  "MAX_DATAGRAM = 65535"

definition REPLY_CHANNEL_DEPTH :: nat where
  "REPLY_CHANNEL_DEPTH = 2048"

definition SESSION_CHANNEL_DEPTH :: nat where
  "SESSION_CHANNEL_DEPTH = 256"

definition DONE_CHANNEL_DEPTH :: nat where
  "DONE_CHANNEL_DEPTH = 256"

definition DNS_PORT :: u16 where
  "DNS_PORT = 53"

record UdpOptions =
  uo_idle_timeout :: nat
  uo_max_sessions :: nat
  uo_dns_over_tcp :: bool

text \<open>
  A session's task and its queue. The queue's receiver lives as long as \<^verbatim>\<open>session_task\<close>
  runs, its sender as long as the dispatcher keeps the session. \<open>st_accepted\<close>, \<open>st_frames\<close> and
  \<open>st_heard\<close> record the datagrams put into the queue, the frames sent to the relay and the datagrams
  received from it.
\<close>

datatype session_phase = Spawned | Associating | Relaying | Reporting | Finished

record session =
  st_src :: SocketAddr
  st_proxy :: ProxyConfig
  st_phase :: session_phase
  st_queue :: "(SocketAddr \<times> bytes) list"
  st_sender :: bool
  st_accepted :: "(SocketAddr \<times> bytes) list"
  st_frames :: "bytes list"
  st_heard :: "bytes list"

definition receiving :: "session \<Rightarrow> bool" where
  "receiving s \<longleftrightarrow> st_phase s = Spawned \<or> st_phase s = Associating \<or> st_phase s = Relaying"

text \<open>A DNS task: the server asked, the client, the query; \<open>dq_answers\<close> records what the pool answered.\<close>

datatype dns_phase = DnsSpawned | DnsAsking | DnsReplying bytes | DnsFinished

record dns_query =
  dq_dst :: SocketAddr
  dq_src :: SocketAddr
  dq_payload :: bytes
  dq_phase :: dns_phase
  dq_answers :: "bytes list"

record udp_world =
  uw_running :: bool
  uw_sessions :: "(SocketAddr, nat) hashmap"
  uw_tasks :: "session list"
  uw_done :: "SocketAddr list"
  uw_permits :: nat
  uw_dns :: "dns_query list"
  uw_replies :: "UdpMsg list"
  uw_writer :: bool
  uw_delivered :: "UdpMsg list"
  uw_shared :: Shared
  uw_stats :: stats
  uw_log :: Logger

definition upd_task :: "nat \<Rightarrow> (session \<Rightarrow> session) \<Rightarrow> udp_world \<Rightarrow> udp_world" where
  "upd_task i f w = w\<lparr>uw_tasks := (uw_tasks w)[i := f (uw_tasks w ! i)]\<rparr>"

definition upd_dns :: "nat \<Rightarrow> (dns_query \<Rightarrow> dns_query) \<Rightarrow> udp_world \<Rightarrow> udp_world" where
  "upd_dns j f w = w\<lparr>uw_dns := (uw_dns w)[j := f (uw_dns w ! j)]\<rparr>"

definition upd_stats :: "(stats \<Rightarrow> stats) \<Rightarrow> udp_world \<Rightarrow> udp_world" where
  "upd_stats f w = w\<lparr>uw_stats := f (uw_stats w)\<rparr>"

definition udp_debug :: "string \<Rightarrow> udp_world \<Rightarrow> udp_world" where
  "udp_debug msg w = w\<lparr>uw_log := log_debug (\<lambda>_. msg) (uw_log w)\<rparr>"

section \<open>The dispatcher\<close>

definition udp_init :: "UdpOptions \<Rightarrow> Shared \<Rightarrow> Logger \<Rightarrow> udp_world" where
  "udp_init opts shared log =
     \<lparr>uw_running = True, uw_sessions = [], uw_tasks = [], uw_done = [],
      uw_permits = uo_max_sessions opts, uw_dns = [], uw_replies = [], uw_writer = True,
      uw_delivered = [], uw_shared = shared, uw_stats = stats_init, uw_log = log\<rparr>"

definition is_closed :: "nat \<Rightarrow> udp_world \<Rightarrow> bool" where
  "is_closed i w \<longleftrightarrow> \<not> receiving (uw_tasks w ! i)"

definition handle_done :: "SocketAddr \<Rightarrow> udp_world \<Rightarrow> udp_world" where
  "handle_done dead w =
     (case hm_get (uw_sessions w) dead of
        Some existing \<Rightarrow>
          if is_closed existing w then w\<lparr>uw_sessions := hm_remove dead (uw_sessions w)\<rparr> else w
      | None \<Rightarrow> w)"

definition new_session :: "SocketAddr \<Rightarrow> ProxyConfig \<Rightarrow> session" where
  "new_session src proxy =
     \<lparr>st_src = src, st_proxy = proxy, st_phase = Spawned, st_queue = [], st_sender = True,
      st_accepted = [], st_frames = [], st_heard = []\<rparr>"

definition spawn_session :: "SocketAddr \<Rightarrow> ProxyConfig \<Rightarrow> udp_world \<Rightarrow> nat \<times> udp_world" where
  "spawn_session src proxy w =
     (length (uw_tasks w), w\<lparr>uw_tasks := uw_tasks w @ [new_session src proxy]\<rparr>)"

text \<open>\<open>try_send\<close> fails when the queue is full or its receiver is gone; it never waits.\<close>

definition try_send :: "nat \<Rightarrow> SocketAddr \<times> bytes \<Rightarrow> udp_world \<Rightarrow> bool \<times> udp_world" where
  "try_send i x w =
     (if is_closed i w \<or> length (st_queue (uw_tasks w ! i)) \<ge> SESSION_CHANNEL_DEPTH then (False, w)
      else (True, upd_task i (\<lambda>s. s\<lparr>st_queue := st_queue s @ [x], st_accepted := st_accepted s @ [x]\<rparr>) w))"

definition count_packet :: "bytes \<Rightarrow> SocketAddr \<Rightarrow> udp_world \<Rightarrow> udp_world" where
  "count_packet payload dst =
     upd_stats (record_traffic (sock_ip dst) (of_nat (length payload))
       \<circ> stats_add BYTES_TX (of_nat (length payload)) \<circ> stats_inc UDP_PACKETS)"

definition dispatch_dns :: "bytes \<Rightarrow> SocketAddr \<Rightarrow> SocketAddr \<Rightarrow> udp_world \<Rightarrow> udp_world" where
  "dispatch_dns payload src dst w =
     (if uw_permits w > 0
      then w\<lparr>uw_permits := uw_permits w - 1,
             uw_dns := uw_dns w @ [\<lparr>dq_dst = dst, dq_src = src, dq_payload = payload,
               dq_phase = DnsSpawned, dq_answers = []\<rparr>]\<rparr>
      else udp_debug (''dns concurrency limit reached, dropping '' @ show_socket_addr src)
             (upd_stats (stats_inc DNS_FAILURES \<circ> stats_inc UDP_ERRORS) w))"

definition forward :: "bytes \<Rightarrow> SocketAddr \<Rightarrow> SocketAddr \<Rightarrow> udp_world \<Rightarrow> udp_world" where
  "forward payload src dst w =
     (case hm_get (uw_sessions w) src of
        Some i \<Rightarrow>
          (case try_send i (dst, payload) w of
             (True, w') \<Rightarrow> w'
           | (False, w') \<Rightarrow> upd_stats (stats_inc UDP_ERRORS) w')
      | None \<Rightarrow> w)"

definition dispatch_session :: "UdpOptions \<Rightarrow> bytes \<Rightarrow> SocketAddr \<Rightarrow> SocketAddr \<Rightarrow> udp_world \<Rightarrow> udp_world" where
  "dispatch_session opts payload src dst w =
     (let live = (case hm_get (uw_sessions w) src of Some i \<Rightarrow> \<not> is_closed i w | None \<Rightarrow> False) in
      if live then forward payload src dst w
      else if hm_len (uw_sessions w) \<ge> uo_max_sessions opts
      then udp_debug (''udp session limit reached, dropping '' @ show_socket_addr src)
             (upd_stats (stats_inc UDP_ERRORS) w)
      else
        (case spawn_session src (sh_proxy (uw_shared w)) w of
           (i, w') \<Rightarrow> forward payload src dst (w'\<lparr>uw_sessions := hm_insert src i (uw_sessions w')\<rparr>)))"

definition handle_packet :: "UdpOptions \<Rightarrow> UdpMsg \<Rightarrow> udp_world \<Rightarrow> udp_world" where
  "handle_packet opts item w =
     (case item of (payload, src, dst) \<Rightarrow>
       let w = count_packet payload dst w in
       if uo_dns_over_tcp opts \<and> sock_port dst = DNS_PORT then dispatch_dns payload src dst w
       else dispatch_session opts payload src dst w)"

text \<open>The end of the input: the sessions' senders are dropped, and nothing reads the done channel any more.\<close>

definition udp_shutdown :: "udp_world \<Rightarrow> udp_world" where
  "udp_shutdown w = w\<lparr>uw_running := False, uw_sessions := [],
     uw_tasks := map (\<lambda>s. s\<lparr>st_sender := False\<rparr>) (uw_tasks w)\<rparr>"

section \<open>Sessions\<close>

text \<open>
  Setting up a session: the association, then a local socket bound for the family of the relay and
  connected to it. \<open>bind\<close> and \<open>connect_udp\<close> stand for the two socket calls; \<open>Some m\<close> is their error.
\<close>

definition relay_is_ipv4 :: "SocketAddr \<Rightarrow> bool" where
  "relay_is_ipv4 a = is_ipv4 (sock_ip a)"

definition session_setup ::
  "(SocketAddr \<Rightarrow> connect_result) \<Rightarrow> (SocketAddr \<Rightarrow> string option) \<Rightarrow> (SocketAddr \<Rightarrow> string option) \<Rightarrow>
   ProxyConfig \<Rightarrow> (tcp_stream \<times> SocketAddr) outcome" where
  "session_setup connect bind connect_udp proxy =
     (case udp_associate connect proxy of
        Hang \<Rightarrow> Hang
      | Failed e \<Rightarrow> Failed e
      | Done (control, relay) \<Rightarrow>
          (let bind_addr = (if relay_is_ipv4 relay then SockV4 0 0 else SockV6 0 0 0 0) in
           case bind bind_addr of
             Some m \<Rightarrow> Failed [''failed to bind local UDP socket'', m]
           | None \<Rightarrow>
               (case connect_udp relay of
                  Some m \<Rightarrow> Failed [''failed to connect local UDP socket to relay'', m]
                | None \<Rightarrow> Done (control, relay))))"

text \<open>
  One turn of the loop: the branch \<^verbatim>\<open>select!\<close> takes, with what its future returned. For
  an outbound datagram this includes the result of sending the frame to the relay.
\<close>

datatype select_event =
    Outbound "(SocketAddr \<times> bytes) option" "string option"
  | Received "string + bytes"
  | Control "string + nat"
  | IdleElapsed

datatype session_flow = Continue | SendFrame bytes | SendReply UdpMsg | Return "unit result" | Panic string

definition session_iter :: "SocketAddr \<Rightarrow> select_event \<Rightarrow> session_flow" where
  "session_iter src ev =
     (case ev of
        Outbound None _ \<Rightarrow> Return (Inr ())
      | Outbound (Some (dst, payload)) r \<Rightarrow>
          (let enc_buf = encode_udp dst payload [] in
           case r of
             None \<Rightarrow> SendFrame enc_buf
           | Some m \<Rightarrow> Return (Inl [''failed to send datagram to relay'', m]))
      | Received (Inl m) \<Rightarrow> Return (Inl [''failed to receive datagram from relay'', m])
      | Received (Inr dgram) \<Rightarrow>
          (case decode_udp (take MAX_DATAGRAM dgram) of
             Inl p \<Rightarrow> Panic p
           | Inr None \<Rightarrow> Continue
           | Inr (Some (remote, data)) \<Rightarrow> SendReply (data, remote, src))
      | Control (Inl m) \<Rightarrow> Return (Inl [''SOCKS5 control connection error'', m])
      | Control (Inr n) \<Rightarrow> if n = 0 then Return (Inr ()) else Continue
      | IdleElapsed \<Rightarrow> Return (Inr ()))"

text \<open>The task's first action, and what it does with the result of \<^verbatim>\<open>session_task\<close>.\<close>

definition session_begin :: "nat \<Rightarrow> udp_world \<Rightarrow> udp_world" where
  "session_begin i w =
     upd_stats (GaugeGuard_new UDP_ACTIVE) (upd_task i (st_phase_update (\<lambda>_. Associating)) w)"

definition session_return :: "nat \<Rightarrow> unit result \<Rightarrow> udp_world \<Rightarrow> udp_world" where
  "session_return i r w =
     (let w = upd_task i (\<lambda>s. s\<lparr>st_phase := Reporting, st_queue := []\<rparr>) w in
      case r of
        Inr _ \<Rightarrow> w
      | Inl e \<Rightarrow>
          udp_debug (''udp session '' @ show_socket_addr (st_src (uw_tasks w ! i)) @ '' ended: '' @ display_error e)
            (upd_stats (stats_inc UDP_ERRORS) w))"

text \<open>\<open>done_tx.send(src).await\<close>, after which the gauge guard is dropped.\<close>

definition session_report :: "nat \<Rightarrow> udp_world \<Rightarrow> udp_world" where
  "session_report i w =
     upd_stats (GaugeGuard_drop UDP_ACTIVE)
       (upd_task i (st_phase_update (\<lambda>_. Finished)) (w\<lparr>uw_done := uw_done w @ [st_src (uw_tasks w ! i)]\<rparr>))"

text \<open>A panic unwinds the task: its receiver and its gauge guard are dropped, nothing is reported.\<close>

definition session_unwind :: "nat \<Rightarrow> udp_world \<Rightarrow> udp_world" where
  "session_unwind i w =
     upd_stats (GaugeGuard_drop UDP_ACTIVE)
       (upd_task i (\<lambda>s. s\<lparr>st_phase := Finished, st_queue := []\<rparr>) w)"

text \<open>\<open>reply_tx.send(..).await\<close>: waits while the channel is full, fails when the writer has gone.\<close>

definition push_reply :: "UdpMsg \<Rightarrow> udp_world \<Rightarrow> (bool \<times> udp_world) option" where
  "push_reply msg w =
     (if \<not> uw_writer w then Some (False, w)
      else if length (uw_replies w) < REPLY_CHANNEL_DEPTH
      then Some (True, w\<lparr>uw_replies := uw_replies w @ [msg]\<rparr>)
      else None)"

definition perform_flow :: "nat \<Rightarrow> session_flow \<Rightarrow> udp_world \<Rightarrow> udp_world option" where
  "perform_flow i flow w =
     (case flow of
        Continue \<Rightarrow> Some w
      | SendFrame frame \<Rightarrow> Some (upd_task i (\<lambda>s. s\<lparr>st_frames := st_frames s @ [frame]\<rparr>) w)
      | SendReply msg \<Rightarrow>
          (case push_reply msg w of
             None \<Rightarrow> None
           | Some (True, w') \<Rightarrow> Some w'
           | Some (False, w') \<Rightarrow> Some (session_return i (Inr ()) w'))
      | Return r \<Rightarrow> Some (session_return i r w)
      | Panic _ \<Rightarrow> Some (session_unwind i w))"

text \<open>
  Which events can happen: the queue gives its head, or nothing once it is empty and its sender is
  gone. The head leaves the queue before it is encoded.
\<close>

definition take_event :: "nat \<Rightarrow> select_event \<Rightarrow> udp_world \<Rightarrow> udp_world option" where
  "take_event i ev w =
     (let s = uw_tasks w ! i in
      case ev of
        Outbound None _ \<Rightarrow> if st_queue s = [] \<and> \<not> st_sender s then Some w else None
      | Outbound (Some x) _ \<Rightarrow>
          (case st_queue s of
             [] \<Rightarrow> None
           | y # ys \<Rightarrow> if x = y then Some (upd_task i (st_queue_update (\<lambda>_. ys)) w) else None)
      | Received (Inr dgram) \<Rightarrow> Some (upd_task i (\<lambda>s. s\<lparr>st_heard := st_heard s @ [dgram]\<rparr>) w)
      | _ \<Rightarrow> Some w)"

definition session_select :: "nat \<Rightarrow> select_event \<Rightarrow> udp_world \<Rightarrow> udp_world option" where
  "session_select i ev w =
     (case take_event i ev w of
        None \<Rightarrow> None
      | Some w' \<Rightarrow> perform_flow i (session_iter (st_src (uw_tasks w ! i)) ev) w')"

section \<open>DNS tasks and the writer\<close>

definition dns_begin :: "nat \<Rightarrow> udp_world \<Rightarrow> udp_world" where
  "dns_begin j w = upd_stats (stats_inc DNS_REQUESTS) (upd_dns j (dq_phase_update (\<lambda>_. DnsAsking)) w)"

definition release_permit :: "nat \<Rightarrow> udp_world \<Rightarrow> udp_world" where
  "release_permit j w = upd_dns j (dq_phase_update (\<lambda>_. DnsFinished)) (w\<lparr>uw_permits := Suc (uw_permits w)\<rparr>)"

text \<open>\<open>dns_query_pooled\<close> with the result of \<open>resolve\<close>.\<close>

definition dns_resolved :: "nat \<Rightarrow> bytes result \<Rightarrow> udp_world \<Rightarrow> udp_world" where
  "dns_resolved j r w =
     (let q = uw_dns w ! j in
      case r of
        Inr resp \<Rightarrow> upd_dns j (\<lambda>q. q\<lparr>dq_phase := DnsReplying resp, dq_answers := dq_answers q @ [resp]\<rparr>) w
      | Inl e \<Rightarrow>
          release_permit j
            (udp_debug (''dns '' @ show_socket_addr (dq_src q) @ '' -> '' @ show_socket_addr (dq_dst q)
                @ '' failed: '' @ display_error e)
              (upd_stats (stats_inc DNS_FAILURES \<circ> stats_inc UDP_ERRORS) w)))"

definition dns_reply :: "nat \<Rightarrow> bytes \<Rightarrow> udp_world \<Rightarrow> udp_world option" where
  "dns_reply j resp w =
     (let q = uw_dns w ! j in
      map_option (release_permit j \<circ> snd) (push_reply (resp, dq_dst q, dq_src q) w))"

definition write_reply :: "bool \<Rightarrow> udp_world \<Rightarrow> udp_world option" where
  "write_reply ok w =
     (case uw_replies w of
        [] \<Rightarrow> None
      | (payload, remote, local) # rest \<Rightarrow>
          let w = w\<lparr>uw_replies := rest\<rparr> in
          if \<not> ok then Some (w\<lparr>uw_writer := False\<rparr>)
          else Some (upd_stats (record_traffic (sock_ip remote) (of_nat (length payload))
                 \<circ> stats_add BYTES_RX (of_nat (length payload)))
               (w\<lparr>uw_delivered := uw_delivered w @ [(payload, remote, local)]\<rparr>)))"

section \<open>All of it in any order\<close>

text \<open>
  The dispatcher takes a done message before a packet (\<^verbatim>\<open>biased\<close>), so a packet is only
  handled when the done channel is empty.
\<close>

inductive udp_step :: "UdpOptions \<Rightarrow> udp_world \<Rightarrow> udp_world \<Rightarrow> bool" for opts where
  take_done: "udp_step opts w (handle_done dead (w\<lparr>uw_done := rest\<rparr>))"
    if "uw_running w" "uw_done w = dead # rest"
| take_packet: "udp_step opts w (handle_packet opts item w)"
    if "uw_running w" "uw_done w = []"
| input_ends: "udp_step opts w (udp_shutdown w)"
    if "uw_running w" "uw_done w = []"
| begins: "udp_step opts w (session_begin i w)"
    if "i < length (uw_tasks w)" "st_phase (uw_tasks w ! i) = Spawned"
| associated: "udp_step opts w (upd_task i (st_phase_update (\<lambda>_. Relaying)) w)"
    if "i < length (uw_tasks w)" "st_phase (uw_tasks w ! i) = Associating"
      "session_setup connect bind connect_udp (st_proxy (uw_tasks w ! i)) = Done (control, relay)"
| not_associated: "udp_step opts w (session_return i (Inl e) w)"
    if "i < length (uw_tasks w)" "st_phase (uw_tasks w ! i) = Associating"
      "session_setup connect bind connect_udp (st_proxy (uw_tasks w ! i)) = Failed e"
| selects: "udp_step opts w w'"
    if "i < length (uw_tasks w)" "st_phase (uw_tasks w ! i) = Relaying" "session_select i ev w = Some w'"
| reports: "udp_step opts w (session_report i w)"
    if "i < length (uw_tasks w)" "st_phase (uw_tasks w ! i) = Reporting"
      "length (uw_done w) < DONE_CHANNEL_DEPTH"
| dns_begins: "udp_step opts w (dns_begin j w)"
    if "j < length (uw_dns w)" "dq_phase (uw_dns w ! j) = DnsSpawned"
| dns_resolves: "udp_step opts w (dns_resolved j r w)"
    if "j < length (uw_dns w)" "dq_phase (uw_dns w ! j) = DnsAsking"
| dns_replies: "udp_step opts w w'"
    if "j < length (uw_dns w)" "dq_phase (uw_dns w ! j) = DnsReplying resp" "dns_reply j resp w = Some w'"
| writes: "udp_step opts w w'"
    if "uw_writer w" "write_reply ok w = Some w'"
| settings_change: "udp_step opts w (w\<lparr>uw_shared := shared\<rparr>)"

abbreviation udp_reachable :: "UdpOptions \<Rightarrow> Shared \<Rightarrow> Logger \<Rightarrow> udp_world \<Rightarrow> bool" where
  "udp_reachable opts shared log w \<equiv> (udp_step opts)\<^sup>*\<^sup>* (udp_init opts shared log) w"

end
