(* ===== verification/Udp_Sessions.thy ===== *)
theory Udp_Sessions
  imports Udp
begin

text \<open>
  Invariants of the UDP side, by rule induction over its steps: the table of sessions and its bound,
  the semaphore, the gauge, the order of the datagrams of each session, and where replies come from.
\<close>

section \<open>Projections\<close>

lemma upd_stats_simps [simp]:
  "uw_running (upd_stats f w) = uw_running w" "uw_sessions (upd_stats f w) = uw_sessions w"
  "uw_tasks (upd_stats f w) = uw_tasks w" "uw_done (upd_stats f w) = uw_done w"
  "uw_permits (upd_stats f w) = uw_permits w" "uw_dns (upd_stats f w) = uw_dns w"
  "uw_replies (upd_stats f w) = uw_replies w" "uw_delivered (upd_stats f w) = uw_delivered w"
  "uw_writer (upd_stats f w) = uw_writer w" "uw_shared (upd_stats f w) = uw_shared w"
  "uw_stats (upd_stats f w) = f (uw_stats w)"
  by (simp_all add: upd_stats_def)

lemma udp_debug_simps [simp]:
  "uw_running (udp_debug m w) = uw_running w" "uw_sessions (udp_debug m w) = uw_sessions w"
  "uw_tasks (udp_debug m w) = uw_tasks w" "uw_done (udp_debug m w) = uw_done w"
  "uw_permits (udp_debug m w) = uw_permits w" "uw_dns (udp_debug m w) = uw_dns w"
  "uw_replies (udp_debug m w) = uw_replies w" "uw_delivered (udp_debug m w) = uw_delivered w"
  "uw_writer (udp_debug m w) = uw_writer w" "uw_shared (udp_debug m w) = uw_shared w"
  "uw_stats (udp_debug m w) = uw_stats w"
  by (simp_all add: udp_debug_def)

lemma upd_task_simps [simp]:
  "uw_running (upd_task i f w) = uw_running w" "uw_sessions (upd_task i f w) = uw_sessions w"
  "uw_tasks (upd_task i f w) = (uw_tasks w)[i := f (uw_tasks w ! i)]" "uw_done (upd_task i f w) = uw_done w"
  "uw_permits (upd_task i f w) = uw_permits w" "uw_dns (upd_task i f w) = uw_dns w"
  "uw_replies (upd_task i f w) = uw_replies w" "uw_delivered (upd_task i f w) = uw_delivered w"
  "uw_writer (upd_task i f w) = uw_writer w" "uw_shared (upd_task i f w) = uw_shared w"
  "uw_stats (upd_task i f w) = uw_stats w"
  by (simp_all add: upd_task_def)

lemma upd_dns_simps [simp]:
  "uw_running (upd_dns i g w) = uw_running w" "uw_sessions (upd_dns i g w) = uw_sessions w"
  "uw_tasks (upd_dns i g w) = uw_tasks w" "uw_done (upd_dns i g w) = uw_done w"
  "uw_permits (upd_dns i g w) = uw_permits w" "uw_dns (upd_dns i g w) = (uw_dns w)[i := g (uw_dns w ! i)]"
  "uw_replies (upd_dns i g w) = uw_replies w" "uw_delivered (upd_dns i g w) = uw_delivered w"
  "uw_writer (upd_dns i g w) = uw_writer w" "uw_shared (upd_dns i g w) = uw_shared w"
  "uw_stats (upd_dns i g w) = uw_stats w"
  by (simp_all add: upd_dns_def)

text \<open>A message from the relay is decoded without a panic.\<close>

lemma session_iter_no_panic: "session_iter src ev \<noteq> Panic p"
proof (cases ev)
  case (Received r)
  show ?thesis
  proof (cases r)
    case (Inr dgram)
    obtain x where "decode_udp (take MAX_DATAGRAM dgram) = Inr x" using decode_udp_total by blast
    then show ?thesis using Received Inr by (auto simp: session_iter_def split: option.splits)
  qed (simp add: Received session_iter_def)
qed (auto simp: session_iter_def Let_def split: option.splits sum.splits)

section \<open>Sessions\<close>

text \<open>
  The table holds the sessions by client, no more than allowed; every session that still receives is
  in it; and of every other session in it the dispatcher has still to be told.
\<close>

definition announced :: "udp_world \<Rightarrow> SocketAddr \<Rightarrow> bool" where
  "announced w src \<longleftrightarrow> src \<in> set (uw_done w) \<or>
     (\<exists>j<length (uw_tasks w). st_phase (uw_tasks w ! j) = Reporting \<and> st_src (uw_tasks w ! j) = src)"

definition table_entry_ok :: "udp_world \<Rightarrow> SocketAddr \<Rightarrow> nat \<Rightarrow> bool" where
  "table_entry_ok w src i \<longleftrightarrow>
     i < length (uw_tasks w) \<and> st_src (uw_tasks w ! i) = src \<and>
     (receiving (uw_tasks w ! i) \<or> announced w src)"

definition sessions_ok :: "UdpOptions \<Rightarrow> udp_world \<Rightarrow> bool" where
  "sessions_ok opts w \<longleftrightarrow>
     hm_wf (uw_sessions w) \<and> hm_len (uw_sessions w) \<le> uo_max_sessions opts \<and>
     (\<forall>src i. hm_get (uw_sessions w) src = Some i \<longrightarrow> table_entry_ok w src i) \<and>
     (uw_running w \<longrightarrow> (\<forall>i<length (uw_tasks w). receiving (uw_tasks w ! i) \<longrightarrow>
        hm_get (uw_sessions w) (st_src (uw_tasks w ! i)) = Some i))"

lemma sessions_okD:
  assumes "sessions_ok opts w"
  shows "hm_wf (uw_sessions w)" "hm_len (uw_sessions w) \<le> uo_max_sessions opts"
    "hm_get (uw_sessions w) src = Some i \<Longrightarrow> table_entry_ok w src i"
    "uw_running w \<Longrightarrow> i < length (uw_tasks w) \<Longrightarrow> receiving (uw_tasks w ! i) \<Longrightarrow>
       hm_get (uw_sessions w) (st_src (uw_tasks w ! i)) = Some i"
  using assms unfolding sessions_ok_def by blast+

lemma sessions_okI:
  assumes "hm_wf (uw_sessions w)" and "hm_len (uw_sessions w) \<le> uo_max_sessions opts"
    and "\<And>src i. hm_get (uw_sessions w) src = Some i \<Longrightarrow> table_entry_ok w src i"
    and "\<And>i. uw_running w \<Longrightarrow> i < length (uw_tasks w) \<Longrightarrow> receiving (uw_tasks w ! i) \<Longrightarrow>
       hm_get (uw_sessions w) (st_src (uw_tasks w ! i)) = Some i"
  shows "sessions_ok opts w"
  using assms unfolding sessions_ok_def by blast

lemma sessions_ok_cong:
  assumes "uw_sessions w' = uw_sessions w" "uw_tasks w' = uw_tasks w" "uw_done w' = uw_done w"
    "uw_running w' = uw_running w"
  shows "sessions_ok opts w' = sessions_ok opts w"
  unfolding sessions_ok_def table_entry_ok_def announced_def assms ..

text \<open>A step of one task: it may stop receiving to report, and stop reporting by having reported.\<close>

lemma sessions_ok_task:
  assumes ok: "sessions_ok opts w" and i: "i < length (uw_tasks w)"
    and w': "uw_sessions w' = uw_sessions w" "uw_running w' = uw_running w"
      "uw_tasks w' = (uw_tasks w)[i := s]"
    and src: "st_src s = st_src (uw_tasks w ! i)"
    and rcv: "receiving s \<Longrightarrow> receiving (uw_tasks w ! i)"
    and stop: "receiving (uw_tasks w ! i) \<Longrightarrow> receiving s \<or> st_phase s = Reporting"
    and told: "set (uw_done w) \<subseteq> set (uw_done w')"
    and report: "st_phase (uw_tasks w ! i) = Reporting \<Longrightarrow> st_phase s = Reporting \<or> st_src s \<in> set (uw_done w')"
  shows "sessions_ok opts w'"
proof (rule sessions_okI)
  show "hm_wf (uw_sessions w')" "hm_len (uw_sessions w') \<le> uo_max_sessions opts"
    using sessions_okD(1,2)[OF ok] w'(1) by simp_all
next
  fix j assume "uw_running w'" "j < length (uw_tasks w')" "receiving (uw_tasks w' ! j)"
  then show "hm_get (uw_sessions w') (st_src (uw_tasks w' ! j)) = Some j"
    using sessions_okD(4)[OF ok, of j] w' i src rcv by (cases "j = i") simp_all
next
  fix c j assume "hm_get (uw_sessions w') c = Some j"
  then have e: "table_entry_ok w c j" using sessions_okD(3)[OF ok] w'(1) by simp
  have ann: "announced w' c" if "announced w c"
  proof -
    from that consider "c \<in> set (uw_done w)"
      | k where "k < length (uw_tasks w)" "st_phase (uw_tasks w ! k) = Reporting" "st_src (uw_tasks w ! k) = c"
      unfolding announced_def by blast
    then show ?thesis
    proof cases
      case 1
      then show ?thesis using told by (auto simp: announced_def)
    next
      case (2 k)
      show ?thesis
      proof (cases "k = i")
        case True
        then show ?thesis using 2 report src i w'(3) by (auto simp: announced_def)
      next
        case False
        then show ?thesis using 2 w'(3) unfolding announced_def by (intro disjI2 exI[of _ k]) simp
      qed
    qed
  qed
  show "table_entry_ok w' c j"
  proof (cases "j = i")
    case True
    then have "receiving s \<or> announced w' c"
      using e stop ann i src w'(3) unfolding table_entry_ok_def announced_def by fastforce
    then show ?thesis using e True i src w'(3) by (simp add: table_entry_ok_def)
  next
    case False
    then show ?thesis using e ann w'(3) by (auto simp: table_entry_ok_def)
  qed
qed

lemma table_entry_sessions [simp]:
  "table_entry_ok (w\<lparr>uw_sessions := m\<rparr>) c i = table_entry_ok w c i"
  by (simp add: table_entry_ok_def announced_def)

lemma sessions_ok_done:
  assumes ok: "sessions_ok opts w" and q: "uw_done w = dead # rest"
  shows "sessions_ok opts (handle_done dead (w\<lparr>uw_done := rest\<rparr>))"
proof -
  let ?w = "w\<lparr>uw_done := rest\<rparr>"
  have ann: "announced ?w c" if "announced w c" "c \<noteq> dead" for c
    using that q by (auto simp: announced_def)
  have other: "table_entry_ok ?w c i" if "hm_get (uw_sessions w) c = Some i" "c \<noteq> dead" for c i
    using sessions_okD(3)[OF ok that(1)] that(2) ann by (auto simp: table_entry_ok_def)
  note wf = sessions_okD(1)[OF ok]
  show ?thesis
  proof (cases "hm_get (uw_sessions w) dead")
    case None
    then have "sessions_ok opts ?w"
      using sessions_okD[OF ok] other by (intro sessions_okI) (auto, metis option.distinct(1))
    then show ?thesis using None by (simp add: handle_done_def)
  next
    case (Some i)
    have i: "i < length (uw_tasks w)" "st_src (uw_tasks w ! i) = dead"
      using sessions_okD(3)[OF ok Some] by (simp_all add: table_entry_ok_def)
    show ?thesis
    proof (cases "is_closed i ?w")
      case True
      have "sessions_ok opts (?w\<lparr>uw_sessions := hm_remove dead (uw_sessions w)\<rparr>)"
      proof (rule sessions_okI)
        show "hm_wf (uw_sessions (?w\<lparr>uw_sessions := hm_remove dead (uw_sessions w)\<rparr>))"
          using wf by (simp add: hm.wf_remove)
        show "hm_len (uw_sessions (?w\<lparr>uw_sessions := hm_remove dead (uw_sessions w)\<rparr>)) \<le> uo_max_sessions opts"
          using hm.len_remove_le[OF wf, of dead] sessions_okD(2)[OF ok] by simp
      next
        fix c j assume "hm_get (uw_sessions (?w\<lparr>uw_sessions := hm_remove dead (uw_sessions w)\<rparr>)) c = Some j"
        then have "c \<noteq> dead" "hm_get (uw_sessions w) c = Some j"
          using wf by (simp_all add: hm_simps split: if_splits)
        then show "table_entry_ok (?w\<lparr>uw_sessions := hm_remove dead (uw_sessions w)\<rparr>) c j"
          using other by simp
      next
        fix j assume "uw_running (?w\<lparr>uw_sessions := hm_remove dead (uw_sessions w)\<rparr>)"
          "j < length (uw_tasks (?w\<lparr>uw_sessions := hm_remove dead (uw_sessions w)\<rparr>))"
          "receiving (uw_tasks (?w\<lparr>uw_sessions := hm_remove dead (uw_sessions w)\<rparr>) ! j)"
        then have j: "hm_get (uw_sessions w) (st_src (uw_tasks w ! j)) = Some j" "receiving (uw_tasks w ! j)"
          using sessions_okD(4)[OF ok, of j] by simp_all
        then have "st_src (uw_tasks w ! j) \<noteq> dead" using Some True by (auto simp: is_closed_def)
        then show "hm_get (uw_sessions (?w\<lparr>uw_sessions := hm_remove dead (uw_sessions w)\<rparr>))
            (st_src (uw_tasks (?w\<lparr>uw_sessions := hm_remove dead (uw_sessions w)\<rparr>) ! j)) = Some j"
          using j(1) wf by (simp add: hm_simps)
      qed
      then show ?thesis using Some True by (simp add: handle_done_def)
    next
      case False
      then have "receiving (uw_tasks w ! i)" by (simp add: is_closed_def)
      then have "table_entry_ok ?w c j" if "hm_get (uw_sessions w) c = Some j" for c j
        using other[of c j] that Some i by (cases "c = dead") (auto simp: table_entry_ok_def)
      then have "sessions_ok opts ?w"
        using sessions_okD[OF ok] by (intro sessions_okI) auto
      then show ?thesis using Some False by (simp add: handle_done_def)
    qed
  qed
qed

lemma sessions_ok_upd_task:
  assumes "sessions_ok opts w" and "i < length (uw_tasks w)"
    and "st_phase (f (uw_tasks w ! i)) = st_phase (uw_tasks w ! i)"
    and "st_src (f (uw_tasks w ! i)) = st_src (uw_tasks w ! i)"
  shows "sessions_ok opts (upd_task i f w)"
  by (rule sessions_ok_task[OF assms(1,2) _ _ upd_task_simps(3)]) (simp_all add: assms(3,4) receiving_def)

lemma try_send_ok:
  assumes "sessions_ok opts w" and "i < length (uw_tasks w)"
  shows "sessions_ok opts (snd (try_send i x w))"
  using assms by (simp add: try_send_def sessions_ok_upd_task)

lemma sessions_ok_stats [simp]:
  "sessions_ok opts (upd_stats f w) = sessions_ok opts w"
  "sessions_ok opts (udp_debug m w) = sessions_ok opts w"
  "sessions_ok opts (w\<lparr>uw_shared := sh\<rparr>) = sessions_ok opts w"
  "sessions_ok opts (w\<lparr>uw_replies := rs\<rparr>) = sessions_ok opts w"
  "sessions_ok opts (w\<lparr>uw_permits := n\<rparr>) = sessions_ok opts w"
  "sessions_ok opts (w\<lparr>uw_dns := qs\<rparr>) = sessions_ok opts w"
  "sessions_ok opts (upd_dns j g w) = sessions_ok opts w"
  by (rule sessions_ok_cong; simp)+

lemma forward_ok:
  assumes "sessions_ok opts w"
  shows "sessions_ok opts (forward payload src dst w)"
proof (cases "hm_get (uw_sessions w) src")
  case (Some i)
  have "i < length (uw_tasks w)" using sessions_okD(3)[OF assms Some] by (simp add: table_entry_ok_def)
  from try_send_ok[OF assms this, of "(dst, payload)"] Some show ?thesis
    by (auto simp: forward_def split: prod.splits bool.splits)
qed (simp add: forward_def assms)

lemma spawn_ok:
  assumes ok: "sessions_ok opts w" and room: "hm_len (uw_sessions w) < uo_max_sessions opts"
    and dead: "\<And>i. hm_get (uw_sessions w) src = Some i \<Longrightarrow> is_closed i w"
    and spawn: "spawn_session src proxy w = (n, w')" and run: "uw_running w"
  shows "sessions_ok opts (w'\<lparr>uw_sessions := hm_insert src n (uw_sessions w')\<rparr>)"
proof -
  let ?w = "w'\<lparr>uw_sessions := hm_insert src n (uw_sessions w')\<rparr>"
  let ?s = "new_session src proxy"
  have w': "uw_tasks ?w = uw_tasks w @ [?s]"
      "uw_sessions ?w = hm_insert src n (uw_sessions w)" "uw_done ?w = uw_done w" "uw_running ?w = uw_running w"
    and n: "n = length (uw_tasks w)"
    using spawn by (auto simp: spawn_session_def)
  have s: "st_src ?s = src" "receiving ?s" by (simp_all add: new_session_def receiving_def)
  note wf = sessions_okD(1)[OF ok]
  have ann: "announced ?w c" if a: "announced w c" for c
  proof (cases "c \<in> set (uw_done w)")
    case False
    then obtain j where "j < length (uw_tasks w)" "st_phase (uw_tasks w ! j) = Reporting" "st_src (uw_tasks w ! j) = c"
      using a unfolding announced_def by blast
    then show ?thesis unfolding announced_def w'(1) by (intro disjI2 exI[of _ j]) (simp add: nth_append)
  qed (simp add: announced_def w'(3))
  show ?thesis
  proof (rule sessions_okI, unfold w')
    show "hm_wf (hm_insert src n (uw_sessions w))" using wf by (rule hm.wf_insert)
    show "hm_len (hm_insert src n (uw_sessions w)) \<le> uo_max_sessions opts"
      using hm.len_insert_le[OF wf, of src n] room by linarith
    show "table_entry_ok ?w c i" if "hm_get (hm_insert src n (uw_sessions w)) c = Some i" for c i
    proof (cases "c = src")
      case True
      then show ?thesis using that wf s n w'(1) by (simp add: hm_simps table_entry_ok_def nth_append)
    next
      case False
      then have "table_entry_ok w c i" using that wf sessions_okD(3)[OF ok] by (simp add: hm_simps)
      then show ?thesis using ann w'(1) by (auto simp: table_entry_ok_def nth_append)
    qed
    show "hm_get (hm_insert src n (uw_sessions w)) (st_src ((uw_tasks w @ [?s]) ! i)) = Some i"
      if "uw_running w" "i < length (uw_tasks w @ [?s])" "receiving ((uw_tasks w @ [?s]) ! i)" for i
    proof (cases "i = n")
      case True
      then show ?thesis using s wf n by (simp add: hm_simps nth_append)
    next
      case False
      then have i: "i < length (uw_tasks w)" "receiving (uw_tasks w ! i)"
        using that n by (auto simp: nth_append)
      note g = sessions_okD(4)[OF ok run i]
      then have "st_src (uw_tasks w ! i) \<noteq> src" using dead i(2) by (auto simp: is_closed_def)
      then show ?thesis using g wf i(1) by (simp add: hm_simps nth_append)
    qed
  qed
qed

lemma packet_ok:
  assumes ok: "sessions_ok opts w" and run: "uw_running w"
  shows "sessions_ok opts (handle_packet opts item w)"
proof -
  obtain payload src dst where item: "item = (payload, src, dst)" by (cases item)
  let ?w = "count_packet payload dst w"
  have ok': "sessions_ok opts ?w" and run': "uw_running ?w" using ok run by (simp_all add: count_packet_def)
  have dns: "sessions_ok opts (dispatch_dns payload src dst ?w)"
    using ok' by (simp add: dispatch_dns_def)
  have "sessions_ok opts (dispatch_session opts payload src dst ?w)"
  proof (cases "case hm_get (uw_sessions ?w) src of Some i \<Rightarrow> \<not> is_closed i ?w | None \<Rightarrow> False")
    case True
    then show ?thesis using forward_ok[OF ok'] by (simp add: dispatch_session_def)
  next
    case False
    then have dead: "is_closed i ?w" if "hm_get (uw_sessions ?w) src = Some i" for i using that by simp
    obtain n w' where spawn: "spawn_session src (sh_proxy (uw_shared ?w)) ?w = (n, w')" by fastforce
    show ?thesis
    proof (cases "uo_max_sessions opts \<le> hm_len (uw_sessions ?w)")
      case True
      then show ?thesis using False ok' by (simp add: dispatch_session_def Let_def)
    next
      case room: False
      then show ?thesis
        using False spawn forward_ok[OF spawn_ok[OF ok' _ dead spawn run']]
        by (simp add: dispatch_session_def Let_def)
    qed
  qed
  then show ?thesis using dns item by (simp add: handle_packet_def Let_def)
qed

lemma sessions_ok_return:
  assumes "sessions_ok opts w" and "i < length (uw_tasks w)" and "receiving (uw_tasks w ! i)"
  shows "sessions_ok opts (session_return i r w)"
proof -
  let ?f = "\<lambda>s :: session. s\<lparr>st_phase := Reporting, st_queue := []\<rparr>"
  have "sessions_ok opts (upd_task i ?f w)"
    by (rule sessions_ok_task[OF assms(1,2) _ _ upd_task_simps(3)]) (use assms(3) in \<open>auto simp: receiving_def\<close>)
  then show ?thesis by (simp add: session_return_def Let_def split: sum.split)
qed

lemma take_event_frame:
  assumes "take_event i ev w = Some w'"
  shows "\<exists>f. w' = upd_task i f w \<and> (\<forall>s. st_phase (f s) = st_phase s \<and> st_src (f s) = st_src s)"
proof -
  have "w = upd_task i id w" by (simp add: upd_task_def)
  then have same: "\<exists>f. w = upd_task i f w \<and> (\<forall>s. st_phase (f s) = st_phase s \<and> st_src (f s) = st_src s)"
    by (intro exI[of _ id]) simp
  have queue: "\<exists>f. upd_task i (st_queue_update g) w = upd_task i f w \<and>
      (\<forall>s. st_phase (f s) = st_phase s \<and> st_src (f s) = st_src s)" for g
    by (rule exI[of _ "st_queue_update g"]) simp
  have heard: "\<exists>f. upd_task i (\<lambda>s. s\<lparr>st_heard := st_heard s @ [d]\<rparr>) w = upd_task i f w \<and>
      (\<forall>s. st_phase (f s) = st_phase s \<and> st_src (f s) = st_src s)" for d
    by (rule exI[of _ "\<lambda>s. s\<lparr>st_heard := st_heard s @ [d]\<rparr>"]) simp
  consider "w' = w" | g where "w' = upd_task i (st_queue_update g) w"
    | d where "w' = upd_task i (\<lambda>s. s\<lparr>st_heard := st_heard s @ [d]\<rparr>) w"
    using assms by (auto simp: take_event_def Let_def
        split: select_event.splits option.splits list.splits sum.splits if_splits)
  then show ?thesis using same queue heard by cases simp_all
qed

lemma sessions_ok_select:
  assumes ok: "sessions_ok opts w" and i: "i < length (uw_tasks w)" and ph: "st_phase (uw_tasks w ! i) = Relaying"
    and step: "session_select i ev w = Some w'"
  shows "sessions_ok opts w'"
proof -
  obtain u where u: "take_event i ev w = Some u"
    and flow: "perform_flow i (session_iter (st_src (uw_tasks w ! i)) ev) u = Some w'"
    using step by (auto simp: session_select_def split: option.splits)
  obtain f where f: "u = upd_task i f w" "\<And>s. st_phase (f s) = st_phase s" "\<And>s. st_src (f s) = st_src s"
    using take_event_frame[OF u] by blast
  have ok': "sessions_ok opts u" and i': "i < length (uw_tasks u)" and rcv: "receiving (uw_tasks u ! i)"
    using f i ph sessions_ok_upd_task[OF ok i, of f] by (simp_all add: receiving_def)
  note ret = sessions_ok_return[OF ok' i' rcv]
  show ?thesis
  proof (cases "session_iter (st_src (uw_tasks w ! i)) ev")
    case Continue
    then show ?thesis using flow ok' by (simp add: perform_flow_def)
  next
    case (SendFrame frame)
    then show ?thesis using flow sessions_ok_upd_task[OF ok' i'] by (auto simp: perform_flow_def)
  next
    case (SendReply msg)
    then show ?thesis using flow ret ok'
      by (auto simp: perform_flow_def push_reply_def split: if_splits)
  next
    case (Return r)
    then show ?thesis using flow ret by (auto simp: perform_flow_def)
  next
    case (Panic p)
    then show ?thesis using session_iter_no_panic by blast
  qed
qed

lemma sessions_ok_step:
  assumes "udp_step opts w w'" and ok: "sessions_ok opts w"
  shows "sessions_ok opts w'"
  using assms(1)
proof cases
  case (take_done dead rest)
  then show ?thesis using sessions_ok_done[OF ok] by simp
next
  case (take_packet item)
  then show ?thesis using packet_ok[OF ok] by simp
next
  case input_ends
  then show ?thesis by (auto intro!: sessions_okI simp: udp_shutdown_def hm_simps hm_len_def)
next
  case (begins i)
  have "sessions_ok opts (upd_task i (st_phase_update (\<lambda>_. Associating)) w)"
    by (rule sessions_ok_task[OF ok begins(2) _ _ upd_task_simps(3)]) (use begins in \<open>auto simp: receiving_def\<close>)
  then show ?thesis using begins by (simp add: session_begin_def)
next
  case (associated i)
  show ?thesis unfolding associated(1)
    by (rule sessions_ok_task[OF ok associated(2) _ _ upd_task_simps(3)]) (use associated in \<open>auto simp: receiving_def\<close>)
next
  case (not_associated i)
  then show ?thesis using sessions_ok_return[OF ok] by (simp add: receiving_def)
next
  case (selects i ev)
  then show ?thesis using sessions_ok_select[OF ok] by blast
next
  case (reports i)
  let ?u = "w\<lparr>uw_done := uw_done w @ [st_src (uw_tasks w ! i)]\<rparr>"
  have "sessions_ok opts (upd_task i (st_phase_update (\<lambda>_. Finished)) ?u)"
    by (rule sessions_ok_task[OF ok reports(2), where s = "(uw_tasks w ! i)\<lparr>st_phase := Finished\<rparr>"])
      (use reports in \<open>auto simp: receiving_def\<close>)
  then show ?thesis using reports by (simp add: session_report_def)
next
  case (dns_begins j)
  then show ?thesis using ok by (simp add: dns_begin_def)
next
  case (dns_resolves j r)
  then show ?thesis using ok by (simp add: dns_resolved_def release_permit_def Let_def split: sum.split)
next
  case (dns_replies j resp)
  then show ?thesis using ok
    by (auto simp: dns_reply_def release_permit_def Let_def push_reply_def split: if_splits)
next
  case (writes ok')
  then show ?thesis using ok sessions_ok_cong[of w' w opts]
    by (auto simp: write_reply_def Let_def split: list.splits if_splits)
next
  case (settings_change shared)
  then show ?thesis using ok by simp
qed

lemma sessions_ok_reachable: "udp_reachable opts shared log w \<Longrightarrow> sessions_ok opts w"
proof (induction rule: rtranclp_induct)
  case base
  show ?case by (auto intro!: sessions_okI simp: udp_init_def hm_simps hm_len_def)
next
  case (step w w')
  then show ?case by (blast intro: sessions_ok_step)
qed

text \<open>
  C13. Whatever the traffic, at most \<open>max_sessions\<close> UDP sessions are served at the same time: as long
  as the dispatcher runs, every session task that still takes datagrams is the one in the table for
  its client, so no client has two and together they are no more than the limit.
\<close>

theorem udp_sessions_bounded:
  assumes "udp_reachable opts shared log w" and "uw_running w"
  shows "card {i. i < length (uw_tasks w) \<and> receiving (uw_tasks w ! i)} \<le> uo_max_sessions opts \<and>
    inj_on (\<lambda>i. st_src (uw_tasks w ! i)) {i. i < length (uw_tasks w) \<and> receiving (uw_tasks w ! i)}"
proof -
  let ?L = "{i. i < length (uw_tasks w) \<and> receiving (uw_tasks w ! i)}" and ?f = "\<lambda>i. st_src (uw_tasks w ! i)"
  note ok = sessions_ok_reachable[OF assms(1)]
  have get: "hm_get (uw_sessions w) (?f i) = Some i" if "i \<in> ?L" for i
    using sessions_okD(4)[OF ok assms(2)] that by simp
  then have inj: "inj_on ?f ?L" by (metis (no_types, lifting) inj_onI option.inject)
  have "?f ` ?L \<subseteq> hm_keys (uw_sessions w)" using get by (auto simp: hm.keys_get)
  then have "card ?L \<le> hm_len (uw_sessions w)"
    using card_mono[OF hm.finite_keys, of "?f ` ?L"] card_image[OF inj] sessions_okD(1)[OF ok]
    by (simp add: hm.len_keys)
  then show ?thesis using inj sessions_okD(2)[OF ok] by simp
qed

text \<open>
  C14. No session leaks: once the tasks that have ended are through with reporting and the dispatcher
  has taken all their messages, every session left in the table is one that still takes datagrams.
\<close>

theorem udp_sessions_reclaimed:
  assumes "udp_reachable opts shared log w" and "uw_done w = []"
    and "\<And>s. s \<in> set (uw_tasks w) \<Longrightarrow> st_phase s \<noteq> Reporting"
  shows "hm_get (uw_sessions w) src = Some i \<Longrightarrow>
    receiving (uw_tasks w ! i) \<and> st_src (uw_tasks w ! i) = src"
proof -
  assume "hm_get (uw_sessions w) src = Some i"
  from sessions_okD(3)[OF sessions_ok_reachable[OF assms(1)] this]
  show ?thesis using assms(2,3) by (auto simp: table_entry_ok_def announced_def)
qed

section \<open>Permits and the gauge\<close>

definition permits_ok :: "UdpOptions \<Rightarrow> udp_world \<Rightarrow> bool" where
  "permits_ok opts w \<longleftrightarrow>
     uw_permits w + length (filter (\<lambda>q. dq_phase q \<noteq> DnsFinished) (uw_dns w)) = uo_max_sessions opts"

lemma forward_frame [simp]:
  "uw_permits (forward payload src dst w) = uw_permits w" "uw_dns (forward payload src dst w) = uw_dns w"
  "uw_replies (forward payload src dst w) = uw_replies w" "uw_delivered (forward payload src dst w) = uw_delivered w"
  by (auto simp: forward_def try_send_def split: option.splits prod.splits bool.splits if_splits)

lemma dispatch_session_frame [simp]:
  "uw_permits (dispatch_session opts payload src dst w) = uw_permits w"
  "uw_dns (dispatch_session opts payload src dst w) = uw_dns w"
  "uw_replies (dispatch_session opts payload src dst w) = uw_replies w"
  "uw_delivered (dispatch_session opts payload src dst w) = uw_delivered w"
  by (simp_all add: dispatch_session_def Let_def spawn_session_def)

lemma session_return_frame [simp]:
  "uw_permits (session_return i r w) = uw_permits w" "uw_dns (session_return i r w) = uw_dns w"
  "uw_replies (session_return i r w) = uw_replies w" "uw_delivered (session_return i r w) = uw_delivered w"
  by (auto simp: session_return_def Let_def split: sum.splits)

lemma take_event_rest:
  assumes "take_event i ev w = Some w'"
  shows "uw_permits w' = uw_permits w" "uw_dns w' = uw_dns w" "uw_replies w' = uw_replies w"
    "uw_delivered w' = uw_delivered w" "uw_stats w' = uw_stats w"
  using take_event_frame[OF assms] by auto

lemma session_select_dns:
  assumes "session_select i ev w = Some w'"
  shows "uw_permits w' = uw_permits w \<and> uw_dns w' = uw_dns w"
proof -
  obtain u where u: "take_event i ev w = Some u"
    and flow: "perform_flow i (session_iter (st_src (uw_tasks w ! i)) ev) u = Some w'"
    using assms by (auto simp: session_select_def split: option.splits)
  have "uw_permits w' = uw_permits u \<and> uw_dns w' = uw_dns u"
    using flow session_iter_no_panic
    by (auto simp: perform_flow_def push_reply_def split: session_flow.splits if_splits)
  then show ?thesis using take_event_rest[OF u] by simp
qed

lemma permits_ok_dns:
  assumes "permits_ok opts w" and "j < length (uw_dns w)" and "dq_phase (uw_dns w ! j) \<noteq> DnsFinished"
    and "uw_permits w' = uw_permits w + (if dq_phase q = DnsFinished then 1 else 0)"
    and "uw_dns w' = (uw_dns w)[j := q]"
  shows "permits_ok opts w'"
  using assms length_filter_update[OF assms(2), of "\<lambda>q. dq_phase q \<noteq> DnsFinished" q]
  by (auto simp: permits_ok_def split: if_splits)

lemma permits_ok_step:
  assumes "udp_step opts w w'" and ok: "permits_ok opts w"
  shows "permits_ok opts w'"
  using assms(1)
proof cases
  case (take_done dead rest)
  then show ?thesis using ok by (auto simp: permits_ok_def handle_done_def split: option.splits)
next
  case (take_packet item)
  obtain payload src dst where item: "item = (payload, src, dst)" by (cases item)
  then show ?thesis using ok take_packet(1)
    by (auto simp: permits_ok_def handle_packet_def Let_def dispatch_dns_def count_packet_def)
next
  case input_ends
  then show ?thesis using ok by (simp add: permits_ok_def udp_shutdown_def)
next
  case (begins i)
  then show ?thesis using ok by (simp add: permits_ok_def session_begin_def)
next
  case (associated i)
  then show ?thesis using ok by (simp add: permits_ok_def)
next
  case (not_associated i)
  then show ?thesis using ok by (simp add: permits_ok_def)
next
  case (selects i ev)
  then show ?thesis using ok session_select_dns by (simp add: permits_ok_def)
next
  case (reports i)
  then show ?thesis using ok by (simp add: permits_ok_def session_report_def)
next
  case (dns_begins j)
  then show ?thesis
    by (intro permits_ok_dns[OF ok dns_begins(2), where q = "(uw_dns w ! j)\<lparr>dq_phase := DnsAsking\<rparr>"])
      (simp_all add: dns_begin_def)
next
  case (dns_resolves j r)
  show ?thesis
  proof (cases r)
    case (Inl e)
    then show ?thesis using dns_resolves
      by (intro permits_ok_dns[OF ok dns_resolves(2), where q = "(uw_dns w ! j)\<lparr>dq_phase := DnsFinished\<rparr>"])
        (simp_all add: dns_resolved_def Let_def release_permit_def)
  next
    case (Inr resp)
    then show ?thesis using dns_resolves
      by (intro permits_ok_dns[OF ok dns_resolves(2),
            where q = "(uw_dns w ! j)\<lparr>dq_phase := DnsReplying resp, dq_answers := dq_answers (uw_dns w ! j) @ [resp]\<rparr>"])
        (simp_all add: dns_resolved_def Let_def)
  qed
next
  case (dns_replies j resp)
  then show ?thesis
    by (intro permits_ok_dns[OF ok dns_replies(1), where q = "(uw_dns w ! j)\<lparr>dq_phase := DnsFinished\<rparr>"])
      (auto simp: dns_reply_def Let_def push_reply_def release_permit_def split: if_splits)
next
  case (writes b)
  then show ?thesis using ok
    by (auto simp: permits_ok_def write_reply_def Let_def split: list.splits if_splits)
next
  case (settings_change shared)
  then show ?thesis using ok by (simp add: permits_ok_def)
qed

text \<open>
  C15. At most \<open>max_sessions\<close> DNS queries run at the same time, and every permit comes back: the
  permits left and the queries running always add up to the limit.
\<close>

theorem dns_queries_bounded:
  assumes "udp_reachable opts shared log w"
  shows "uw_permits w + length (filter (\<lambda>q. dq_phase q \<noteq> DnsFinished) (uw_dns w)) = uo_max_sessions opts"
proof -
  have "permits_ok opts w"
    using assms
  proof (induction rule: rtranclp_induct)
    case base
    show ?case by (simp add: permits_ok_def udp_init_def)
  next
    case (step w w')
    then show ?case by (blast intro: permits_ok_step)
  qed
  then show ?thesis by (simp add: permits_ok_def)
qed

section \<open>Order\<close>

text \<open>The frames a session has sent are those of the first datagrams it accepted, in order.\<close>

abbreviation frame_of :: "SocketAddr \<times> bytes \<Rightarrow> bytes" where
  "frame_of x \<equiv> encode_udp (fst x) (snd x) []"

definition fifo_ok :: "session \<Rightarrow> bool" where
  "fifo_ok s \<longleftrightarrow> (\<exists>rest. map frame_of (st_accepted s) = st_frames s @ rest \<and>
     (receiving s \<longrightarrow> rest = map frame_of (st_queue s)))"

definition all_fifo :: "udp_world \<Rightarrow> bool" where
  "all_fifo w \<longleftrightarrow> (\<forall>s\<in>set (uw_tasks w). fifo_ok s)"

lemma all_fifo_nth: "all_fifo w \<Longrightarrow> i < length (uw_tasks w) \<Longrightarrow> fifo_ok (uw_tasks w ! i)"
  by (simp add: all_fifo_def)

lemma all_fifo_upd:
  assumes "all_fifo w" and "uw_tasks w' = (uw_tasks w)[i := s]" and "i < length (uw_tasks w) \<Longrightarrow> fifo_ok s"
  shows "all_fifo w'"
proof (cases "i < length (uw_tasks w)")
  case True
  then show ?thesis using assms set_update_subset_insert[of "uw_tasks w" i s] by (auto simp: all_fifo_def)
next
  case False
  then show ?thesis using assms by (simp add: all_fifo_def list_update_beyond)
qed

lemma fifo_stop: "fifo_ok s \<Longrightarrow> st_accepted s' = st_accepted s \<Longrightarrow> st_frames s' = st_frames s \<Longrightarrow>
    \<not> receiving s' \<or> (st_queue s' = st_queue s \<and> receiving s) \<Longrightarrow> fifo_ok s'"
  by (auto simp: fifo_ok_def)

lemma all_fifo_return: "all_fifo w \<Longrightarrow> all_fifo (session_return i r w)"
proof -
  assume ok: "all_fifo w"
  have "all_fifo (upd_task i (\<lambda>s. s\<lparr>st_phase := Reporting, st_queue := []\<rparr>) w)"
    by (rule all_fifo_upd[OF ok upd_task_simps(3)], rule fifo_stop[OF all_fifo_nth[OF ok]])
      (simp_all add: receiving_def)
  then show ?thesis by (simp add: session_return_def Let_def all_fifo_def split: sum.split)
qed

lemma all_fifo_forward:
  assumes ok: "all_fifo w"
  shows "all_fifo (forward payload src dst w)"
proof (cases "hm_get (uw_sessions w) src")
  case (Some i)
  let ?s = "uw_tasks w ! i" and ?x = "(dst, payload)"
  have "all_fifo (snd (try_send i ?x w))"
  proof (cases "is_closed i w \<or> length (st_queue ?s) \<ge> SESSION_CHANNEL_DEPTH")
    case False
    have "all_fifo (upd_task i (\<lambda>s. s\<lparr>st_queue := st_queue s @ [?x], st_accepted := st_accepted s @ [?x]\<rparr>) w)"
      by (rule all_fifo_upd[OF ok upd_task_simps(3)], use all_fifo_nth[OF ok, of i] False in
          \<open>auto simp: fifo_ok_def is_closed_def receiving_def\<close>)
    then show ?thesis using False by (simp add: try_send_def)
  qed (use ok in \<open>simp add: try_send_def\<close>)
  then show ?thesis using Some
    by (auto simp: forward_def all_fifo_def split: prod.splits bool.splits)
qed (simp add: forward_def ok)

lemma all_fifo_packet:
  assumes "all_fifo w"
  shows "all_fifo (handle_packet opts item w)"
proof -
  obtain payload src dst where item: "item = (payload, src, dst)" by (cases item)
  let ?w = "count_packet payload dst w"
  have ok: "all_fifo ?w" using assms by (simp add: all_fifo_def count_packet_def)
  have new: "fifo_ok (new_session src proxy)" for proxy by (simp add: fifo_ok_def new_session_def)
  have "all_fifo (w\<lparr>uw_tasks := uw_tasks w @ [new_session src proxy], uw_sessions := m\<rparr>)" if "all_fifo w" for w proxy m
    using that new by (simp add: all_fifo_def)
  then have "all_fifo (dispatch_session opts payload src dst ?w)"
    using ok all_fifo_forward
    by (auto simp: dispatch_session_def Let_def spawn_session_def all_fifo_def[of "udp_debug _ _"]
        all_fifo_def[of ?w])
  moreover have "all_fifo (dispatch_dns payload src dst ?w)"
    using ok by (simp add: dispatch_dns_def all_fifo_def)
  ultimately show ?thesis using item by (simp add: handle_packet_def Let_def)
qed

text \<open>One turn of the loop either sends the frame of the datagram it took, or stops the session.\<close>

lemma session_iter_frame:
  "session_iter src ev = SendFrame frame \<Longrightarrow> \<exists>x. ev = Outbound (Some x) None \<and> frame = frame_of x"
  by (auto simp: session_iter_def Let_def split: select_event.splits option.splits sum.splits if_splits)

lemma session_iter_outbound:
  "session_iter src (Outbound (Some x) r) = (case r of None \<Rightarrow> SendFrame (frame_of x)
     | Some m \<Rightarrow> Return (Inl [''failed to send datagram to relay'', m]))"
  by (cases x) (simp add: session_iter_def Let_def split: option.split)

lemma all_fifo_select:
  assumes ok: "all_fifo w" and i: "i < length (uw_tasks w)" and ph: "st_phase (uw_tasks w ! i) = Relaying"
    and step: "session_select i ev w = Some w'"
  shows "all_fifo w'"
proof -
  let ?s = "uw_tasks w ! i"
  obtain u where u: "take_event i ev w = Some u"
    and flow: "perform_flow i (session_iter (st_src ?s) ev) u = Some w'"
    using step by (auto simp: session_select_def split: option.splits)
  show ?thesis
  proof (cases "\<exists>x r. ev = Outbound (Some x) r")
    case True
    then obtain x r where ev: "ev = Outbound (Some x) r" by blast
    then obtain ys where q: "st_queue ?s = x # ys" and u': "u = upd_task i (st_queue_update (\<lambda>_. ys)) w"
      using u by (auto simp: take_event_def Let_def split: list.splits if_splits)
    have f: "map frame_of (st_accepted ?s) = st_frames ?s @ frame_of x # map frame_of ys"
      using all_fifo_nth[OF ok i] ph q by (auto simp: fifo_ok_def receiving_def)
    have tasks: "uw_tasks (upd_task i g u) = (uw_tasks w)[i := g (?s\<lparr>st_queue := ys\<rparr>)]" for g
      using u' i by simp
    show ?thesis
    proof (cases r)
      case None
      then have w': "w' = upd_task i (\<lambda>s. s\<lparr>st_frames := st_frames s @ [frame_of x]\<rparr>) u"
        using flow ev by (simp add: session_iter_outbound perform_flow_def)
      show ?thesis unfolding w'
        by (rule all_fifo_upd[OF ok tasks]) (use f in \<open>simp add: fifo_ok_def receiving_def\<close>)
    next
      case (Some m)
      then have w': "w' = session_return i (Inl [''failed to send datagram to relay'', m]) u"
        using flow ev by (simp add: session_iter_outbound perform_flow_def)
      have "all_fifo (upd_task i (\<lambda>s. s\<lparr>st_phase := Reporting, st_queue := []\<rparr>) u)"
        by (rule all_fifo_upd[OF ok tasks]) (use f in \<open>simp add: fifo_ok_def receiving_def\<close>)
      then show ?thesis unfolding w' by (simp add: session_return_def Let_def all_fifo_def)
    qed
  next
    case False
    then have "u = w \<or> (\<exists>d. u = upd_task i (\<lambda>s. s\<lparr>st_heard := st_heard s @ [d]\<rparr>) w)"
      using u by (auto simp: take_event_def Let_def split: select_event.splits option.splits sum.splits if_splits)
    then have ok': "all_fifo u"
      using ok all_fifo_upd[OF ok upd_task_simps(3)] fifo_stop[OF all_fifo_nth[OF ok i]] ph
      by (auto simp: receiving_def)
    show ?thesis
    proof (cases "session_iter (st_src ?s) ev")
      case (SendFrame frame)
      then show ?thesis using session_iter_frame False by blast
    next
      case (SendReply msg)
      have "all_fifo (u\<lparr>uw_replies := rs\<rparr>)" for rs using ok' by (simp add: all_fifo_def)
      then show ?thesis using flow SendReply all_fifo_return[OF ok']
        by (auto simp: perform_flow_def push_reply_def split: if_splits)
    qed (use flow ok' session_iter_no_panic all_fifo_return[OF ok'] in \<open>auto simp: perform_flow_def\<close>)
  qed
qed

lemma all_fifo_step:
  assumes "udp_step opts w w'" and ok: "all_fifo w"
  shows "all_fifo w'"
  using assms(1)
proof cases
  case (take_done dead rest)
  then show ?thesis using ok by (auto simp: all_fifo_def handle_done_def split: option.splits)
next
  case (take_packet item)
  then show ?thesis using all_fifo_packet[OF ok] by simp
next
  case input_ends
  then show ?thesis using ok by (auto simp: all_fifo_def udp_shutdown_def fifo_ok_def receiving_def)
next
  case (begins i)
  have "all_fifo (upd_task i (st_phase_update (\<lambda>_. Associating)) w)"
    by (rule all_fifo_upd[OF ok upd_task_simps(3)], rule fifo_stop[OF all_fifo_nth[OF ok]])
      (use begins in \<open>auto simp: receiving_def\<close>)
  then show ?thesis using begins by (simp add: session_begin_def all_fifo_def)
next
  case (associated i)
  show ?thesis unfolding associated(1)
    by (rule all_fifo_upd[OF ok upd_task_simps(3)], rule fifo_stop[OF all_fifo_nth[OF ok]])
      (use associated in \<open>auto simp: receiving_def\<close>)
next
  case (not_associated i)
  then show ?thesis using all_fifo_return[OF ok] by simp
next
  case (selects i ev)
  then show ?thesis using all_fifo_select[OF ok] by blast
next
  case (reports i)
  let ?u = "w\<lparr>uw_done := uw_done w @ [st_src (uw_tasks w ! i)]\<rparr>"
  have "all_fifo (upd_task i (st_phase_update (\<lambda>_. Finished)) ?u)"
    by (rule all_fifo_upd[of ?u, OF _ upd_task_simps(3)])
      (use ok reports fifo_stop[OF all_fifo_nth[OF ok, of i]] in \<open>auto simp: all_fifo_def receiving_def\<close>)
  then show ?thesis using reports by (simp add: session_report_def all_fifo_def)
next
  case (writes b)
  then show ?thesis using ok
    by (auto simp: all_fifo_def write_reply_def Let_def split: list.splits if_splits)
qed (use ok in \<open>auto simp: all_fifo_def dns_begin_def dns_resolved_def dns_reply_def release_permit_def Let_def
    push_reply_def split: sum.splits if_splits\<close>)

text \<open>
  C10. Datagrams are relayed in order, unchanged and without gaps: at any time the frames a session has
  sent to its relay are the encodings of the first datagrams its client's queue accepted, and while
  the session runs the rest of them is exactly what waits in the queue.
\<close>

theorem udp_relay_in_order:
  assumes "udp_reachable opts shared log w" and "i < length (uw_tasks w)"
  shows "\<exists>rest. map (\<lambda>(dst, payload). encode_udp dst payload []) (st_accepted (uw_tasks w ! i)) =
      st_frames (uw_tasks w ! i) @ rest \<and>
    (receiving (uw_tasks w ! i) \<longrightarrow>
       rest = map (\<lambda>(dst, payload). encode_udp dst payload []) (st_queue (uw_tasks w ! i)))"
proof -
  have "all_fifo w"
    using assms(1)
  proof (induction rule: rtranclp_induct)
    case base
    show ?case by (simp add: all_fifo_def udp_init_def)
  next
    case (step w w')
    then show ?case by (blast intro: all_fifo_step)
  qed
  from all_fifo_nth[OF this assms(2)] show ?thesis unfolding fifo_ok_def case_prod_unfold .
qed

section \<open>Where replies come from\<close>

definition reply_source :: "udp_world \<Rightarrow> UdpMsg \<Rightarrow> bool" where
  "reply_source w msg \<longleftrightarrow>
     (case msg of (data, remote, local) \<Rightarrow>
       (\<exists>s\<in>set (uw_tasks w). st_src s = local \<and>
          (\<exists>dgram\<in>set (st_heard s). decode_udp (take MAX_DATAGRAM dgram) = Inr (Some (remote, data)))) \<or>
       (\<exists>q\<in>set (uw_dns w). dq_src q = local \<and> dq_dst q = remote \<and> data \<in> set (dq_answers q)))"

definition sources_ok :: "udp_world \<Rightarrow> bool" where
  "sources_ok w \<longleftrightarrow>
     (\<forall>msg\<in>set (uw_replies w) \<union> set (uw_delivered w). reply_source w msg) \<and>
     (\<forall>q\<in>set (uw_dns w). \<forall>resp. dq_phase q = DnsReplying resp \<longrightarrow> resp \<in> set (dq_answers q))"

text \<open>Histories only grow.\<close>

definition session_grows :: "session \<Rightarrow> session \<Rightarrow> bool" where
  "session_grows s s' \<longleftrightarrow> st_src s' = st_src s \<and> set (st_heard s) \<subseteq> set (st_heard s')"

definition query_grows :: "dns_query \<Rightarrow> dns_query \<Rightarrow> bool" where
  "query_grows q q' \<longleftrightarrow>
     dq_src q' = dq_src q \<and> dq_dst q' = dq_dst q \<and> set (dq_answers q) \<subseteq> set (dq_answers q')"

definition histories_grow :: "udp_world \<Rightarrow> udp_world \<Rightarrow> bool" where
  "histories_grow w w' \<longleftrightarrow>
     (\<forall>s\<in>set (uw_tasks w). \<exists>s'\<in>set (uw_tasks w'). session_grows s s') \<and>
     (\<forall>q\<in>set (uw_dns w). \<exists>q'\<in>set (uw_dns w'). query_grows q q')"

lemma reply_source_grows:
  assumes "reply_source w msg" and "histories_grow w w'"
  shows "reply_source w' msg"
proof -
  obtain data remote local where msg: "msg = (data, remote, local)" by (cases msg)
  from assms(1) consider
    s dgram where "s \<in> set (uw_tasks w)" "st_src s = local" "dgram \<in> set (st_heard s)"
      "decode_udp (take MAX_DATAGRAM dgram) = Inr (Some (remote, data))"
    | q where "q \<in> set (uw_dns w)" "dq_src q = local" "dq_dst q = remote" "data \<in> set (dq_answers q)"
    unfolding reply_source_def msg by auto
  then show ?thesis
  proof cases
    case 1
    then obtain s' where "s' \<in> set (uw_tasks w')" "session_grows s s'"
      using assms(2) unfolding histories_grow_def by blast
    then show ?thesis using 1 unfolding reply_source_def msg session_grows_def by auto
  next
    case 2
    then obtain q' where "q' \<in> set (uw_dns w')" "query_grows q q'"
      using assms(2) unfolding histories_grow_def by blast
    then show ?thesis using 2 unfolding reply_source_def msg query_grows_def by auto
  qed
qed

lemma session_grows_refl [simp]: "session_grows s s" "query_grows q q"
  by (simp_all add: session_grows_def query_grows_def)

lemma histories_same: "uw_tasks w' = uw_tasks w \<Longrightarrow> uw_dns w' = uw_dns w \<Longrightarrow> histories_grow w w'"
  unfolding histories_grow_def using session_grows_refl by fastforce

lemma histories_task:
  assumes "uw_tasks w' = (uw_tasks w)[i := s]" and "session_grows (uw_tasks w ! i) s" and "uw_dns w' = uw_dns w"
  shows "histories_grow w w'"
proof -
  have "\<exists>s'\<in>set (uw_tasks w'). session_grows t s'" if t: "t \<in> set (uw_tasks w)" for t
  proof -
    obtain j where j: "j < length (uw_tasks w)" "t = uw_tasks w ! j" using t by (auto simp: in_set_conv_nth)
    have "session_grows t (uw_tasks w' ! j)"
      using j assms(1,2) by (cases "j = i") (simp_all add: session_grows_def)
    moreover have "uw_tasks w' ! j \<in> set (uw_tasks w')" using j assms(1) by simp
    ultimately show ?thesis by blast
  qed
  then show ?thesis using assms(3) session_grows_refl(2) unfolding histories_grow_def by fastforce
qed

lemma histories_dns:
  assumes "uw_dns w' = (uw_dns w)[j := q]" and "uw_tasks w' = uw_tasks w" and "query_grows (uw_dns w ! j) q"
  shows "histories_grow w w'"
proof -
  have "\<exists>q'\<in>set (uw_dns w'). query_grows p q'" if p: "p \<in> set (uw_dns w)" for p
  proof -
    obtain n where n: "n < length (uw_dns w)" "p = uw_dns w ! n" using p by (auto simp: in_set_conv_nth)
    have "query_grows p (uw_dns w' ! n)" using n assms by (cases "n = j") simp_all
    moreover have "uw_dns w' ! n \<in> set (uw_dns w')" using n assms(1) by simp
    ultimately show ?thesis by blast
  qed
  then show ?thesis using assms(2) session_grows_refl(1) unfolding histories_grow_def by fastforce
qed

lemma histories_append:
  assumes "uw_tasks w' = uw_tasks w @ ss" and "uw_dns w' = uw_dns w @ qs"
  shows "histories_grow w w'"
  unfolding histories_grow_def assms using session_grows_refl by fastforce

lemma session_grows_trans: "session_grows r s \<Longrightarrow> session_grows s t \<Longrightarrow> session_grows r t"
  and query_grows_trans: "query_grows p q \<Longrightarrow> query_grows q q' \<Longrightarrow> query_grows p q'"
  by (auto simp: session_grows_def query_grows_def)

lemma histories_trans:
  assumes "histories_grow u v" and "histories_grow v w"
  shows "histories_grow u w"
  unfolding histories_grow_def
proof (intro conjI ballI)
  fix s assume "s \<in> set (uw_tasks u)"
  then obtain t where "t \<in> set (uw_tasks v)" "session_grows s t" using assms(1) by (auto simp: histories_grow_def)
  moreover from this obtain x where "x \<in> set (uw_tasks w)" "session_grows t x"
    using assms(2) by (auto simp: histories_grow_def)
  ultimately show "\<exists>x\<in>set (uw_tasks w). session_grows s x" using session_grows_trans by blast
next
  fix q assume "q \<in> set (uw_dns u)"
  then obtain p where "p \<in> set (uw_dns v)" "query_grows q p" using assms(1) by (auto simp: histories_grow_def)
  moreover from this obtain x where "x \<in> set (uw_dns w)" "query_grows p x"
    using assms(2) by (auto simp: histories_grow_def)
  ultimately show "\<exists>x\<in>set (uw_dns w). query_grows q x" using query_grows_trans by blast
qed

lemma sources_ok_grows:
  assumes ok: "sources_ok w" and "histories_grow w w'"
    and "\<And>msg. msg \<in> set (uw_replies w') \<union> set (uw_delivered w') \<Longrightarrow>
      msg \<in> set (uw_replies w) \<union> set (uw_delivered w) \<or> reply_source w' msg"
    and "\<And>q resp. q \<in> set (uw_dns w') \<Longrightarrow> dq_phase q = DnsReplying resp \<Longrightarrow>
      q \<in> set (uw_dns w) \<or> resp \<in> set (dq_answers q)"
  shows "sources_ok w'"
  using ok assms(3,4) reply_source_grows[OF _ assms(2)] unfolding sources_ok_def by blast

lemma sources_ok_same:
  assumes "sources_ok w" and "histories_grow w w'" and "uw_replies w' = uw_replies w"
    and "uw_delivered w' = uw_delivered w" and "uw_dns w' = uw_dns w"
  shows "sources_ok w'"
  by (rule sources_ok_grows[OF assms(1,2)]) (simp_all add: assms)

lemma histories_return: "histories_grow w (session_return i r w)"
  by (rule histories_task[where i = i and s = "(uw_tasks w ! i)\<lparr>st_phase := Reporting, st_queue := []\<rparr>"])
    (auto simp: session_return_def Let_def session_grows_def split: sum.splits)

lemma histories_forward: "histories_grow w (forward payload src dst w)"
proof (cases "hm_get (uw_sessions w) src")
  case (Some i)
  let ?x = "(dst, payload)"
  have "uw_tasks (forward payload src dst w) = uw_tasks w \<or>
    uw_tasks (forward payload src dst w) = (uw_tasks w)[i := (uw_tasks w ! i)\<lparr>st_queue := st_queue (uw_tasks w ! i) @ [?x],
      st_accepted := st_accepted (uw_tasks w ! i) @ [?x]\<rparr>]"
    using Some by (auto simp: forward_def try_send_def)
  then show ?thesis
    by (auto intro: histories_same histories_task simp: session_grows_def)
qed (simp add: forward_def histories_same)

lemma histories_packet: "histories_grow w (handle_packet opts item w)"
proof -
  obtain payload src dst where item: "item = (payload, src, dst)" by (cases item)
  let ?w = "count_packet payload dst w"
  have start: "histories_grow w ?w" by (rule histories_same) (simp_all add: count_packet_def)
  have "histories_grow ?w (dispatch_dns payload src dst ?w)"
  proof (cases "uw_permits ?w > 0")
    case True
    then show ?thesis
      by (intro histories_append[where ss = "[]" and
            qs = "[\<lparr>dq_dst = dst, dq_src = src, dq_payload = payload, dq_phase = DnsSpawned, dq_answers = []\<rparr>]"])
        (simp_all add: dispatch_dns_def)
  qed (auto intro: histories_same simp: dispatch_dns_def)
  moreover have "histories_grow ?w (dispatch_session opts payload src dst ?w)"
  proof -
    have spawn: "histories_grow ?w (forward payload src dst (?w\<lparr>uw_tasks := uw_tasks ?w @ [s], uw_sessions := m\<rparr>))" for s m
      by (rule histories_trans[OF histories_append[where ss = "[s]" and qs = "[]"] histories_forward]) simp_all
    show ?thesis
      using spawn by (auto simp: dispatch_session_def Let_def spawn_session_def
          intro: histories_forward histories_same)
  qed
  ultimately show ?thesis using item histories_trans[OF start] by (simp add: handle_packet_def Let_def)
qed

lemma sources_ok_packet:
  assumes "sources_ok w"
  shows "sources_ok (handle_packet opts item w)"
proof -
  obtain payload src dst where item: "item = (payload, src, dst)" by (cases item)
  show ?thesis
    by (rule sources_ok_grows[OF assms histories_packet])
      (auto simp: item handle_packet_def Let_def dispatch_dns_def count_packet_def split: if_splits)
qed

text \<open>A turn of the session loop adds to the replies only what was decoded from a datagram just heard.\<close>

lemma sources_ok_select:
  assumes ok: "sources_ok w" and i: "i < length (uw_tasks w)" and step: "session_select i ev w = Some w'"
  shows "sources_ok w'"
proof -
  let ?s = "uw_tasks w ! i"
  obtain u where u: "take_event i ev w = Some u"
    and flow: "perform_flow i (session_iter (st_src ?s) ev) u = Some w'"
    using step by (auto simp: session_select_def split: option.splits)
  note rest = take_event_rest[OF u]
  have "\<exists>t. uw_tasks u = (uw_tasks w)[i := t] \<and> session_grows ?s t"
  proof -
    consider "u = w" | g where "u = upd_task i (st_queue_update g) w"
      | d where "u = upd_task i (\<lambda>s. s\<lparr>st_heard := st_heard s @ [d]\<rparr>) w"
      using u by (auto simp: take_event_def Let_def
          split: select_event.splits option.splits list.splits sum.splits if_splits)
    then show ?thesis
    proof cases
      case 1
      then show ?thesis by (intro exI[of _ ?s]) (simp add: session_grows_def)
    next
      case (2 g)
      then show ?thesis by (intro exI[of _ "st_queue_update g ?s"]) (simp add: session_grows_def)
    next
      case (3 d)
      then show ?thesis by (intro exI[of _ "?s\<lparr>st_heard := st_heard ?s @ [d]\<rparr>"]) (auto simp: session_grows_def)
    qed
  qed
  then have ok': "sources_ok u"
    using sources_ok_same[OF ok histories_task] rest by blast
  have ret: "sources_ok (session_return i r u)" for r
    by (rule sources_ok_same[OF ok' histories_return]) simp_all
  show ?thesis
  proof (cases "session_iter (st_src ?s) ev")
    case (SendFrame frame)
    have "sources_ok (upd_task i (\<lambda>s. s\<lparr>st_frames := st_frames s @ [frame]\<rparr>) u)"
      by (rule sources_ok_same[OF ok' histories_task[OF upd_task_simps(3)]]) (simp_all add: session_grows_def)
    then show ?thesis using flow SendFrame by (simp add: perform_flow_def)
  next
    case (SendReply msg)
    then obtain dgram remote data where ev: "ev = Received (Inr dgram)" and
      dec: "decode_udp (take MAX_DATAGRAM dgram) = Inr (Some (remote, data))" and msg: "msg = (data, remote, st_src ?s)"
      by (auto simp: session_iter_def Let_def split: select_event.splits option.splits sum.splits if_splits)
    have src: "reply_source (u\<lparr>uw_replies := rs\<rparr>) msg" for rs
    proof -
      have "uw_tasks u ! i \<in> set (uw_tasks u)" "st_src (uw_tasks u ! i) = st_src ?s" "dgram \<in> set (st_heard (uw_tasks u ! i))"
        using u i ev by (auto simp: take_event_def Let_def intro: set_update_memI)
      then show ?thesis using dec unfolding reply_source_def msg by auto
    qed
    have "sources_ok (u\<lparr>uw_replies := uw_replies u @ [msg]\<rparr>)"
      by (rule sources_ok_grows[OF ok']) (use src in \<open>auto intro: histories_same\<close>)
    then show ?thesis using flow SendReply ret
      by (auto simp: perform_flow_def push_reply_def split: if_splits)
  qed (use flow ok' ret session_iter_no_panic in \<open>auto simp: perform_flow_def\<close>)
qed

lemma sources_ok_dns:
  assumes ok: "sources_ok w" and t: "uw_tasks w' = uw_tasks w" and d: "uw_dns w' = (uw_dns w)[j := q]"
    and q: "query_grows (uw_dns w ! j) q"
    and resp: "\<And>resp. dq_phase q = DnsReplying resp \<Longrightarrow> resp \<in> set (dq_answers q)"
    and r: "\<And>msg. msg \<in> set (uw_replies w') \<union> set (uw_delivered w') \<Longrightarrow>
      msg \<in> set (uw_replies w) \<union> set (uw_delivered w) \<or> reply_source w' msg"
  shows "sources_ok w'"
proof (rule sources_ok_grows[OF ok histories_dns[OF d t q] r])
  fix p resp assume "p \<in> set (uw_dns w')" and ph: "dq_phase p = DnsReplying resp"
  then have "p = q \<or> p \<in> set (uw_dns w)"
    using set_update_subset_insert[of "uw_dns w" j q] unfolding d by blast
  then show "p \<in> set (uw_dns w) \<or> resp \<in> set (dq_answers p)" using assms(5) ph by blast
qed

lemma sources_ok_step:
  assumes "udp_step opts w w'" and ok: "sources_ok w"
  shows "sources_ok w'"
  using assms(1)
proof cases
  case (take_done dead rest)
  show ?thesis unfolding take_done(1)
    by (rule sources_ok_same[OF ok histories_same]) (simp_all add: handle_done_def split: option.split)
next
  case (take_packet item)
  then show ?thesis using sources_ok_packet[OF ok] by simp
next
  case input_ends
  have "histories_grow w w'"
    unfolding input_ends(1) histories_grow_def udp_shutdown_def
    by (auto simp: session_grows_def query_grows_def)
  then show ?thesis
    by (rule sources_ok_same[OF ok]) (simp_all add: input_ends(1) udp_shutdown_def)
next
  case (begins i)
  show ?thesis unfolding begins(1)
    by (rule sources_ok_same[OF ok histories_task[where i = i and s = "(uw_tasks w ! i)\<lparr>st_phase := Associating\<rparr>"]])
      (simp_all add: session_begin_def session_grows_def)
next
  case (associated i)
  show ?thesis unfolding associated(1)
    by (rule sources_ok_same[OF ok histories_task[OF upd_task_simps(3)]]) (simp_all add: session_grows_def)
next
  case (not_associated i)
  show ?thesis unfolding not_associated(1) by (rule sources_ok_same[OF ok histories_return]) simp_all
next
  case (selects i ev)
  then show ?thesis using sources_ok_select[OF ok] by blast
next
  case (reports i)
  show ?thesis unfolding reports(1)
    by (rule sources_ok_same[OF ok histories_task[where i = i and s = "(uw_tasks w ! i)\<lparr>st_phase := Finished\<rparr>"]])
      (simp_all add: session_report_def session_grows_def)
next
  case (dns_begins j)
  show ?thesis unfolding dns_begins(1)
    by (rule sources_ok_dns[OF ok, where j = j and q = "(uw_dns w ! j)\<lparr>dq_phase := DnsAsking\<rparr>"])
      (auto simp: dns_begin_def query_grows_def)
next
  case (dns_resolves j r)
  show ?thesis
  proof (cases r)
    case (Inl e)
    show ?thesis unfolding dns_resolves(1) Inl
      by (rule sources_ok_dns[OF ok, where j = j and q = "(uw_dns w ! j)\<lparr>dq_phase := DnsFinished\<rparr>"])
        (auto simp: dns_resolved_def Let_def release_permit_def query_grows_def)
  next
    case (Inr resp)
    show ?thesis unfolding dns_resolves(1) Inr
      by (rule sources_ok_dns[OF ok, where j = j and
            q = "(uw_dns w ! j)\<lparr>dq_phase := DnsReplying resp, dq_answers := dq_answers (uw_dns w ! j) @ [resp]\<rparr>"])
        (auto simp: dns_resolved_def Let_def query_grows_def)
  qed
next
  case (dns_replies j resp)
  let ?q = "uw_dns w ! j"
  have "?q \<in> set (uw_dns w)" using dns_replies(1) by simp
  then have answer: "resp \<in> set (dq_answers ?q)"
    using ok dns_replies(2) unfolding sources_ok_def by blast
  have tasks: "uw_tasks w' = uw_tasks w" and dns: "uw_dns w' = (uw_dns w)[j := ?q\<lparr>dq_phase := DnsFinished\<rparr>]"
    and replies: "set (uw_replies w') \<subseteq> set (uw_replies w) \<union> {(resp, dq_dst ?q, dq_src ?q)}"
      "uw_delivered w' = uw_delivered w"
    using dns_replies(3) by (auto simp: dns_reply_def Let_def push_reply_def release_permit_def split: if_splits)
  have "?q\<lparr>dq_phase := DnsFinished\<rparr> \<in> set (uw_dns w')" using dns dns_replies(1) by (simp add: set_update_memI)
  then have "reply_source w' (resp, dq_dst ?q, dq_src ?q)"
    using answer unfolding reply_source_def by force
  then show ?thesis
    by (intro sources_ok_dns[OF ok tasks dns]) (use replies in \<open>auto simp: query_grows_def\<close>)
next
  case (writes b)
  show ?thesis
    by (rule sources_ok_grows[OF ok histories_same])
      (use writes in \<open>auto simp: write_reply_def Let_def split: list.splits if_splits\<close>)
next
  case (settings_change shared)
  show ?thesis unfolding settings_change by (rule sources_ok_same[OF ok histories_same]) simp_all
qed

text \<open>
  C9. A client only receives what is meant for it. Every datagram written back to the tunnel for a
  client is either the payload of a relay frame that a session of that client received, with the
  remote address of that frame, or the pool's answer to a DNS query of that client, from the server
  it asked.
\<close>

theorem udp_replies_authentic:
  assumes "udp_reachable opts shared log w" and "(data, remote, local) \<in> set (uw_delivered w)"
  shows "(\<exists>s\<in>set (uw_tasks w). st_src s = local \<and>
      (\<exists>dgram\<in>set (st_heard s). decode_udp (take MAX_DATAGRAM dgram) = Inr (Some (remote, data)))) \<or>
    (\<exists>q\<in>set (uw_dns w). dq_src q = local \<and> dq_dst q = remote \<and> data \<in> set (dq_answers q))"
proof -
  have "sources_ok w"
    using assms(1)
  proof (induction rule: rtranclp_induct)
    case base
    show ?case by (simp add: sources_ok_def udp_init_def)
  next
    case (step w w')
    then show ?case by (blast intro: sources_ok_step)
  qed
  then have "reply_source w (data, remote, local)" using assms(2) by (simp add: sources_ok_def)
  then show ?thesis by (simp add: reply_source_def)
qed

end
