(* ===== verification/Udp_Runs.thy ===== *)
theory Udp_Runs
  imports Udp_Sessions
begin

text \<open>
  Runs of the UDP side: one that shows what happens when the input ends with many sessions open, and
  a small one on which the invariants are applied.
\<close>

section \<open>The end of the input\<close>

text \<open>
  Nothing takes messages from the done channel after the input has ended. Once it is full, a session
  that wants to report waits forever.
\<close>

definition stuck :: "nat \<Rightarrow> udp_world \<Rightarrow> bool" where
  "stuck i w \<longleftrightarrow> \<not> uw_running w \<and> DONE_CHANNEL_DEPTH \<le> length (uw_done w) \<and>
     i < length (uw_tasks w) \<and> st_phase (uw_tasks w ! i) = Reporting"

lemma session_return_tasks [simp]:
  "uw_tasks (session_return j r w) =
     (uw_tasks w)[j := (uw_tasks w ! j)\<lparr>st_phase := Reporting, st_queue := []\<rparr>]"
  "uw_running (session_return j r w) = uw_running w" "uw_done (session_return j r w) = uw_done w"
  "uw_sessions (session_return j r w) = uw_sessions w"
  by (auto simp: session_return_def Let_def split: sum.split)

lemma session_select_stuck:
  assumes "session_select j ev w = Some w'" and "st_phase (uw_tasks w ! j) = Relaying" and "stuck i w"
  shows "stuck i w'"
proof -
  have ij: "i \<noteq> j" using assms by (auto simp: stuck_def)
  obtain u where u: "take_event j ev w = Some u"
    and flow: "perform_flow j (session_iter (st_src (uw_tasks w ! j)) ev) u = Some w'"
    using assms(1) by (auto simp: session_select_def split: option.splits)
  have "stuck i u" using take_event_frame[OF u] assms(3) ij by (auto simp: stuck_def)
  then show ?thesis using flow ij session_iter_no_panic
    by (auto simp: perform_flow_def push_reply_def stuck_def split: session_flow.splits if_splits)
qed

lemma stuck_step:
  assumes "udp_step opts w w'" and s: "stuck i w"
  shows "stuck i w'"
  using assms(1)
proof cases
  case (begins j)
  then have "i \<noteq> j" using s by (auto simp: stuck_def)
  then show ?thesis using begins s by (simp add: stuck_def session_begin_def)
next
  case (associated j)
  then have "i \<noteq> j" using s by (auto simp: stuck_def)
  then show ?thesis using associated s by (simp add: stuck_def)
next
  case (not_associated j)
  then have "i \<noteq> j" using s by (auto simp: stuck_def)
  then show ?thesis using not_associated s by (simp add: stuck_def)
next
  case (selects j ev)
  then show ?thesis using session_select_stuck s by blast
next
  case (dns_resolves j r)
  then show ?thesis using s
    by (simp add: stuck_def dns_resolved_def release_permit_def Let_def split: sum.split)
next
  case (dns_replies j resp)
  then show ?thesis using s
    by (auto simp: stuck_def dns_reply_def release_permit_def Let_def push_reply_def split: if_splits)
next
  case (writes b)
  then show ?thesis using s by (auto simp: stuck_def write_reply_def Let_def split: list.splits if_splits)
qed (use s in \<open>auto simp: stuck_def dns_begin_def\<close>)

text \<open>Many clients, each with a session whose association has failed.\<close>

definition client :: "nat \<Rightarrow> SocketAddr" where
  "client n = SockV6 (of_nat n) 9 0 0"

lemma client_inj:
  assumes "m < 65536" and "n < 65536" and "client m = client n"
  shows "m = n"
proof -
  have small: "take_bit LENGTH(128) k = k" if "k < 65536" for k :: nat
  proof (rule take_bit_nat_eq_self)
    have "(65536 :: nat) \<le> 2 ^ LENGTH(128)" by simp
    then show "k < 2 ^ LENGTH(128)" using that by linarith
  qed
  have "(of_nat m :: u128) = of_nat n" using assms(3) unfolding client_def by (rule SocketAddr.inject(2)[THEN iffD1, THEN conjunct1])
  then have "take_bit LENGTH(128) m = take_bit LENGTH(128) n" unfolding word_of_nat_eq_iff .
  then show ?thesis unfolding small[OF assms(1)] small[OF assms(2)] .
qed

definition crowd :: "nat \<Rightarrow> udp_world \<Rightarrow> bool" where
  "crowd n w \<longleftrightarrow> uw_running w \<and> uw_done w = [] \<and> length (uw_tasks w) = n \<and>
     (\<forall>i<n. st_phase (uw_tasks w ! i) = Reporting) \<and> hm_keys (uw_sessions w) = client ` {..<n}"

lemma crowd_grows:
  assumes r: "udp_reachable opts shared log w" and c: "crowd n w" and n: "n < uo_max_sessions opts" "n < 65536"
  shows "\<exists>w'. udp_reachable opts shared log w' \<and> crowd (Suc n) w'"
proof -
  let ?item = "([], client n, SockV4 1 9)"
  let ?w1 = "handle_packet opts ?item w" let ?w2 = "session_begin n ?w1"
  let ?e = "[''timed out connecting to SOCKS5 proxy for UDP associate'', ''deadline has elapsed'']"
  let ?w3 = "session_return n (Inl ?e) ?w2"
  note wf = sessions_okD(1)[OF sessions_ok_reachable[OF r]]
  have "client n \<noteq> client k" if "k < n" for k using client_inj[of n k] that n(2) by auto
  then have fresh: "client n \<notin> client ` {..<n}" by blast
  then have none: "hm_get (uw_sessions w) (client n) = None"
    using c hm.key_iff[of "client n" "uw_sessions w"] by (simp add: crowd_def)
  have len: "hm_len (uw_sessions w) = n"
  proof -
    have "inj_on client {..<n}" by (rule inj_onI) (use client_inj n(2) in simp)
    then show ?thesis using hm.len_keys[OF wf] c by (simp add: crowd_def card_image)
  qed
  have get: "hm_get (hm_insert (client n) n (uw_sessions w)) (client n) = Some n" using wf by (simp add: hm_simps)
  obtain s where s: "uw_tasks ?w1 = uw_tasks w @ [s]" "st_phase s = Spawned"
    and w1: "uw_sessions ?w1 = hm_insert (client n) n (uw_sessions w)" "uw_running ?w1 = uw_running w"
      "uw_done ?w1 = uw_done w"
    using c none len n(1) get
    by (simp add: handle_packet_def Let_def DNS_PORT_def dispatch_session_def count_packet_def spawn_session_def
        forward_def try_send_def is_closed_def crowd_def receiving_def new_session_def SESSION_CHANNEL_DEPTH_def
        nth_append list_update_append)
  have "udp_step opts w ?w1" by (rule take_packet) (use c in \<open>simp_all add: crowd_def\<close>)
  moreover have "udp_step opts ?w1 ?w2"
    by (rule begins) (use c s in \<open>simp_all add: crowd_def nth_append\<close>)
  moreover have "udp_step opts ?w2 ?w3"
    by (rule not_associated[where connect = "\<lambda>_. Unanswered" and bind = "\<lambda>_. None" and connect_udp = "\<lambda>_. None"])
      (use c s in \<open>simp_all add: crowd_def nth_append session_begin_def list_update_append session_setup_def
         udp_associate_def\<close>)
  ultimately have "udp_reachable opts shared log ?w3" using r by (meson rtranclp.rtrancl_into_rtrancl)
  moreover have "crowd (Suc n) ?w3"
    using c s w1 hm.keys_insert[OF wf, of "client n" n]
    by (auto simp: crowd_def session_begin_def nth_append list_update_append less_Suc_eq lessThan_Suc)
  ultimately show ?thesis by blast
qed

lemma crowd_reachable:
  "n \<le> uo_max_sessions opts \<Longrightarrow> n < 65536 \<Longrightarrow> \<exists>w. udp_reachable opts shared log w \<and> crowd n w"
proof (induction n)
  case 0
  have "crowd 0 (udp_init opts shared log)"
    by (simp add: crowd_def udp_init_def hm_keys_def)
  then show ?case by blast
next
  case (Suc n)
  then show ?case using crowd_grows[of opts shared log _ n] by force
qed

text \<open>The first \<open>m\<close> of them report.\<close>

lemma crowd_reports:
  assumes "udp_reachable opts shared log w" and "\<not> uw_running w" and "uw_done w = []"
    and "n = length (uw_tasks w)" and "\<And>i. i < n \<Longrightarrow> st_phase (uw_tasks w ! i) = Reporting"
    and "m \<le> n" and "m \<le> DONE_CHANNEL_DEPTH"
  shows "\<exists>w'. udp_reachable opts shared log w' \<and> \<not> uw_running w' \<and> length (uw_done w') = m \<and>
    length (uw_tasks w') = n \<and> (\<forall>i. m \<le> i \<and> i < n \<longrightarrow> st_phase (uw_tasks w' ! i) = Reporting)"
  using assms(6,7)
proof (induction m)
  case 0
  then show ?case using assms(1-5) by auto
next
  case (Suc m)
  then obtain w' where w': "udp_reachable opts shared log w'" "\<not> uw_running w'" "length (uw_done w') = m"
    "length (uw_tasks w') = n" "\<And>i. m \<le> i \<Longrightarrow> i < n \<Longrightarrow> st_phase (uw_tasks w' ! i) = Reporting"
    by auto
  have "udp_step opts w' (session_report m w')"
    by (rule reports) (use w' Suc.prems in auto)
  then have "udp_reachable opts shared log (session_report m w')"
    using w'(1) by (meson rtranclp.rtrancl_into_rtrancl)
  then show ?case
    by (intro exI[of _ "session_report m w'"]) (use w' in \<open>simp add: session_report_def\<close>)
qed

text \<open>
  C37. When the input from the tunnel ends, the UDP task may never return. With a limit of more than
  256 sessions there is a run after which the input has ended and some session waits to report its
  end, and it waits in every continuation: the done channel is full and nobody reads it any more.
  The session keeps its sender of replies, for whose end \<open>run_udp\<close> waits.
\<close>

theorem udp_shutdown_can_hang:
  assumes "DONE_CHANNEL_DEPTH < uo_max_sessions opts"
  shows "\<exists>w i. udp_reachable opts shared log w \<and> \<not> uw_running w \<and> i < length (uw_tasks w) \<and>
    (\<forall>w'. (udp_step opts)\<^sup>*\<^sup>* w w' \<longrightarrow> st_phase (uw_tasks w' ! i) = Reporting)"
proof -
  let ?n = "Suc DONE_CHANNEL_DEPTH"
  obtain w where w: "udp_reachable opts shared log w" "crowd ?n w"
    using crowd_reachable[of ?n opts shared log] assms by (auto simp: DONE_CHANNEL_DEPTH_def)
  let ?u = "udp_shutdown w"
  have "udp_step opts w ?u" by (rule input_ends) (use w(2) in \<open>simp_all add: crowd_def\<close>)
  then have u: "udp_reachable opts shared log ?u" using w(1) by (meson rtranclp.rtrancl_into_rtrancl)
  have "\<exists>v. udp_reachable opts shared log v \<and> \<not> uw_running v \<and> length (uw_done v) = DONE_CHANNEL_DEPTH \<and>
      length (uw_tasks v) = ?n \<and>
      (\<forall>i. DONE_CHANNEL_DEPTH \<le> i \<and> i < ?n \<longrightarrow> st_phase (uw_tasks v ! i) = Reporting)"
    by (rule crowd_reports[OF u]) (use w(2) in \<open>auto simp: crowd_def udp_shutdown_def\<close>)
  then obtain v where v: "udp_reachable opts shared log v" "stuck DONE_CHANNEL_DEPTH v"
    by (auto simp: stuck_def)
  have "stuck DONE_CHANNEL_DEPTH v'" if "(udp_step opts)\<^sup>*\<^sup>* v v'" for v'
    using that v(2) by (induction rule: rtranclp_induct) (auto intro: stuck_step)
  then show ?thesis using v by (intro exI[of _ v] exI[of _ DONE_CHANNEL_DEPTH]) (simp add: stuck_def)
qed

section \<open>A concrete run\<close>

definition run_opts :: UdpOptions where
  "run_opts = \<lparr>uo_idle_timeout = 60, uo_max_sessions = 300, uo_dns_over_tcp = True\<rparr>"

definition run_proxy :: ProxyConfig where
  "run_proxy = \<lparr>px_addr = SockV4 0x7F000001 1080, px_username = None, px_password = None,
     px_connect_timeout = 10, px_tcp_nodelay = True\<rparr>"

definition run_shared :: Shared where
  "run_shared = Shared_new run_proxy RouteTable_default"

definition run_client :: SocketAddr where
  "run_client = SockV4 0x0A000001 4000"

definition run_server :: SocketAddr where
  "run_server = SockV4 0x01020304 9"

text \<open>A proxy that grants an association.\<close>

definition run_connect :: "SocketAddr \<Rightarrow> connect_result" where
  "run_connect _ = Connected \<lparr>ts_rx = [5, 0, 5, 0, 0, 1, 127, 0, 0, 1, 0x10, 0], ts_rx_end = Stalled,
     ts_tx = [], ts_writes = 9, ts_tx_end = Stalled\<rparr>"

lemma run_setup:
  "\<exists>control relay. session_setup run_connect (\<lambda>_. None) (\<lambda>_. None) run_proxy = Done (control, relay)"
proof -
  have "case session_setup run_connect (\<lambda>_. None) (\<lambda>_. None) run_proxy of Done _ \<Rightarrow> True | _ \<Rightarrow> False"
    by code_simp
  then show ?thesis by (auto split: outcome.splits)
qed

definition run1 :: udp_world where
  "run1 = handle_packet run_opts ([1, 2], run_client, run_server) (udp_init run_opts run_shared (Logger_new True))"

definition run2 :: udp_world where
  "run2 = upd_task 0 (st_phase_update (\<lambda>_. Relaying)) (session_begin 0 run1)"

definition run3 :: udp_world where
  "run3 = the (session_select 0 (Outbound (Some (run_server, [1, 2])) None) run2)"

definition run4 :: udp_world where
  "run4 = the (session_select 0 (Received (Inr (encode_udp run_server [7] []))) run3)"

definition run5 :: udp_world where
  "run5 = the (write_reply True run4)"

lemma run1_tasks: "uw_tasks run1 = [(new_session run_client run_proxy)\<lparr>st_queue := [(run_server, [1, 2])],
      st_accepted := [(run_server, [1, 2])]\<rparr>]"
  and run1_rest: "uw_sessions run1 = [(run_client, 0)]" "uw_running run1" "uw_done run1 = []" "uw_replies run1 = []"
    "uw_writer run1" "uw_delivered run1 = []"
  by (simp_all add: run1_def udp_init_def handle_packet_def Let_def count_packet_def dispatch_session_def
      run_opts_def run_shared_def Shared_new_def run_server_def DNS_PORT_def hm_get_def hm_len_def hm_insert_def
      spawn_session_def forward_def try_send_def is_closed_def receiving_def new_session_def
      SESSION_CHANNEL_DEPTH_def)

lemma run_reply: "decode_udp (encode_udp run_server [7] []) = Inr (Some (run_server, [7]))"
  by code_simp

lemma run_reply_short: "take MAX_DATAGRAM (encode_udp run_server [7] []) = encode_udp run_server [7] []"
  by (simp add: encode_udp_def run_server_def MAX_DATAGRAM_def)

lemma run2_task: "uw_tasks run2 = [(new_session run_client run_proxy)\<lparr>st_queue := [(run_server, [1, 2])],
      st_accepted := [(run_server, [1, 2])], st_phase := Relaying\<rparr>]"
  by (simp add: run2_def run1_tasks session_begin_def new_session_def)

lemma run2_rest: "uw_sessions run2 = [(run_client, 0)]" "uw_running run2" "uw_done run2 = []" "uw_replies run2 = []"
    "uw_writer run2" "uw_delivered run2 = []"
  by (simp_all add: run2_def session_begin_def run1_rest)

lemma run3_eq:
  "session_select 0 (Outbound (Some (run_server, [1, 2])) None) run2 = Some run3"
  "uw_tasks run3 = [(new_session run_client run_proxy)\<lparr>st_accepted := [(run_server, [1, 2])], st_phase := Relaying,
      st_frames := [encode_udp run_server [1, 2] []]\<rparr>]"
  by (simp_all add: run3_def session_select_def take_event_def Let_def run2_task new_session_def
      session_iter_def perform_flow_def)

lemma run3_rest: "uw_replies run3 = []" "uw_writer run3"  "uw_delivered run3 = []"
  by (simp_all add: run3_def session_select_def take_event_def Let_def run2_task new_session_def
      session_iter_def perform_flow_def run2_rest)

lemma run4_eq:
  "session_select 0 (Received (Inr (encode_udp run_server [7] []))) run3 = Some run4"
  "uw_replies run4 = [([7], run_server, run_client)]" "uw_writer run4"
  by (simp_all add: run4_def session_select_def take_event_def Let_def run3_eq new_session_def
      session_iter_def perform_flow_def run_reply run_reply_short push_reply_def run3_rest REPLY_CHANNEL_DEPTH_def)

lemma run4_tasks: "length (uw_tasks run4) = 1" "st_phase (uw_tasks run4 ! 0) = Relaying"
    "st_accepted (uw_tasks run4 ! 0) = [(run_server, [1, 2])]" "uw_delivered run4 = []"
    "uw_sessions run4 = uw_sessions run3" "uw_running run4 = uw_running run3" "uw_done run4 = uw_done run3"
  by (simp_all add: run4_def session_select_def take_event_def Let_def run3_eq new_session_def
      session_iter_def perform_flow_def run_reply run_reply_short push_reply_def run3_rest REPLY_CHANNEL_DEPTH_def)

lemma run3_table: "uw_sessions run3 = [(run_client, 0)]" "uw_running run3" "uw_done run3 = []"
  by (simp_all add: run3_def session_select_def take_event_def Let_def run2_task new_session_def
      session_iter_def perform_flow_def run2_rest)

lemma run5_eq:
  "write_reply True run4 = Some run5" "uw_tasks run5 = uw_tasks run4" "uw_delivered run5 = [([7], run_server, run_client)]"
  "uw_sessions run5 = [(run_client, 0)]" "uw_running run5" "uw_done run5 = []"
  by (simp_all add: run5_def write_reply_def run4_eq Let_def run4_tasks run3_table)

lemma run5_reachable: "udp_reachable run_opts run_shared (Logger_new True) run5"
proof -
  obtain control relay where granted:
    "session_setup run_connect (\<lambda>_. None) (\<lambda>_. None) run_proxy = Done (control, relay)"
    using run_setup by blast
  have "udp_step run_opts (udp_init run_opts run_shared (Logger_new True)) run1"
    unfolding run1_def by (rule take_packet) (simp_all add: udp_init_def)
  moreover have "udp_step run_opts run1 (session_begin 0 run1)"
    by (rule begins) (simp_all add: run1_tasks new_session_def)
  moreover have "udp_step run_opts (session_begin 0 run1) run2"
    unfolding run2_def by (rule associated[of 0 _ run_connect "\<lambda>_. None" "\<lambda>_. None" control relay])
      (simp_all add: run1_tasks session_begin_def new_session_def granted)
  moreover have "udp_step run_opts run2 run3"
    by (rule selects[of 0, OF _ _ run3_eq(1)]) (simp_all add: run2_task)
  moreover have "udp_step run_opts run3 run4"
    by (rule selects[of 0, OF _ _ run4_eq(1)]) (simp_all add: run3_eq)
  moreover have "udp_step run_opts run4 run5"
    by (rule writes[OF run4_eq(3) run5_eq(1)])
  ultimately show ?thesis by (meson converse_rtranclp_into_rtranclp rtranclp.rtrancl_refl)
qed

lemma run5_task: "length (uw_tasks run5) = 1" "receiving (uw_tasks run5 ! 0)"
  using run4_tasks by (simp_all add: run5_eq receiving_def)

theorem udp_sessions_bounded_witness:
  "card {i. i < length (uw_tasks run5) \<and> receiving (uw_tasks run5 ! i)} \<le> 300"
  using udp_sessions_bounded[OF run5_reachable run5_eq(5)] by (simp add: run_opts_def)

theorem udp_sessions_reclaimed_witness:
  "hm_get (uw_sessions run5) run_client = Some 0 \<and> receiving (uw_tasks run5 ! 0)"
proof -
  have none: "st_phase s \<noteq> Reporting" if "s \<in> set (uw_tasks run5)" for s
    using that run5_task by (auto simp: in_set_conv_nth receiving_def)
  have get: "hm_get (uw_sessions run5) run_client = Some 0" by (simp add: run5_eq hm_get_def)
  show ?thesis using udp_sessions_reclaimed[OF run5_reachable run5_eq(6) none get] get by simp
qed

theorem dns_queries_bounded_witness:
  "uw_permits run5 + length (filter (\<lambda>q. dq_phase q \<noteq> DnsFinished) (uw_dns run5)) = 300"
  using dns_queries_bounded[OF run5_reachable] by (simp add: run_opts_def)

theorem udp_relay_in_order_witness:
  "\<exists>rest. [encode_udp run_server [1, 2] []] = st_frames (uw_tasks run5 ! 0) @ rest"
proof -
  have "0 < length (uw_tasks run5)" using run5_task by simp
  from udp_relay_in_order[OF run5_reachable this] show ?thesis by (auto simp: run5_eq run4_tasks)
qed

theorem udp_replies_authentic_witness:
  "([7], run_server, run_client) \<in> set (uw_delivered run5) \<and>
   ((\<exists>s\<in>set (uw_tasks run5). st_src s = run_client) \<or> (\<exists>q\<in>set (uw_dns run5). dq_src q = run_client))"
proof -
  have m: "([7], run_server, run_client) \<in> set (uw_delivered run5)" by (simp add: run5_eq)
  from udp_replies_authentic[OF run5_reachable this] show ?thesis using m by blast
qed

theorem udp_shutdown_can_hang_witness:
  "\<exists>w i. udp_reachable run_opts run_shared (Logger_new True) w \<and> \<not> uw_running w \<and> i < length (uw_tasks w) \<and>
    (\<forall>w'. (udp_step run_opts)\<^sup>*\<^sup>* w w' \<longrightarrow> st_phase (uw_tasks w' ! i) = Reporting)"
  by (rule udp_shutdown_can_hang) (simp add: DONE_CHANNEL_DEPTH_def run_opts_def)

end
