(* ===== verification/Rust_Fs.thy ===== *)
theory Rust_Fs
  imports Rust_Text
begin

text \<open>
  The part of \<^verbatim>\<open>std::fs\<close> the program uses. A file system maps paths to contents;
  which accesses fail is part of the state, so that every error path of the callers can be taken:
  reads and removals fail by path, writes by a script of faults that is consumed one entry per
  call. A failed write has either not opened the file, or truncated it and written a prefix.
\<close>

datatype write_fault = OpenFails string | WriteFails nat string

record fs =
  fs_files :: "string \<Rightarrow> bytes option"
  fs_read_err :: "string \<Rightarrow> string option"
  fs_remove_err :: "string \<Rightarrow> string option"
  fs_mkdir_err :: "string \<Rightarrow> string option"
  fs_faults :: "write_fault option list"

definition fs_put :: "string \<Rightarrow> bytes \<Rightarrow> fs \<Rightarrow> fs" where
  "fs_put path content f = f\<lparr>fs_files := (fs_files f)(path \<mapsto> content)\<rparr>"

definition fs_write :: "string \<Rightarrow> bytes \<Rightarrow> (fs, unit) io" where
  "fs_write path content f =
     (case fs_faults f of
        [] \<Rightarrow> (Inr (), fs_put path content f)
      | None # rest \<Rightarrow> (Inr (), fs_put path content (f\<lparr>fs_faults := rest\<rparr>))
      | Some (OpenFails m) # rest \<Rightarrow> (Inl [m], f\<lparr>fs_faults := rest\<rparr>)
      | Some (WriteFails n m) # rest \<Rightarrow> (Inl [m], fs_put path (take n content) (f\<lparr>fs_faults := rest\<rparr>)))"

definition fs_read :: "string \<Rightarrow> fs \<Rightarrow> bytes result" where
  "fs_read path f =
     (case fs_files f path of
        None \<Rightarrow> Inl [''No such file or directory (os error 2)'']
      | Some content \<Rightarrow> (case fs_read_err f path of None \<Rightarrow> Inr content | Some m \<Rightarrow> Inl [m]))"

definition fs_exists :: "string \<Rightarrow> fs \<Rightarrow> bool" where
  "fs_exists path f \<longleftrightarrow> fs_files f path \<noteq> None"

definition fs_remove_file :: "string \<Rightarrow> (fs, unit) io" where
  "fs_remove_file path f =
     (if fs_files f path = None then (Inl [''No such file or directory (os error 2)''], f)
      else case fs_remove_err f path of
        Some m \<Rightarrow> (Inl [m], f)
      | None \<Rightarrow> (Inr (), f\<lparr>fs_files := (fs_files f)(path := None)\<rparr>))"

definition fs_create_dir_all :: "string \<Rightarrow> fs \<Rightarrow> unit result" where
  "fs_create_dir_all path f = (case fs_mkdir_err f path of None \<Rightarrow> Inr () | Some m \<Rightarrow> Inl [m])"

text \<open>A file system on which every access succeeds.\<close>

definition fs_healthy :: "fs \<Rightarrow> bool" where
  "fs_healthy f \<longleftrightarrow> fs_faults f = [] \<and> fs_read_err f = (\<lambda>_. None) \<and> fs_remove_err f = (\<lambda>_. None)"

lemma fs_put_simps [simp]:
  "fs_files (fs_put p c f) = (fs_files f)(p \<mapsto> c)"
  "fs_read_err (fs_put p c f) = fs_read_err f"
  "fs_remove_err (fs_put p c f) = fs_remove_err f"
  "fs_faults (fs_put p c f) = fs_faults f"
  by (simp_all add: fs_put_def)

lemma fs_healthy_write: "fs_healthy f \<Longrightarrow> fs_write p c f = (Inr (), fs_put p c f)"
  by (simp add: fs_healthy_def fs_write_def)

lemma fs_healthy_put [simp]: "fs_healthy (fs_put p c f) \<longleftrightarrow> fs_healthy f"
  by (simp add: fs_healthy_def)

lemma fs_healthy_remove:
  "fs_healthy f \<Longrightarrow> fs_healthy (snd (fs_remove_file p f)) \<and>
     fs_files (snd (fs_remove_file p f)) = (fs_files f)(p := None)"
  by (auto simp: fs_healthy_def fs_remove_file_def)

lemma fs_healthy_read: "fs_healthy f \<Longrightarrow> fs_files f p = Some c \<Longrightarrow> fs_read p f = Inr c"
  by (simp add: fs_healthy_def fs_read_def)

text \<open>Whatever fails, a write touches only its own path.\<close>

lemma fs_write_other:
  "p \<noteq> q \<Longrightarrow> fs_files (snd (fs_write p c f)) q = fs_files f q"
  "fs_read_err (snd (fs_write p c f)) = fs_read_err f"
  by (auto simp: fs_write_def split: list.splits option.splits write_fault.splits)

lemma fs_write_ok: "fs_write p c f = (Inr (), g) \<Longrightarrow> fs_files g p = Some c"
  by (auto simp: fs_write_def split: list.splits option.splits write_fault.splits)

lemma fs_remove_other:
  "p \<noteq> q \<Longrightarrow> fs_files (snd (fs_remove_file p f)) q = fs_files f q"
  "fs_read_err (snd (fs_remove_file p f)) = fs_read_err f"
  by (auto simp: fs_remove_file_def split: option.splits)

end
