(* ===== verification/Platform.thy ===== *)
theory Platform
  imports Reload Logging Rust_Fs
begin

text \<open>
  \<^verbatim>\<open>src/platform/mod.rs\<close>: the contracts of the operating system backends. The
  trait \<^verbatim>\<open>DnsConfigurator\<close> is the interface \<open>dns_configurator\<close>: it points the
  host's resolver at a server and puts the original settings back. The trait
  \<^verbatim>\<open>RouteController\<close> is the interface \<open>route_controller\<close>: it keeps the
  routes for one proxy address and one list of bypass blocks. Both are proved of every backend's
  model where that backend is defined.
\<close>

section \<open>The world of a backend\<close>

text \<open>
  A call on a backend sees the backend's own object, the operating system behind the requests or
  commands it issues, the file system and the log. On Linux the second is the kernel, on the
  other systems what the commands act on.
\<close>

record ('m, 'k) os_world =
  rw_self :: 'm
  rw_kernel :: 'k
  rw_fs :: fs
  rw_log :: Logger

definition on_kernel :: "('k, 'a) io \<Rightarrow> (('m, 'k) os_world, 'a) io" where
  "on_kernel = io_zoom rw_kernel (\<lambda>k w. w\<lparr>rw_kernel := k\<rparr>)"

definition rt_log :: "(Logger \<Rightarrow> Logger) \<Rightarrow> (('m, 'k) os_world, unit) io" where
  "rt_log h = io_modify (\<lambda>w. w\<lparr>rw_log := h (rw_log w)\<rparr>)"

definition rt_self :: "('m \<Rightarrow> 'm) \<Rightarrow> (('m, 'k) os_world, unit) io" where
  "rt_self h = io_modify (\<lambda>w. w\<lparr>rw_self := h (rw_self w)\<rparr>)"

text \<open>The same world seen from another object.\<close>

definition with_self :: "'n \<Rightarrow> ('m, 'k) os_world \<Rightarrow> ('n, 'k) os_world" where
  "with_self m w = \<lparr>rw_self = m, rw_kernel = rw_kernel w, rw_fs = rw_fs w, rw_log = rw_log w\<rparr>"

text \<open>What \<^verbatim>\<open>detect_link\<close> reports, and the device \<^verbatim>\<open>create_tun\<close> returns.\<close>

record LinkInfo =
  li_mtu :: "u32 option"
  li_has_ipv6_gateway :: bool

record TunDevice =
  tun_device_name :: string
  tun_device_mtu :: u32

section \<open>DnsConfigurator\<close>

text \<open>
  \<open>settled\<close> holds between calls while no access to the system fails. \<open>in_force\<close> is the server the
  configurator has pointed the resolver at, \<open>resolver\<close> what the system's resolver reads,
  \<open>pointed\<close> what it should read for a server, and \<open>original\<close> what it read at the start.
\<close>

locale dns_configurator =
  fixes dns_apply dns_reload :: "IpAddr option \<Rightarrow> ('s, unit) io"
    and dns_restore :: "('s, unit) io"
    and settled :: "'s \<Rightarrow> bool"
    and in_force :: "'s \<Rightarrow> IpAddr option"
    and resolver :: "'s \<Rightarrow> 'r"
    and pointed :: "IpAddr \<Rightarrow> 'r"
    and original :: 'r
  assumes apply_law: "settled s \<Longrightarrow> \<exists>t. dns_apply srv s = (Inr (), t) \<and> settled t \<and>
      in_force t = (case srv of None \<Rightarrow> in_force s | Some d \<Rightarrow> Some d)"
    and reload_law: "settled s \<Longrightarrow> \<exists>t. dns_reload srv s = (Inr (), t) \<and> settled t \<and> in_force t = srv"
    and restore_law: "settled s \<Longrightarrow> \<exists>t. dns_restore s = (Inr (), t) \<and> settled t \<and> in_force t = None"
    and view_law: "settled s \<Longrightarrow>
      resolver s = (case in_force s of None \<Rightarrow> original | Some d \<Rightarrow> pointed d)"
begin

lemma reloads_settled:
  "settled s \<Longrightarrow> \<exists>t. io_for servers dns_reload s = (Inr (), t) \<and> settled t \<and>
     in_force t = (if servers = [] then in_force s else last servers)"
proof (induction servers arbitrary: s)
  case Nil
  then show ?case by (simp add: io_simps)
next
  case (Cons srv servers)
  obtain t where t: "dns_reload srv s = (Inr (), t)" "settled t" "in_force t = srv"
    using reload_law[OF Cons.prems] by blast
  then show ?case using Cons.IH[OF t(2)] by (auto simp: io_simps)
qed

lemma reload_takes_effect:
  assumes "settled s" and "servers \<noteq> []"
  shows "\<exists>t. io_for servers dns_reload s = (Inr (), t) \<and>
    resolver t = (case last servers of None \<Rightarrow> original | Some d \<Rightarrow> pointed d)"
  using reloads_settled[OF assms(1), of servers] view_law assms(2) by fastforce

text \<open>A session: the initial redirection, reloads in any number, then the restore.\<close>

lemma session_restores:
  assumes "settled s"
  shows "\<exists>t. io_bind (dns_apply start) (\<lambda>_. io_bind (io_for reloads dns_reload) (\<lambda>_. dns_restore)) s =
      (Inr (), t) \<and> resolver t = original"
proof -
  obtain s1 where s1: "dns_apply start s = (Inr (), s1)" "settled s1"
    using apply_law[OF assms] by blast
  obtain s2 where s2: "io_for reloads dns_reload s1 = (Inr (), s2)" "settled s2"
    using reloads_settled[OF s1(2)] by blast
  obtain t where t: "dns_restore s2 = (Inr (), t)" "settled t" "in_force t = None"
    using restore_law[OF s2(2)] by blast
  then show ?thesis using s1 s2 view_law[OF t(2)] by (simp add: io_simps)
qed

end

section \<open>RouteController\<close>

text \<open>
  What a caller may rely on: a successful \<open>apply\<close> leaves the controller active with the settings
  it was made for, a successful \<open>reload\<close> of an active controller gives it the settings of the
  plan, and \<open>teardown\<close> always ends, with the controller inactive.
\<close>

locale route_controller =
  fixes rc_apply :: "('r, unit) io"
    and rc_reload :: "ReloadPlan \<Rightarrow> ('r, unit) io"
    and rc_teardown :: "('r, unit) io"
    and active :: "'r \<Rightarrow> bool"
    and proxy_ip :: "'r \<Rightarrow> IpAddr"
    and bypassed :: "'r \<Rightarrow> CidrList"
    and dns_target :: "'r \<Rightarrow> IpAddr option"
  assumes apply_law: "rc_apply s = (Inr (), t) \<Longrightarrow> active t \<and> proxy_ip t = proxy_ip s \<and>
      bypassed t = bypassed s \<and> dns_target t = dns_target s"
    and reload_law: "active s \<Longrightarrow> rc_reload plan s = (Inr (), t) \<Longrightarrow> active t \<and>
      proxy_ip t = (case pl_proxy_route_change plan of None \<Rightarrow> proxy_ip s | Some (_, n) \<Rightarrow> n) \<and>
      bypassed t = pl_new_bypass plan \<and>
      dns_target t = (if pl_dns_changed plan then pl_dns plan else dns_target s)"
    and teardown_law: "\<exists>t. rc_teardown s = (Inr (), t) \<and> \<not> active t"
begin

text \<open>The controller does what the configuration says, up to order and repetition of bypass blocks.\<close>

definition follows :: "Config \<Rightarrow> 'r \<Rightarrow> bool" where
  "follows cfg s \<longleftrightarrow> active s \<and>
     (\<exists>a. proxy_socket_addr cfg = Inr a \<and> sock_ip a = proxy_ip s) \<and>
     (\<exists>bs. bypass_routes cfg = Inr bs \<and> set bs = set (bypassed s)) \<and>
     dns_addr cfg = Inr (dns_target s)"

lemma reload_follows:
  assumes "follows old s" and "ReloadPlan_compute old new = Inr plan"
    and "rc_reload plan s = (Inr (), t)"
  shows "follows new t"
proof -
  note t = reload_law[OF _ assms(3)]
  show ?thesis
    using assms(2) by (rule ReloadPlan_computeE) (use assms(1) t in \<open>auto simp: follows_def\<close>)
qed

lemma noop_follows:
  assumes "follows old s" and "ReloadPlan_compute old new = Inr plan" and "is_noop plan"
  shows "follows new s"
  using assms(2)
proof (rule ReloadPlan_computeE)
  fix ob nb oa na px od nd
  assume acc: "bypass_routes old = Inr ob" "bypass_routes new = Inr nb"
    "proxy_socket_addr old = Inr oa" "proxy_socket_addr new = Inr na" "dns_addr old = Inr od" "dns_addr new = Inr nd"
    and plan: "plan = \<lparr>pl_proxy = px, pl_route_table = RouteTable_new nb, pl_new_bypass = nb,
       pl_bypass_add = fst (diff_cidrs ob nb), pl_bypass_remove = snd (diff_cidrs ob nb),
       pl_dns = nd, pl_dns_changed = (od \<noteq> nd),
       pl_proxy_route_change =
         (if sock_ip oa \<noteq> sock_ip na then Some (sock_ip oa, sock_ip na) else None),
       pl_proxy_changed = (oa \<noteq> na \<or> username old \<noteq> username new \<or> password old \<noteq> password new)\<rparr>"
  have "set ob = set nb" "od = nd" "oa = na"
    using assms(3) diff_cidrs_empty_iff[of ob nb] by (auto simp: plan is_noop_def prod_eq_iff)
  then show "follows new s" using assms(1) acc by (auto simp: follows_def)
qed

lemma apply_follows:
  assumes "rc_apply s = (Inr (), t)" and "proxy_socket_addr cfg = Inr a" and "sock_ip a = proxy_ip s"
    and "bypass_routes cfg = Inr (bypassed s)" and "dns_addr cfg = Inr (dns_target s)"
  shows "follows cfg t"
  using assms apply_law[OF assms(1)] by (simp add: follows_def)

end

end
