(* ===== verification/Linux_Dns.thy ===== *)
theory Linux_Dns
  imports Platform
begin

text \<open>
  \<^verbatim>\<open>src/platform/linux/dns.rs\<close>: the resolver configuration of a Linux host. The state
  of a call is the configurator itself, the file system and the log. The theory interprets
  \<open>dns_configurator\<close> on it, and shows what is kept when file accesses fail.
\<close>

section \<open>Model\<close>

definition RESOLV_CONF_PATH :: string where
  "RESOLV_CONF_PATH = ''/etc/resolv.conf''"

definition RESOLV_CONF_BACKUP_PATH :: string where
  "RESOLV_CONF_BACKUP_PATH = ''/etc/resolv.conf.cortado.bak''"

record ResolvConf =
  rc_path :: string
  rc_backup_path :: string
  rc_current :: "IpAddr option"
  rc_original :: "bytes option"

definition ResolvConf_new :: "string \<Rightarrow> string \<Rightarrow> ResolvConf" where
  "ResolvConf_new path backup =
     \<lparr>rc_path = path, rc_backup_path = backup, rc_current = None, rc_original = None\<rparr>"

definition ResolvConf_system :: ResolvConf where
  "ResolvConf_system = ResolvConf_new RESOLV_CONF_PATH RESOLV_CONF_BACKUP_PATH"

record resolv_world =
  dw_self :: ResolvConf
  dw_fs :: fs
  dw_log :: Logger

abbreviation on_fs :: "(fs, 'a) io \<Rightarrow> (resolv_world, 'a) io" where
  "on_fs \<equiv> io_zoom dw_fs (\<lambda>f w. w\<lparr>dw_fs := f\<rparr>)"

abbreviation on_log :: "(Logger \<Rightarrow> Logger) \<Rightarrow> (resolv_world, unit) io" where
  "on_log h \<equiv> io_modify (\<lambda>w. w\<lparr>dw_log := h (dw_log w)\<rparr>)"

definition set_original :: "bytes option \<Rightarrow> (resolv_world, unit) io" where
  "set_original orig = io_modify (\<lambda>w. w\<lparr>dw_self := (dw_self w)\<lparr>rc_original := orig\<rparr>\<rparr>)"

definition set_current :: "IpAddr option \<Rightarrow> (resolv_world, unit) io" where
  "set_current srv = io_modify (\<lambda>w. w\<lparr>dw_self := (dw_self w)\<lparr>rc_current := srv\<rparr>\<rparr>)"

definition nameserver_line :: "IpAddr \<Rightarrow> bytes" where
  "nameserver_line server = as_bytes (''nameserver '' @ show_ip server @ [CHR 0x0A])"

definition write_nameserver :: "IpAddr \<Rightarrow> (resolv_world, unit) io" where
  "write_nameserver server =
     io_bind (io_gets (rc_path \<circ> dw_self)) (\<lambda>path.
     io_context ''failed to write resolv.conf'' (on_fs (fs_write path (nameserver_line server))))"

definition ensure_backup :: "(resolv_world, unit) io" where
  "ensure_backup =
     io_bind (io_gets dw_self) (\<lambda>self.
     if rc_original self = None then
       io_bind (io_gets (\<lambda>w. fs_read (rc_path self) (dw_fs w))) (\<lambda>r.
       let original = (case r of Inr c \<Rightarrow> Some c | Inl _ \<Rightarrow> None) in
       io_bind
         (case original of
            Some orig \<Rightarrow> io_context ''failed to backup resolv.conf''
                           (on_fs (fs_write (rc_backup_path self) orig))
          | None \<Rightarrow> io_return ()) (\<lambda>_.
       set_original original))
     else io_return ())"

definition ResolvConf_apply :: "IpAddr option \<Rightarrow> (resolv_world, unit) io" where
  "ResolvConf_apply server =
     (case server of
        None \<Rightarrow> io_return ()
      | Some dns \<Rightarrow>
          io_bind ensure_backup (\<lambda>_.
          io_bind (write_nameserver dns) (\<lambda>_.
          io_bind (set_current (Some dns)) (\<lambda>_.
          on_log (log_info (''DNS redirected to '' @ show_ip dns))))))"

definition ResolvConf_reload :: "IpAddr option \<Rightarrow> (resolv_world, unit) io" where
  "ResolvConf_reload server =
     io_bind (io_gets dw_self) (\<lambda>self.
     if server = rc_current self then io_return ()
     else
       io_bind
         (case server of
            Some dns \<Rightarrow>
              io_bind ensure_backup (\<lambda>_.
              io_bind (write_nameserver dns) (\<lambda>_.
              on_log (log_info (''DNS redirected to '' @ show_ip dns @ '' (reload)''))))
          | None \<Rightarrow>
              (case rc_original self of
                 Some orig \<Rightarrow>
                   io_bind (io_context ''failed to restore resolv.conf''
                             (on_fs (fs_write (rc_path self) orig))) (\<lambda>_.
                   io_bind (io_catch (on_fs (fs_remove_file (rc_backup_path self)))) (\<lambda>_.
                   on_log (log_info ''DNS override disabled (reload)'')))
               | None \<Rightarrow> io_return ())) (\<lambda>_.
       set_current server))"

definition ResolvConf_restore :: "(resolv_world, unit) io" where
  "ResolvConf_restore =
     io_bind (io_gets dw_self) (\<lambda>self.
     if rc_current self = None then io_return ()
     else
       io_bind
         (case rc_original self of
            Some orig \<Rightarrow>
              io_bind (io_catch (on_fs (fs_write (rc_path self) orig))) (\<lambda>r.
              case r of
                Inl e \<Rightarrow> on_log (log_warn (''failed to restore resolv.conf: '' @ display_error e))
              | Inr _ \<Rightarrow>
                  io_bind (io_catch (on_fs (fs_remove_file (rc_backup_path self)))) (\<lambda>_.
                  on_log (log_info ''resolv.conf restored'')))
          | None \<Rightarrow>
              io_bind (io_gets (\<lambda>w. fs_exists (rc_path self) (dw_fs w))) (\<lambda>present.
              if present then on_log (log_warn ''no resolv.conf backup, leaving as-is'')
              else io_return ())) (\<lambda>_.
       set_current None))"

lemmas resolv_defs = ResolvConf_apply_def ResolvConf_reload_def ResolvConf_restore_def
  ensure_backup_def write_nameserver_def set_original_def set_current_def

section \<open>The contract, on a healthy file system\<close>

text \<open>
  Between calls on a healthy file system whose resolver file held \<open>orig\<close>: either nothing was read
  yet and the file is untouched, or the original is remembered and the file says what
  \<open>rc_current\<close> says.
\<close>

definition resolv_settled :: "bytes \<Rightarrow> resolv_world \<Rightarrow> bool" where
  "resolv_settled orig w \<longleftrightarrow>
     fs_healthy (dw_fs w) \<and> rc_path (dw_self w) = RESOLV_CONF_PATH \<and>
     rc_backup_path (dw_self w) = RESOLV_CONF_BACKUP_PATH \<and>
     (rc_original (dw_self w) = Some orig \<or> rc_original (dw_self w) = None \<and> rc_current (dw_self w) = None) \<and>
     fs_files (dw_fs w) RESOLV_CONF_PATH =
       Some (case rc_current (dw_self w) of None \<Rightarrow> orig | Some d \<Rightarrow> nameserver_line d)"

lemma paths_differ [simp]: "RESOLV_CONF_PATH \<noteq> RESOLV_CONF_BACKUP_PATH"
  "RESOLV_CONF_BACKUP_PATH \<noteq> RESOLV_CONF_PATH"
  by (simp_all add: RESOLV_CONF_PATH_def RESOLV_CONF_BACKUP_PATH_def)

lemma ensure_backup_settled:
  assumes "resolv_settled orig w"
  shows "\<exists>f. ensure_backup w = (Inr (), w\<lparr>dw_self := (dw_self w)\<lparr>rc_original := Some orig\<rparr>, dw_fs := f\<rparr>) \<and>
    fs_healthy f \<and> fs_files f RESOLV_CONF_PATH = fs_files (dw_fs w) RESOLV_CONF_PATH"
proof (cases "rc_original (dw_self w)")
  case None
  then have "fs_read RESOLV_CONF_PATH (dw_fs w) = Inr orig"
    using assms by (auto simp: resolv_settled_def intro: fs_healthy_read)
  then show ?thesis using assms None
    by (intro exI[of _ "fs_put RESOLV_CONF_BACKUP_PATH orig (dw_fs w)"])
      (simp add: resolv_settled_def ensure_backup_def io_simps fs_healthy_write set_original_def)
next
  case (Some c)
  then show ?thesis using assms
    by (intro exI[of _ "dw_fs w"]) (auto simp: resolv_settled_def ensure_backup_def io_simps)
qed

lemma redirect_settled:
  assumes "resolv_settled orig w"
  shows "\<exists>t. io_bind ensure_backup (\<lambda>_. write_nameserver d) w = (Inr (), t) \<and>
    resolv_settled orig (t\<lparr>dw_self := (dw_self t)\<lparr>rc_current := Some d\<rparr>\<rparr>)"
proof -
  obtain f where f: "ensure_backup w = (Inr (), w\<lparr>dw_self := (dw_self w)\<lparr>rc_original := Some orig\<rparr>, dw_fs := f\<rparr>)"
    "fs_healthy f" using ensure_backup_settled[OF assms] by blast
  then show ?thesis using assms
    by (simp add: write_nameserver_def io_simps fs_healthy_write resolv_settled_def)
qed

lemma apply_settled:
  assumes "resolv_settled orig w"
  shows "\<exists>t. ResolvConf_apply srv w = (Inr (), t) \<and> resolv_settled orig t \<and>
    rc_current (dw_self t) = (case srv of None \<Rightarrow> rc_current (dw_self w) | Some d \<Rightarrow> Some d)"
proof (cases srv)
  case (Some d)
  obtain t where t: "io_bind ensure_backup (\<lambda>_. write_nameserver d) w = (Inr (), t)"
    "resolv_settled orig (t\<lparr>dw_self := (dw_self t)\<lparr>rc_current := Some d\<rparr>\<rparr>)"
    using redirect_settled[OF assms] by blast
  then obtain w1 where "ensure_backup w = (Inr (), w1)" "write_nameserver d w1 = (Inr (), t)"
    by (auto elim: io_bind_okE)
  then show ?thesis using t(2) Some
    by (simp add: ResolvConf_apply_def io_simps set_current_def resolv_settled_def)
qed (use assms in \<open>simp add: ResolvConf_apply_def io_simps\<close>)

lemma reload_settled:
  assumes "resolv_settled orig w"
  shows "\<exists>t. ResolvConf_reload srv w = (Inr (), t) \<and> resolv_settled orig t \<and> rc_current (dw_self t) = srv"
proof (cases "srv = rc_current (dw_self w)")
  case True
  then show ?thesis using assms by (simp add: ResolvConf_reload_def io_simps)
next
  case change: False
  show ?thesis
  proof (cases srv)
    case (Some d)
    obtain t where t: "io_bind ensure_backup (\<lambda>_. write_nameserver d) w = (Inr (), t)"
      "resolv_settled orig (t\<lparr>dw_self := (dw_self t)\<lparr>rc_current := Some d\<rparr>\<rparr>)"
      using redirect_settled[OF assms] by blast
    then obtain w1 where "ensure_backup w = (Inr (), w1)" "write_nameserver d w1 = (Inr (), t)"
      by (auto elim: io_bind_okE)
    then show ?thesis using t(2) Some change
      by (simp add: ResolvConf_reload_def io_simps set_current_def resolv_settled_def)
  next
    case None
    then have "rc_original (dw_self w) = Some orig" using assms change by (auto simp: resolv_settled_def)
    moreover have "fs_healthy (fs_put RESOLV_CONF_PATH orig (dw_fs w))"
      using assms by (simp add: resolv_settled_def)
    note fs_healthy_remove[OF this, of RESOLV_CONF_BACKUP_PATH]
    ultimately show ?thesis using assms None change
      by (simp add: ResolvConf_reload_def io_simps resolv_settled_def fs_healthy_write set_current_def
          split_beta)
  qed
qed

lemma restore_settled:
  assumes "resolv_settled orig w"
  shows "\<exists>t. ResolvConf_restore w = (Inr (), t) \<and> resolv_settled orig t \<and> rc_current (dw_self t) = None"
proof (cases "rc_current (dw_self w)")
  case None
  then show ?thesis using assms by (simp add: ResolvConf_restore_def io_simps)
next
  case (Some d)
  then have "rc_original (dw_self w) = Some orig" using assms by (auto simp: resolv_settled_def)
  moreover have "fs_healthy (fs_put RESOLV_CONF_PATH orig (dw_fs w))"
    using assms by (simp add: resolv_settled_def)
  note fs_healthy_remove[OF this, of RESOLV_CONF_BACKUP_PATH]
  ultimately show ?thesis using assms Some
    by (simp add: ResolvConf_restore_def io_simps resolv_settled_def fs_healthy_write set_current_def
        split_beta)
qed

lemma settled_view:
  "resolv_settled orig w \<Longrightarrow> fs_files (dw_fs w) RESOLV_CONF_PATH =
     (case rc_current (dw_self w) of None \<Rightarrow> Some orig | Some d \<Rightarrow> Some (nameserver_line d))"
  by (auto simp: resolv_settled_def split: option.splits)

interpretation resolv: dns_configurator ResolvConf_apply ResolvConf_reload ResolvConf_restore
  "resolv_settled orig" "\<lambda>w. rc_current (dw_self w)" "\<lambda>w. fs_files (dw_fs w) RESOLV_CONF_PATH"
  "\<lambda>d. Some (nameserver_line d)" "Some orig" for orig
  using apply_settled reload_settled restore_settled settled_view by unfold_locales auto

section \<open>Sessions\<close>

abbreviation fresh_dns :: "fs \<Rightarrow> Logger \<Rightarrow> resolv_world" where
  "fresh_dns f l \<equiv> \<lparr>dw_self = ResolvConf_system, dw_fs = f, dw_log = l\<rparr>"

lemma fresh_dns_settled:
  "fs_healthy f \<Longrightarrow> fs_files f RESOLV_CONF_PATH = Some orig \<Longrightarrow> resolv_settled orig (fresh_dns f l)"
  by (simp add: resolv_settled_def ResolvConf_system_def ResolvConf_new_def)

text \<open>
  C18. A session that redirects DNS at the start, reloads any number of times to any servers or to
  no server, and restores at the end, succeeds and leaves in the resolver file exactly the bytes
  it held before, when file accesses succeed.
\<close>

theorem resolv_session_restores:
  assumes "fs_healthy f" and "fs_files f RESOLV_CONF_PATH = Some orig"
  shows "\<exists>t. io_bind (ResolvConf_apply start) (\<lambda>_.
      io_bind (io_for reloads ResolvConf_reload) (\<lambda>_. ResolvConf_restore)) (fresh_dns f l) = (Inr (), t) \<and>
    fs_files (dw_fs t) RESOLV_CONF_PATH = Some orig"
  by (rule resolv.session_restores[OF fresh_dns_settled[OF assms]])

abbreviation host_fs :: "write_fault option list \<Rightarrow> bytes option \<Rightarrow> fs" where
  "host_fs faults orig \<equiv> \<lparr>fs_files = (\<lambda>_. None)(RESOLV_CONF_PATH := orig), fs_read_err = (\<lambda>_. None),
     fs_remove_err = (\<lambda>_. None), fs_mkdir_err = (\<lambda>_. None), fs_faults = faults\<rparr>"

theorem resolv_session_restores_witness:
  "\<exists>t. io_bind (ResolvConf_apply (Some (V4 0x01010101))) (\<lambda>_.
      io_bind (io_for [None, Some (V4 0x09090909)] ResolvConf_reload) (\<lambda>_. ResolvConf_restore))
      (fresh_dns (host_fs [] (Some [1, 2])) (Logger_new False)) = (Inr (), t) \<and>
    fs_files (dw_fs t) RESOLV_CONF_PATH = Some [1, 2]"
  by (rule resolv_session_restores) (simp_all add: fs_healthy_def)

text \<open>
  While file accesses succeed, the resolver file names the server of the last reload, or holds
  its original bytes when the last reload switched the override off.
\<close>

theorem resolv_reload_takes_effect:
  assumes "fs_healthy f" and "fs_files f RESOLV_CONF_PATH = Some orig" and "reloads \<noteq> []"
  shows "\<exists>t. io_bind (ResolvConf_apply start) (\<lambda>_. io_for reloads ResolvConf_reload) (fresh_dns f l) =
      (Inr (), t) \<and>
    fs_files (dw_fs t) RESOLV_CONF_PATH =
      (case last reloads of None \<Rightarrow> Some orig | Some d \<Rightarrow> Some (nameserver_line d))"
proof -
  obtain w where "ResolvConf_apply start (fresh_dns f l) = (Inr (), w)" "resolv_settled orig w"
    using apply_settled[OF fresh_dns_settled[OF assms(1,2)]] by blast
  then show ?thesis using resolv.reload_takes_effect[OF _ assms(3)] by (simp add: io_simps)
qed

theorem resolv_reload_takes_effect_witness:
  "\<exists>t. io_bind (ResolvConf_apply None) (\<lambda>_. io_for [Some (V4 0x09090909)] ResolvConf_reload)
      (fresh_dns (host_fs [] (Some [1, 2])) (Logger_new False)) = (Inr (), t) \<and>
    fs_files (dw_fs t) RESOLV_CONF_PATH = Some (as_bytes ''nameserver 9.9.9.9\<newline>'')"
proof -
  have line: "nameserver_line (V4 0x09090909) = as_bytes ''nameserver 9.9.9.9\<newline>''"
    by code_simp
  show ?thesis
    using resolv_reload_takes_effect[of "host_fs [] (Some [1, 2])" "[1, 2]" "[Some (V4 0x09090909)]"
        None "Logger_new False"]
    by (simp add: fs_healthy_def line)
qed

section \<open>When file accesses fail\<close>

datatype dns_op = DnsApply "IpAddr option" | DnsReload "IpAddr option" | DnsRestore

fun run_dns_op :: "dns_op \<Rightarrow> (resolv_world, unit) io" where
  "run_dns_op (DnsApply srv) = ResolvConf_apply srv"
| "run_dns_op (DnsReload srv) = ResolvConf_reload srv"
| "run_dns_op DnsRestore = ResolvConf_restore"

text \<open>The original is still in the file, or it is remembered.\<close>

definition original_kept :: "bytes \<Rightarrow> resolv_world \<Rightarrow> bool" where
  "original_kept orig w \<longleftrightarrow>
     rc_path (dw_self w) = RESOLV_CONF_PATH \<and> rc_backup_path (dw_self w) = RESOLV_CONF_BACKUP_PATH \<and>
     fs_read_err (dw_fs w) RESOLV_CONF_PATH = None \<and>
     (rc_original (dw_self w) = Some orig \<or>
      rc_original (dw_self w) = None \<and> fs_files (dw_fs w) RESOLV_CONF_PATH = Some orig)"

definition remembered :: "bytes \<Rightarrow> resolv_world \<Rightarrow> bool" where
  "remembered orig w \<longleftrightarrow> original_kept orig w \<and> rc_original (dw_self w) = Some orig"

lemma ensure_backup_keeps:
  assumes "original_kept orig w"
  shows "original_kept orig (snd (ensure_backup w)) \<and>
    (fst (ensure_backup w) = Inr () \<longrightarrow> remembered orig (snd (ensure_backup w)))"
proof (cases "rc_original (dw_self w)")
  case None
  let ?wr = "fs_write RESOLV_CONF_BACKUP_PATH orig (dw_fs w)"
  have "fs_read RESOLV_CONF_PATH (dw_fs w) = Inr orig"
    using assms None by (simp add: original_kept_def fs_read_def)
  then have "ensure_backup w =
      (case ?wr of
         (Inl e, f) \<Rightarrow> (Inl (''failed to backup resolv.conf'' # e), w\<lparr>dw_fs := f\<rparr>)
       | (Inr _, f) \<Rightarrow> (Inr (), w\<lparr>dw_fs := f, dw_self := (dw_self w)\<lparr>rc_original := Some orig\<rparr>\<rparr>))"
    using assms None
    by (simp add: original_kept_def ensure_backup_def io_simps set_original_def split: prod.splits sum.splits)
  moreover have "fs_files (snd ?wr) RESOLV_CONF_PATH = fs_files (dw_fs w) RESOLV_CONF_PATH"
    "fs_read_err (snd ?wr) = fs_read_err (dw_fs w)"
    by (simp_all add: fs_write_other)
  ultimately show ?thesis using assms None
    by (cases ?wr) (auto simp: original_kept_def remembered_def split: sum.splits)
next
  case (Some c)
  then show ?thesis using assms by (simp add: original_kept_def remembered_def ensure_backup_def io_simps)
qed

lemma remembered_steps [io_keep]:
  "keeps (remembered orig) (on_fs (fs_write p c))"
  "keeps (remembered orig) (on_fs (fs_remove_file p))"
  "keeps (remembered orig) (on_log h)"
  "keeps (remembered orig) (set_current srv)"
  "keeps (remembered orig) (write_nameserver d)"
proof -
  show wr: "keeps (remembered orig) (on_fs (fs_write p c))" for p c
    using fs_write_other(2)[of p c]
    by (auto intro!: keeps_zoom simp: remembered_def original_kept_def)
  show "keeps (remembered orig) (on_fs (fs_remove_file p))"
    using fs_remove_other(2)[of p]
    by (auto intro!: keeps_zoom simp: remembered_def original_kept_def)
  show "keeps (remembered orig) (on_log h)" "keeps (remembered orig) (set_current srv)"
    by (auto intro!: keeps_modify simp: remembered_def original_kept_def set_current_def)
  show "keeps (remembered orig) (write_nameserver d)"
    unfolding write_nameserver_def by (intro io_keep wr)
qed

lemma remembered_kept: "keeps (remembered orig) m \<Longrightarrow> remembered orig w \<Longrightarrow> original_kept orig (snd (m w))"
  by (auto simp: keeps_def remembered_def)

lemma after_backup:
  assumes "original_kept orig w" and "\<And>u. keeps (remembered orig) (m u)"
  shows "original_kept orig (snd (io_bind ensure_backup m w))"
  using ensure_backup_keeps[OF assms(1)] remembered_kept[OF assms(2)]
  by (cases "ensure_backup w"; cases "fst (ensure_backup w)") (auto simp: io_simps)

lemma kept_cases:
  assumes "original_kept orig w"
  obtains "remembered orig w" | "rc_original (dw_self w) = None"
  using assms by (auto simp: original_kept_def remembered_def)

lemma apply_keeps: "original_kept orig w \<Longrightarrow> original_kept orig (snd (ResolvConf_apply srv w))"
  by (cases srv) (auto simp: ResolvConf_apply_def io_apply intro!: after_backup io_keep)

lemma kept_current:
  "original_kept orig (snd (m w)) \<Longrightarrow> original_kept orig (snd (io_bind m (\<lambda>_. set_current c) w))"
  by (cases "m w"; cases "fst (m w)") (auto simp: io_simps set_current_def original_kept_def)

lemma reload_keeps:
  assumes "original_kept orig w"
  shows "original_kept orig (snd (ResolvConf_reload srv w))"
proof (cases "srv = rc_current (dw_self w)")
  case True
  then show ?thesis using assms by (simp add: ResolvConf_reload_def io_simps)
next
  case change: False
  show ?thesis
  proof (cases srv)
    case (Some d)
    then show ?thesis using change assms
      by (simp add: ResolvConf_reload_def io_bind_ok io_apply)
        (intro kept_current after_backup io_keep)
  next
    case None
    show ?thesis
    proof (cases "rc_original (dw_self w)")
      case o: None
      then show ?thesis using change None assms
        by (simp add: ResolvConf_reload_def io_simps set_current_def original_kept_def)
    next
      case (Some c)
      then have "remembered orig w" using assms by (auto simp: remembered_def original_kept_def)
      then show ?thesis using change None Some
        by (simp add: ResolvConf_reload_def io_bind_ok io_apply)
          (intro kept_current remembered_kept io_keep)
    qed
  qed
qed

lemma restore_keeps:
  assumes "original_kept orig w"
  shows "original_kept orig (snd (ResolvConf_restore w))"
proof (cases "rc_current (dw_self w)")
  case None
  then show ?thesis using assms by (simp add: ResolvConf_restore_def io_simps)
next
  case (Some d)
  note cur = this
  show ?thesis
  proof (cases "rc_original (dw_self w)")
    case None
    then show ?thesis using cur assms
      by (simp add: ResolvConf_restore_def io_simps set_current_def original_kept_def)
  next
    case (Some c)
    then have "remembered orig w" using assms by (auto simp: remembered_def original_kept_def)
    then show ?thesis using cur Some
      by (simp add: ResolvConf_restore_def io_bind_ok io_apply)
        (intro kept_current remembered_kept io_keep)
  qed
qed



section \<open>Where the recovery paths stop short\<close>

text \<open>
  C40. If writing the new resolver file fails halfway at the start, the file is left truncated:
  the configurator does not count itself as active, so the restore does nothing, although it
  remembers the original.
\<close>

theorem failed_apply_left_truncated:
  "\<exists>t u. ResolvConf_apply (Some d) (fresh_dns (host_fs [None, Some (WriteFails n m)] (Some orig)) l) =
      (Inl [''failed to write resolv.conf'', m], t) \<and>
    ResolvConf_restore t = (Inr (), u) \<and>
    fs_files (dw_fs u) RESOLV_CONF_PATH = Some (take n (nameserver_line d))"
  by (simp add: resolv_defs io_simps fs_write_def fs_read_def ResolvConf_system_def ResolvConf_new_def)

text \<open>
  Switching the override off by a reload deletes the backup file, and switching it on again
  does not write it anew: from then on the resolver file is redirected and no backup is on disk.
\<close>

theorem reenabled_override_has_no_backup:
  "\<exists>t. io_bind (ResolvConf_apply (Some d)) (\<lambda>_. io_for [None, Some e] ResolvConf_reload)
      (fresh_dns (host_fs [] (Some orig)) l) = (Inr (), t) \<and>
    fs_files (dw_fs t) RESOLV_CONF_PATH = Some (nameserver_line e) \<and>
    fs_files (dw_fs t) RESOLV_CONF_BACKUP_PATH = None"
  by (simp add: resolv_defs io_simps fs_write_def fs_read_def fs_remove_file_def
      ResolvConf_system_def ResolvConf_new_def)

text \<open>
  On a host without a resolver file, a reload to a second server takes the file written for
  the first one for the original, and the restore writes that back.
\<close>

theorem missing_file_restored_as_redirect:
  assumes "d \<noteq> e"
  shows "\<exists>t. io_bind (ResolvConf_apply (Some d)) (\<lambda>_.
      io_bind (io_for [Some e] ResolvConf_reload) (\<lambda>_. ResolvConf_restore))
      (fresh_dns (host_fs [] None) l) = (Inr (), t) \<and>
    fs_files (dw_fs t) RESOLV_CONF_PATH = Some (nameserver_line d)"
  using assms
  by (simp add: resolv_defs io_simps fs_write_def fs_read_def fs_remove_file_def
      ResolvConf_system_def ResolvConf_new_def)

theorem missing_file_restored_as_redirect_witness:
  "\<exists>t. io_bind (ResolvConf_apply (Some (V4 1))) (\<lambda>_.
      io_bind (io_for [Some (V4 2)] ResolvConf_reload) (\<lambda>_. ResolvConf_restore))
      (fresh_dns (host_fs [] None) (Logger_new False)) = (Inr (), t) \<and>
    fs_files (dw_fs t) RESOLV_CONF_PATH = Some (nameserver_line (V4 1))"
  by (rule missing_file_restored_as_redirect) simp

end
