(* ===== verification/Netlink.thy ===== *)
theory Netlink
  imports Net
begin

text \<open>
  What the program sees of the kernel through \<^verbatim>\<open>rtnetlink\<close>. The kernel and the
  library are not part of the program: a \<open>netlink\<close> record gives the answers of the requests the
  program makes, on an abstract kernel state. \<open>netlink_ok\<close> is what is relied on: an accepted
  request to add (with the replace flag) puts the route in place of the one to the same
  destination, an accepted request to delete removes the route it describes, a delete is refused
  only if there is no such route, and a refused request changes nothing.
\<close>

section \<open>Messages\<close>

datatype AddressFamily = Inet | Inet6

datatype RouteAttribute =
    Destination IpAddr
  | Gateway IpAddr
  | Oif u32
  | OtherAttribute

record RouteMessage =
  rmsg_family :: AddressFamily
  rmsg_prefix :: u8
  rmsg_attributes :: "RouteAttribute list"

datatype LinkAttribute = Mtu u32 | OtherLinkAttribute

text \<open>A route as the request builder describes it and as the table holds it.\<close>

datatype route = Route (r_dst: IpAddr) (r_prefix: u8) (r_gateway: "IpAddr option") (r_oif: u32)

section \<open>The interface\<close>

text \<open>
  A dump is the messages the stream yields before it ends, and the error it ends with, if any.
\<close>

type_synonym 'm dump = "'m list \<times> error option"

record 'k netlink =
  nl_connect_err :: "error option"
  nl_links_by_name :: "string \<Rightarrow> 'k \<Rightarrow> u32 dump"
  nl_links_by_index :: "u32 \<Rightarrow> 'k \<Rightarrow> LinkAttribute list dump"
  nl_routes_v4 :: "'k \<Rightarrow> RouteMessage dump"
  nl_routes_v6 :: "'k \<Rightarrow> RouteMessage dump"
  nl_route_add :: "route \<Rightarrow> ('k, unit) io"
  nl_route_del :: "RouteMessage \<Rightarrow> ('k, unit) io"

text \<open>\<^verbatim>\<open>stream.try_next().await\<close> on a fresh stream.\<close>

fun first_of :: "'m dump \<Rightarrow> 'm option result" where
  "first_of (m # _, _) = Inr (Some m)"
| "first_of ([], Some e) = Inl e"
| "first_of ([], None) = Inr None"

section \<open>The routing table\<close>

definition slot :: "route \<Rightarrow> IpAddr \<times> u8" where
  "slot r = (r_dst r, r_prefix r)"

text \<open>A destination without bits beyond its prefix length: the only ones a kernel accepts as is.\<close>

definition aligned :: "IpAddr \<times> u8 \<Rightarrow> bool" where
  "aligned b = (case b of (a, p) \<Rightarrow> cidr_base (Cidr_new a p) = a)"

definition fib_add :: "route \<Rightarrow> route set \<Rightarrow> route set" where
  "fib_add r fib = insert r {r' \<in> fib. slot r' \<noteq> slot r}"

definition del_matches :: "RouteMessage \<Rightarrow> route \<Rightarrow> bool" where
  "del_matches msg r \<longleftrightarrow>
     rmsg_prefix msg = r_prefix r \<and>
     list_all (\<lambda>attr. case attr of
         Destination d \<Rightarrow> r_dst r = d
       | Gateway g \<Rightarrow> r_gateway r = Some g
       | Oif i \<Rightarrow> r_oif r = i
       | OtherAttribute \<Rightarrow> True) (rmsg_attributes msg)"

definition netlink_ok :: "'k netlink \<Rightarrow> ('k \<Rightarrow> route set) \<Rightarrow> bool" where
  "netlink_ok nl fib \<longleftrightarrow>
     (\<forall>r k. aligned (slot r) \<longrightarrow>
        fib (snd (nl_route_add nl r k)) =
          (if isl (fst (nl_route_add nl r k)) then fib k else fib_add r (fib k))) \<and>
     (\<forall>msg k.
        (if isl (fst (nl_route_del nl msg k))
         then fib (snd (nl_route_del nl msg k)) = fib k \<and> (\<forall>r \<in> fib k. \<not> del_matches msg r)
         else fib (snd (nl_route_del nl msg k)) = {r \<in> fib k. \<not> del_matches msg r}))"

lemma netlink_addD:
  "netlink_ok nl fib \<Longrightarrow> aligned (slot r) \<Longrightarrow> nl_route_add nl r k = (Inr u, k') \<Longrightarrow>
     fib k' = fib_add r (fib k)"
  "netlink_ok nl fib \<Longrightarrow> aligned (slot r) \<Longrightarrow> nl_route_add nl r k = (Inl e, k') \<Longrightarrow> fib k' = fib k"
  by (metis fst_conv snd_conv netlink_ok_def sum.disc)+

text \<open>Answered either way, a delete leaves no route that it describes.\<close>

lemma netlink_del:
  "netlink_ok nl fib \<Longrightarrow> fib (snd (nl_route_del nl msg k)) = {r \<in> fib k. \<not> del_matches msg r}"
  by (cases "isl (fst (nl_route_del nl msg k))") (auto simp: netlink_ok_def)

section \<open>Longest prefix match\<close>

definition covers :: "route \<Rightarrow> IpAddr \<Rightarrow> bool" where
  "covers r a = in_block (slot r) a"

text \<open>\<open>lpm fib a r\<close>: a packet to \<open>a\<close> leaves by \<open>r\<close>.\<close>

definition lpm :: "route set \<Rightarrow> IpAddr \<Rightarrow> route \<Rightarrow> bool" where
  "lpm fib a r \<longleftrightarrow> r \<in> fib \<and> covers r a \<and> (\<forall>r' \<in> fib. covers r' a \<longrightarrow> r_prefix r' \<le> r_prefix r)"

end
