(* ===== verification/Linux_Route.thy ===== *)
theory Linux_Route
  imports Linux_Dns Netlink
begin

text \<open>
  \<^verbatim>\<open>src/platform/linux/route.rs\<close>: the routes of the tunnel on Linux. The state of a
  call is the manager itself, the kernel, the file system and the log. What the calls do to
  the routing table is proved in the theory \<open>Linux_Fib\<close>.
\<close>

section \<open>Model\<close>

definition V4_SPLIT :: "(Ipv4Addr \<times> u8) list" where
  "V4_SPLIT = [(0, 1), (0x80000000, 1)]"

definition V6_SPLIT :: "(Ipv6Addr \<times> u8) list" where
  "V6_SPLIT = [(0, 1), (0x80000000000000000000000000000000, 1)]"

definition host_prefix :: "IpAddr \<Rightarrow> u8" where
  "host_prefix addr = (if is_ipv4 addr then 32 else 128)"

record RouteManager =
  rm_proxy_ip :: IpAddr
  rm_tun_index :: u32
  rm_dns :: ResolvConf
  rm_dns_server :: "IpAddr option"
  rm_bypass :: CidrList
  rm_capture_ipv6 :: bool
  rm_v4_gateway :: "(Ipv4Addr \<times> u32) option"
  rm_v6_gateway :: "(Ipv6Addr \<times> u32) option"
  rm_applied :: bool

type_synonym 'k rt_world = "(RouteManager, 'k) os_world"

text \<open>A call on \<^verbatim>\<open>self.dns\<close>.\<close>

definition on_dns :: "(resolv_world, 'a) io \<Rightarrow> ('k rt_world, 'a) io" where
  "on_dns = io_zoom
     (\<lambda>w. \<lparr>dw_self = rm_dns (rw_self w), dw_fs = rw_fs w, dw_log = rw_log w\<rparr>)
     (\<lambda>d w. w\<lparr>rw_self := (rw_self w)\<lparr>rm_dns := dw_self d\<rparr>, rw_fs := dw_fs d, rw_log := dw_log d\<rparr>)"

definition resolve_link_index :: "'k netlink \<Rightarrow> string \<Rightarrow> 'k \<Rightarrow> u32 result" where
  "resolve_link_index nl name k =
     bind_res (context_res ''netlink error querying link index'' (first_of (nl_links_by_name nl name k)))
       (context_opt (''interface '' @ name @ '' not found''))"

definition RouteManager_new ::
    "'k netlink \<Rightarrow> 'k \<Rightarrow> IpAddr \<Rightarrow> string \<Rightarrow> IpAddr option \<Rightarrow> CidrList \<Rightarrow> bool \<Rightarrow> RouteManager result" where
  "RouteManager_new nl k proxy_ip name server blocks capture =
     bind_res (resolve_link_index nl name k) (\<lambda>tun_index.
     Inr \<lparr>rm_proxy_ip = proxy_ip, rm_tun_index = tun_index, rm_dns = ResolvConf_system,
          rm_dns_server = server, rm_bypass = blocks, rm_capture_ipv6 = capture,
          rm_v4_gateway = None, rm_v6_gateway = None, rm_applied = False\<rparr>)"

subsection \<open>Reading the gateways\<close>

fun scan_v4_attrs :: "RouteAttribute list \<Rightarrow> Ipv4Addr option \<Rightarrow> u32 option \<Rightarrow>
    Ipv4Addr option \<times> u32 option" where
  "scan_v4_attrs [] gw oif = (gw, oif)"
| "scan_v4_attrs (attr # attrs) gw oif =
     (case attr of
        Gateway (V4 addr) \<Rightarrow> scan_v4_attrs attrs (Some addr) oif
      | Oif idx \<Rightarrow> scan_v4_attrs attrs gw (Some idx)
      | _ \<Rightarrow> scan_v4_attrs attrs gw oif)"

fun scan_v6_attrs :: "RouteAttribute list \<Rightarrow> Ipv6Addr option \<Rightarrow> u32 option \<Rightarrow>
    Ipv6Addr option \<times> u32 option" where
  "scan_v6_attrs [] gw oif = (gw, oif)"
| "scan_v6_attrs (attr # attrs) gw oif =
     (case attr of
        Gateway (V6 addr) \<Rightarrow> scan_v6_attrs attrs (Some addr) oif
      | Oif idx \<Rightarrow> scan_v6_attrs attrs gw (Some idx)
      | _ \<Rightarrow> scan_v6_attrs attrs gw oif)"

fun read_v4_gateway :: "RouteMessage dump \<Rightarrow> (Ipv4Addr \<times> u32) option result" where
  "read_v4_gateway ([], Some e) = Inl (''netlink error reading IPv4 routes'' # e)"
| "read_v4_gateway ([], None) = Inr None"
| "read_v4_gateway (route # routes, end) =
     (if rmsg_prefix route \<noteq> 0 then read_v4_gateway (routes, end)
      else case scan_v4_attrs (rmsg_attributes route) None None of
        (Some g, Some i) \<Rightarrow> Inr (Some (g, i))
      | _ \<Rightarrow> read_v4_gateway (routes, end))"

fun read_v6_gateway :: "RouteMessage dump \<Rightarrow> (Ipv6Addr \<times> u32) option result" where
  "read_v6_gateway ([], Some e) = Inl (''netlink error reading IPv6 routes'' # e)"
| "read_v6_gateway ([], None) = Inr None"
| "read_v6_gateway (route # routes, end) =
     (if rmsg_prefix route \<noteq> 0 then read_v6_gateway (routes, end)
      else case scan_v6_attrs (rmsg_attributes route) None None of
        (Some g, Some i) \<Rightarrow> Inr (Some (g, i))
      | _ \<Rightarrow> read_v6_gateway (routes, end))"

subsection \<open>Requests\<close>

definition slash_show :: "IpAddr \<Rightarrow> u8 \<Rightarrow> string" where
  "slash_show dst p = show_ip dst @ ''/'' @ show_word p"

definition add_via_gateway ::
    "'k netlink \<Rightarrow> IpAddr \<Rightarrow> u8 \<Rightarrow> IpAddr \<Rightarrow> u32 \<Rightarrow> ('k rt_world, unit) io" where
  "add_via_gateway nl dst p gw oif =
     (case (dst, gw) of
        (V4 d, V4 g) \<Rightarrow>
          io_context (''failed to add route '' @ slash_show dst p @ '' via '' @ show_ip gw)
            (on_kernel (nl_route_add nl (Route (V4 d) p (Some (V4 g)) oif)))
      | (V6 d, V6 g) \<Rightarrow>
          io_context (''failed to add route '' @ slash_show dst p @ '' via '' @ show_ip gw)
            (on_kernel (nl_route_add nl (Route (V6 d) p (Some (V6 g)) oif)))
      | _ \<Rightarrow> io_bail [''address family mismatch for route '' @ slash_show dst p])"

definition add_via_tun :: "'k netlink \<Rightarrow> IpAddr \<Rightarrow> u8 \<Rightarrow> ('k rt_world, unit) io" where
  "add_via_tun nl dst p =
     io_bind (io_gets (rm_tun_index \<circ> rw_self)) (\<lambda>tun_index.
     io_context (''failed to add split route '' @ slash_show dst p @ '' via tun'')
       (on_kernel (nl_route_add nl (Route dst p None tun_index))))"

definition build_del_message :: "IpAddr \<Rightarrow> u8 \<Rightarrow> u32 \<Rightarrow> IpAddr option \<Rightarrow> RouteMessage" where
  "build_del_message dst p oif gw =
     (let family = (case dst of V4 _ \<Rightarrow> Inet | V6 _ \<Rightarrow> Inet6);
          attributes = [Destination dst];
          attributes = (case gw of Some g \<Rightarrow> attributes @ [Gateway g] | None \<Rightarrow> attributes)
      in \<lparr>rmsg_family = family, rmsg_prefix = p, rmsg_attributes = attributes @ [Oif oif]\<rparr>)"

definition del_route ::
    "'k netlink \<Rightarrow> IpAddr \<Rightarrow> u8 \<Rightarrow> u32 \<Rightarrow> IpAddr option \<Rightarrow> ('k rt_world, unit) io" where
  "del_route nl dst p oif gw =
     io_context (''failed to delete route '' @ slash_show dst p)
       (on_kernel (nl_route_del nl (build_del_message dst p oif gw)))"

definition gateway_for :: "RouteManager \<Rightarrow> IpAddr \<Rightarrow> (IpAddr \<times> u32) option" where
  "gateway_for rm family =
     (case family of
        V4 _ \<Rightarrow> map_option (\<lambda>(g, i). (V4 g, i)) (rm_v4_gateway rm)
      | V6 _ \<Rightarrow> map_option (\<lambda>(g, i). (V6 g, i)) (rm_v6_gateway rm))"

subsection \<open>Apply\<close>

definition read_gateways :: "'k netlink \<Rightarrow> ('k rt_world, unit) io" where
  "read_gateways nl =
     io_bind (io_gets (\<lambda>w. read_v4_gateway (nl_routes_v4 nl (rw_kernel w)))) (\<lambda>r4.
     io_bind (io_lift r4) (\<lambda>g4.
     io_bind (rt_self (\<lambda>m. m\<lparr>rm_v4_gateway := g4\<rparr>)) (\<lambda>_.
     io_bind (io_gets (\<lambda>w. read_v6_gateway (nl_routes_v6 nl (rw_kernel w)))) (\<lambda>r6.
     io_bind (io_lift r6) (\<lambda>g6.
     io_bind (rt_self (\<lambda>m. m\<lparr>rm_v6_gateway := g6\<rparr>)) (\<lambda>_.
     io_bind (case g4 of None \<Rightarrow> io_return ()
              | Some (g, i) \<Rightarrow> rt_log (log_info (''IPv4 gateway: '' @ show_ip (V4 g) @ '' on ifindex '' @ show_word i))) (\<lambda>_.
     (case g6 of None \<Rightarrow> io_return ()
      | Some (g, i) \<Rightarrow> rt_log (log_info (''IPv6 gateway: '' @ show_ip (V6 g) @ '' on ifindex '' @ show_word i)))
     )))))))"

definition pin_proxy :: "'k netlink \<Rightarrow> ('k rt_world, unit) io" where
  "pin_proxy nl =
     io_bind (io_gets rw_self) (\<lambda>self.
     io_bind (io_lift (context_opt
         (''no default gateway for proxy address family ('' @ show_ip (rm_proxy_ip self) @ '')'')
         (gateway_for self (rm_proxy_ip self)))) (\<lambda>(proxy_gw, proxy_oif).
     io_bind (io_context ''failed to protect proxy route''
       (add_via_gateway nl (rm_proxy_ip self) (host_prefix (rm_proxy_ip self)) proxy_gw proxy_oif)) (\<lambda>_.
     rt_log (log_info (''host route for proxy '' @ show_ip (rm_proxy_ip self) @ '' via '' @ show_ip proxy_gw @ '' added'')))))"

definition add_bypass :: "'k netlink \<Rightarrow> IpAddr \<times> u8 \<Rightarrow> ('k rt_world, unit) io" where
  "add_bypass nl = (\<lambda>(dst, p).
     io_bind (io_gets rw_self) (\<lambda>self.
     case gateway_for self dst of
       Some (gw, oif) \<Rightarrow>
         io_bind (io_context (''failed to add bypass route '' @ slash_show dst p)
                    (add_via_gateway nl dst p gw oif)) (\<lambda>_.
         rt_log (log_info (''bypass route '' @ slash_show dst p @ '' via '' @ show_ip gw @ '' added'')))
     | None \<Rightarrow>
         rt_log (log_warn (''skipping bypass route '' @ slash_show dst p @ '': no gateway for its family''))))"

definition install_routes :: "'k netlink \<Rightarrow> ('k rt_world, unit) io" where
  "install_routes nl =
     io_bind (pin_proxy nl) (\<lambda>_.
     io_bind (io_gets rw_self) (\<lambda>self.
     io_bind (io_for (rm_bypass self) (add_bypass nl)) (\<lambda>_.
     io_bind (io_for V4_SPLIT (\<lambda>(dst, p). add_via_tun nl (V4 dst) p)) (\<lambda>_.
     io_bind (rt_log (log_info ''IPv4 split-default routes into tun added'')) (\<lambda>_.
     io_bind
       (if rm_capture_ipv6 self then
          if rm_v6_gateway self \<noteq> None \<or> \<not> is_ipv4 (rm_proxy_ip self) then
            io_bind (io_for V6_SPLIT (\<lambda>(dst, p). add_via_tun nl (V6 dst) p)) (\<lambda>_.
            rt_log (log_info ''IPv6 split-default routes into tun added''))
          else rt_log (log_warn ''capture_ipv6 enabled but no IPv6 gateway present, skipping IPv6 capture'')
        else io_return ()) (\<lambda>_.
     io_bind (on_dns (ResolvConf_apply (rm_dns_server self))) (\<lambda>_.
     rt_self (\<lambda>m. m\<lparr>rm_applied := True\<rparr>))))))))"

definition RouteManager_apply :: "'k netlink \<Rightarrow> ('k rt_world, unit) io" where
  "RouteManager_apply nl = io_bind (read_gateways nl) (\<lambda>_. install_routes nl)"

subsection \<open>Reload and teardown\<close>

text \<open>\<^verbatim>\<open>if let Err(e) = self.del_route(..).await { log.warn(..) }\<close>\<close>

definition del_or_warn ::
    "'k netlink \<Rightarrow> string \<Rightarrow> IpAddr \<Rightarrow> u8 \<Rightarrow> u32 \<Rightarrow> IpAddr option \<Rightarrow> ('k rt_world, unit) io" where
  "del_or_warn nl label dst p oif gw =
     io_bind (io_catch (del_route nl dst p oif gw)) (\<lambda>r.
     case r of Inl e \<Rightarrow> rt_log (log_warn (label @ display_error e)) | Inr _ \<Rightarrow> io_return ())"

definition del_via_gateway :: "'k netlink \<Rightarrow> string \<Rightarrow> IpAddr \<Rightarrow> u8 \<Rightarrow> ('k rt_world, unit) io" where
  "del_via_gateway nl label dst p =
     io_bind (io_gets rw_self) (\<lambda>self.
     case gateway_for self dst of
       Some (gw, oif) \<Rightarrow> del_or_warn nl label dst p oif (Some gw)
     | None \<Rightarrow> io_return ())"

definition move_proxy :: "'k netlink \<Rightarrow> IpAddr \<Rightarrow> IpAddr \<Rightarrow> ('k rt_world, unit) io" where
  "move_proxy nl old_ip new_ip =
     io_bind (del_via_gateway nl ''reload: removing old proxy route: '' old_ip (host_prefix old_ip)) (\<lambda>_.
     io_bind (io_gets rw_self) (\<lambda>self.
     io_bind (io_lift (context_opt
         (''no default gateway for new proxy address family ('' @ show_ip new_ip @ '')'')
         (gateway_for self new_ip))) (\<lambda>(gw, oif).
     io_bind (io_context ''failed to install new proxy host route''
       (add_via_gateway nl new_ip (host_prefix new_ip) gw oif)) (\<lambda>_.
     io_bind (rt_self (\<lambda>m. m\<lparr>rm_proxy_ip := new_ip\<rparr>)) (\<lambda>_.
     rt_log (log_info (''proxy host route moved to '' @ show_ip new_ip @ '' via '' @ show_ip gw)))))))"

definition reload_add_bypass :: "'k netlink \<Rightarrow> IpAddr \<times> u8 \<Rightarrow> ('k rt_world, unit) io" where
  "reload_add_bypass nl = (\<lambda>(dst, p).
     io_bind (io_gets rw_self) (\<lambda>self.
     case gateway_for self dst of
       Some (gw, oif) \<Rightarrow>
         io_bind (io_context (''failed to add bypass route '' @ slash_show dst p)
                    (add_via_gateway nl dst p gw oif)) (\<lambda>_.
         rt_log (log_info (''bypass route '' @ slash_show dst p @ '' via '' @ show_ip gw @ '' added (reload)'')))
     | None \<Rightarrow>
         rt_log (log_warn (''reload: skipping bypass route '' @ slash_show dst p @ '': no gateway for its family''))))"

definition reload_steps :: "'k netlink \<Rightarrow> ReloadPlan \<Rightarrow> ('k rt_world, unit) io" where
  "reload_steps nl plan =
     io_bind (case pl_proxy_route_change plan of
                Some (old_ip, new_ip) \<Rightarrow> move_proxy nl old_ip new_ip
              | None \<Rightarrow> io_return ()) (\<lambda>_.
     io_bind (io_for (pl_bypass_remove plan) (\<lambda>(dst, p).
                del_via_gateway nl (''reload: removing bypass '' @ slash_show dst p @ '': '') dst p)) (\<lambda>_.
     io_bind (io_for (pl_bypass_add plan) (reload_add_bypass nl)) (\<lambda>_.
     io_bind (rt_self (\<lambda>m. m\<lparr>rm_bypass := pl_new_bypass plan\<rparr>)) (\<lambda>_.
     if pl_dns_changed plan then
       io_bind (on_dns (ResolvConf_reload (pl_dns plan))) (\<lambda>_.
       rt_self (\<lambda>m. m\<lparr>rm_dns_server := pl_dns plan\<rparr>))
     else io_return ()))))"

definition RouteManager_reload :: "'k netlink \<Rightarrow> ReloadPlan \<Rightarrow> ('k rt_world, unit) io" where
  "RouteManager_reload nl plan =
     io_bind (io_gets rw_self) (\<lambda>self.
     if \<not> rm_applied self then io_return () else reload_steps nl plan)"

definition teardown_steps :: "'k netlink \<Rightarrow> RouteManager \<Rightarrow> ('k rt_world, unit) io" where
  "teardown_steps nl self =
     io_bind (del_via_gateway nl ''teardown: '' (rm_proxy_ip self) (host_prefix (rm_proxy_ip self))) (\<lambda>_.
     io_bind (io_for (rm_bypass self) (\<lambda>(dst, p). del_via_gateway nl ''teardown: '' dst p)) (\<lambda>_.
     io_bind (io_for V4_SPLIT (\<lambda>(dst, p).
                del_or_warn nl ''teardown: '' (V4 dst) p (rm_tun_index self) None)) (\<lambda>_.
     io_bind (if rm_capture_ipv6 self then
                io_for V6_SPLIT (\<lambda>(dst, p).
                  del_or_warn nl ''teardown: '' (V6 dst) p (rm_tun_index self) None)
              else io_return ()) (\<lambda>_.
     io_bind (rt_log (log_info ''routes removed'')) (\<lambda>_.
     on_dns ResolvConf_restore)))))"

definition RouteManager_teardown :: "'k netlink \<Rightarrow> ('k rt_world, unit) io" where
  "RouteManager_teardown nl =
     io_bind (io_gets rw_self) (\<lambda>self.
     if \<not> rm_applied self then io_return ()
     else
       io_bind (rt_self (\<lambda>m. m\<lparr>rm_applied := False\<rparr>)) (\<lambda>_. teardown_steps nl self))"

end
