(* ===== verification/Linux_Fib.thy ===== *)
theory Linux_Fib
  imports Linux_Route
begin

text \<open>
  What the route manager of \<open>Linux_Route\<close> does to the routing table. Every call is given its
  effect on the set of routes (\<open>fib_effect\<close>, \<open>fib_step\<close>), and the effects of its steps compose.
\<close>

section \<open>Effects on the routing table\<close>

text \<open>
  \<open>fib_effect nl fib m g\<close>: whatever \<open>m\<close> returns normally, it changes the table as \<open>g\<close> says and
  leaves the manager's settings (\<open>frame\<close>: all but the DNS state and the applied flag) alone. Sequences compose the effects.
\<close>

definition frame :: "RouteManager \<Rightarrow> RouteManager" where
  "frame m = m\<lparr>rm_dns := ResolvConf_system, rm_applied := False\<rparr>"

definition fib_effect :: "('k \<Rightarrow> route set) \<Rightarrow> RouteManager \<Rightarrow> ('k rt_world, 'a) io \<Rightarrow>
    (route set \<Rightarrow> route set) \<Rightarrow> bool" where
  "fib_effect fib rm m g \<longleftrightarrow>
     (\<forall>w x t. frame (rw_self w) = frame rm \<longrightarrow> m w = (Inr x, t) \<longrightarrow>
        fib (rw_kernel t) = g (fib (rw_kernel w)) \<and> frame (rw_self t) = frame rm)"

lemma frame_dns [simp]:
  "frame (m\<lparr>rm_dns := d\<rparr>) = frame m" "frame (m\<lparr>rm_applied := b\<rparr>) = frame m"
  by (simp_all add: frame_def)

lemma frame_sel:
  "rm_proxy_ip (frame m) = rm_proxy_ip m" "rm_tun_index (frame m) = rm_tun_index m"
  "rm_bypass (frame m) = rm_bypass m" "rm_capture_ipv6 (frame m) = rm_capture_ipv6 m"
  "rm_v4_gateway (frame m) = rm_v4_gateway m" "rm_v6_gateway (frame m) = rm_v6_gateway m"
  "rm_dns_server (frame m) = rm_dns_server m"
  by (simp_all add: frame_def)

lemma frame_eqD:
  assumes "frame m = frame n"
  shows "rm_proxy_ip m = rm_proxy_ip n" "rm_tun_index m = rm_tun_index n"
    "rm_bypass m = rm_bypass n" "rm_capture_ipv6 m = rm_capture_ipv6 n"
    "rm_v4_gateway m = rm_v4_gateway n" "rm_v6_gateway m = rm_v6_gateway n"
    "rm_dns_server m = rm_dns_server n"
  using assms by (metis frame_sel)+

lemma fib_effectD:
  assumes "fib_effect fib rm m g" and "frame (rw_self w) = frame rm" and "m w = (Inr x, t)"
  shows "fib (rw_kernel t) = g (fib (rw_kernel w))" "frame (rw_self t) = frame rm"
  using assms unfolding fib_effect_def by blast+

lemma fib_effectI:
  assumes "\<And>w x t. frame (rw_self w) = frame rm \<Longrightarrow> m w = (Inr x, t) \<Longrightarrow>
    fib (rw_kernel t) = g (fib (rw_kernel w)) \<and> frame (rw_self t) = frame rm"
  shows "fib_effect fib rm m g"
  using assms unfolding fib_effect_def by blast

lemma effect_return: "fib_effect fib rm (io_return x) id"
  and effect_log: "fib_effect fib rm (rt_log h) id"
  and effect_dns: "fib_effect fib rm (on_dns d) id"
  and effect_gets: "fib_effect fib rm (io_gets sel) id"
  by (intro fib_effectI; auto simp: io_simps rt_log_def on_dns_def split: prod.splits)+

lemma effect_bind:
  assumes "fib_effect fib rm m g" and "\<And>x. fib_effect fib rm (f x) h"
  shows "fib_effect fib rm (io_bind m f) (h \<circ> g)"
  unfolding fib_effect_def
proof (intro allI impI)
  fix w y t assume w: "frame (rw_self w) = frame rm" and run: "io_bind m f w = (Inr y, t)"
  obtain x s where m: "m w = (Inr x, s)" and f: "f x s = (Inr y, t)" using run by (rule io_bind_okE)
  note first = fib_effectD[OF assms(1) w m]
  show "fib (rw_kernel t) = (h \<circ> g) (fib (rw_kernel w)) \<and> frame (rw_self t) = frame rm"
    using first fib_effectD[OF assms(2) first(2) f] by (simp only: comp_apply simp_thms)
qed

text \<open>A computation that first looks at the manager.\<close>

lemma effect_self:
  assumes "\<And>m. frame m = frame rm \<Longrightarrow> fib_effect fib rm (f m) g"
  shows "fib_effect fib rm (io_bind (io_gets rw_self) f) g"
proof (rule fib_effectI)
  fix w x t assume w: "frame (rw_self w) = frame rm" and "io_bind (io_gets rw_self) f w = (Inr x, t)"
  then have "f (rw_self w) w = (Inr x, t)" by (simp only: io_simps prod.case sum.case)
  then show "fib (rw_kernel t) = g (fib (rw_kernel w)) \<and> frame (rw_self t) = frame rm"
    using fib_effectD[OF assms[OF w] w] by blast
qed

lemma effect_context: "fib_effect fib rm m g \<Longrightarrow> fib_effect fib rm (io_context c m) g"
  unfolding fib_effect_def io_simps by (simp only: split_beta prod.inject context_res_Inr_iff) (metis prod.collapse)

lemma effect_for:
  assumes "\<And>x. x \<in> set xs \<Longrightarrow> fib_effect fib rm (f x) (g x)"
  shows "fib_effect fib rm (io_for xs f) (fold g xs)"
  using assms
proof (induction xs)
  case (Cons x xs)
  then show ?case using effect_bind[of fib rm "f x" "g x" "\<lambda>_. io_for xs f" "fold g xs"]
    by (simp add: comp_def)
qed (simp add: effect_return)

lemma gateway_for_frame: "frame m = frame rm \<Longrightarrow> gateway_for m = gateway_for rm"
  using frame_eqD(5,6)[of m rm] by (simp add: gateway_for_def fun_eq_iff split: IpAddr.splits)

lemma gateway_for_family: "gateway_for rm dst = Some (gw, oif) \<Longrightarrow> is_ipv4 gw = is_ipv4 dst"
  by (auto simp: gateway_for_def split: IpAddr.splits)

lemma effect_add_via_gateway:
  assumes "netlink_ok nl fib" and "aligned (dst, p)" and "is_ipv4 gw = is_ipv4 dst"
  shows "fib_effect fib rm (add_via_gateway nl dst p gw oif) (fib_add (Route dst p (Some gw) oif))"
  using assms(2,3)
  by (cases dst; cases gw; intro fib_effectI)
    (auto simp: add_via_gateway_def on_kernel_def io_simps slot_def split: prod.splits
      dest: netlink_addD(1)[OF assms(1), rotated])

lemma effect_add_via_tun:
  assumes "netlink_ok nl fib" and "aligned (dst, p)"
  shows "fib_effect fib rm (add_via_tun nl dst p) (fib_add (Route dst p None (rm_tun_index rm)))"
proof (rule fib_effectI)
  fix w x t
  assume w: "frame (rw_self w) = frame rm" and run: "add_via_tun nl dst p w = (Inr x, t)"
  then show "fib (rw_kernel t) = fib_add (Route dst p None (rm_tun_index rm)) (fib (rw_kernel w)) \<and>
      frame (rw_self t) = frame rm"
    using assms(2) frame_eqD(2)[OF w]
    by (auto simp: add_via_tun_def on_kernel_def io_simps slot_def split: prod.splits
        dest: netlink_addD(1)[OF assms(1), rotated])
qed

definition fib_del :: "IpAddr \<Rightarrow> u8 \<Rightarrow> u32 \<Rightarrow> IpAddr option \<Rightarrow> route set \<Rightarrow> route set" where
  "fib_del dst p oif gw fib =
     {r \<in> fib. \<not> (slot r = (dst, p) \<and> r_oif r = oif \<and> (gw = None \<or> r_gateway r = gw))}"

lemma del_matches_build:
  "del_matches (build_del_message dst p oif gw) r \<longleftrightarrow>
     slot r = (dst, p) \<and> r_oif r = oif \<and> (gw = None \<or> r_gateway r = gw)"
  by (cases gw) (auto simp: del_matches_def build_del_message_def slot_def)

lemma effect_del_or_warn:
  assumes "netlink_ok nl fib"
  shows "fib_effect fib rm (del_or_warn nl label dst p oif gw) (fib_del dst p oif gw)"
proof -
  have "fib (snd (nl_route_del nl (build_del_message dst p oif gw) k)) = fib_del dst p oif gw (fib k)" for k
    by (simp add: netlink_del[OF assms] del_matches_build fib_del_def)
  then show ?thesis
    by (intro fib_effectI)
      (auto simp: del_or_warn_def del_route_def on_kernel_def io_simps rt_log_def split_beta split: sum.splits)
qed

section \<open>The routes a manager stands for\<close>

definition via_gateway :: "RouteManager \<Rightarrow> IpAddr \<times> u8 \<Rightarrow> route option" where
  "via_gateway rm = (\<lambda>(dst, p). map_option (\<lambda>(gw, oif). Route dst p (Some gw) oif) (gateway_for rm dst))"

definition pinned :: "RouteManager \<Rightarrow> IpAddr \<times> u8" where
  "pinned rm = (rm_proxy_ip rm, host_prefix (rm_proxy_ip rm))"

definition gateway_routes :: "RouteManager \<Rightarrow> route list" where
  "gateway_routes rm = List.map_filter (via_gateway rm) (pinned rm # rm_bypass rm)"

definition split_blocks :: "(IpAddr \<times> u8) list" where
  "split_blocks = map (\<lambda>(d, p). (V4 d, p)) V4_SPLIT @ map (\<lambda>(d, p). (V6 d, p)) V6_SPLIT"

definition split_routes :: "RouteManager \<Rightarrow> route list" where
  "split_routes rm =
     map (\<lambda>(d, p). Route (V4 d) p None (rm_tun_index rm)) V4_SPLIT @
     (if rm_capture_ipv6 rm \<and> rm_v6_gateway rm \<noteq> None
      then map (\<lambda>(d, p). Route (V6 d) p None (rm_tun_index rm)) V6_SPLIT else [])"

definition managed :: "RouteManager \<Rightarrow> route list" where
  "managed rm = gateway_routes rm @ split_routes rm"

lemma via_gateway_slot: "via_gateway rm b = Some r \<Longrightarrow> slot r = b"
  by (auto simp: via_gateway_def slot_def split: prod.splits)

lemma set_map_filter: "set (List.map_filter f xs) = {y. \<exists>x \<in> set xs. f x = Some y}"
  by (force simp: List.map_filter_def)

lemma in_gateway_routes:
  "r \<in> set (gateway_routes rm) \<longleftrightarrow> (\<exists>b \<in> set (pinned rm # rm_bypass rm). via_gateway rm b = Some r)"
  unfolding gateway_routes_def set_map_filter by blast

lemma split_slots: "slot ` set (split_routes rm) \<subseteq> set split_blocks"
  by (auto simp: split_routes_def split_blocks_def slot_def V4_SPLIT_def V6_SPLIT_def)

lemma host_prefix_not_split: "pinned rm \<notin> set split_blocks"
  by (auto simp: pinned_def host_prefix_def split_blocks_def V4_SPLIT_def V6_SPLIT_def)

text \<open>One route per destination, unless a bypass block is one of the split halves.\<close>

definition clash_free :: "CidrList \<Rightarrow> bool" where
  "clash_free blocks \<longleftrightarrow> set blocks \<inter> set split_blocks = {}"

lemma gateway_slot_inj:
  "r \<in> set (gateway_routes rm) \<Longrightarrow> r' \<in> set (gateway_routes rm) \<Longrightarrow> slot r = slot r' \<Longrightarrow> r = r'"
  by (metis in_gateway_routes option.inject via_gateway_slot)

lemma split_slot_inj:
  "r \<in> set (split_routes rm) \<Longrightarrow> r' \<in> set (split_routes rm) \<Longrightarrow> slot r = slot r' \<Longrightarrow> r = r'"
  by (auto simp: split_routes_def slot_def V4_SPLIT_def V6_SPLIT_def split: if_splits)

lemma gateway_slots: "r \<in> set (gateway_routes rm) \<Longrightarrow> slot r \<in> set (pinned rm # rm_bypass rm)"
  by (metis in_gateway_routes via_gateway_slot)

lemma managed_slot_inj:
  assumes "clash_free (rm_bypass rm)"
  shows "inj_on slot (set (managed rm))"
proof -
  have "slot r \<noteq> slot r'" if "r \<in> set (gateway_routes rm)" "r' \<in> set (split_routes rm)" for r r'
    using gateway_slots[OF that(1)] split_slots that(2) assms host_prefix_not_split
    by (fastforce simp: clash_free_def)
  then show ?thesis
    by (auto simp: inj_on_def managed_def intro: gateway_slot_inj split_slot_inj)
      metis+
qed

section \<open>Adding a list of routes\<close>

lemma fold_fib_add_bounds:
  "fold fib_add rs fib \<subseteq> fib \<union> set rs"
  "{r \<in> fib. slot r \<notin> slot ` set rs} \<subseteq> fold fib_add rs fib"
proof (induction rs arbitrary: fib)
  case (Cons r rs)
  case 1
  show ?case using Cons.IH(1)[of "fib_add r fib"] by (auto simp: fib_add_def)
  case 2
  show ?case using Cons.IH(2)[of "fib_add r fib"] by (auto simp: fib_add_def)
qed auto

lemma fold_fib_add_inj:
  assumes "inj_on slot (set rs)"
  shows "fold fib_add rs fib = {r \<in> fib. slot r \<notin> slot ` set rs} \<union> set rs"
  using assms
proof (induction rs arbitrary: fib)
  case (Cons r rs)
  then show ?case
    by (auto simp: fib_add_def inj_on_def)
qed auto

section \<open>Apply and teardown\<close>

definition put_block :: "RouteManager \<Rightarrow> IpAddr \<times> u8 \<Rightarrow> route set \<Rightarrow> route set" where
  "put_block rm b = (case via_gateway rm b of None \<Rightarrow> id | Some r \<Rightarrow> fib_add r)"

definition drop_block :: "RouteManager \<Rightarrow> IpAddr \<times> u8 \<Rightarrow> route set \<Rightarrow> route set" where
  "drop_block rm b fib = fib - set_option (via_gateway rm b)"

lemma fold_put_block: "fold (put_block rm) bs = fold fib_add (List.map_filter (via_gateway rm) bs)"
  by (induction bs) (auto simp: put_block_def map_filter_simps split: option.splits)

lemma fold_drop_block:
  "fold (drop_block rm) bs fib = fib - set (List.map_filter (via_gateway rm) bs)"
  by (induction bs arbitrary: fib) (auto simp: drop_block_def map_filter_simps split: option.splits)

lemma via_gateway_cases:
  obtains "gateway_for rm (fst b) = None" "via_gateway rm b = None"
  | gw oif where "gateway_for rm (fst b) = Some (gw, oif)"
      "via_gateway rm b = Some (Route (fst b) (snd b) (Some gw) oif)" "is_ipv4 gw = is_ipv4 (fst b)"
  by (cases "gateway_for rm (fst b)") (auto simp: via_gateway_def split_beta dest: gateway_for_family)

lemma aligned_host: "aligned (a, host_prefix a)"
  by (cases a) (simp_all add: aligned_def host_prefix_def Cidr_new_def mask_v4_def mask_v6_def
      fam4.host fam6.host)

lemma effect_then_log:
  assumes "fib_effect fib rm m g"
  shows "fib_effect fib rm (io_bind m (\<lambda>_. rt_log h)) g"
  using effect_bind[OF assms effect_log] by simp

text \<open>A missing value ends the computation, so only the present one has an effect.\<close>

lemma effect_lift_opt:
  assumes "\<And>x. v = Some x \<Longrightarrow> fib_effect fib rm (f x) g"
  shows "fib_effect fib rm (io_bind (io_lift (context_opt c v)) f) g"
proof (cases v)
  case None
  then show ?thesis by (intro fib_effectI) (simp add: io_simps)
next
  case (Some x)
  then have "io_bind (io_lift (context_opt c v)) f = f x" by (simp add: fun_eq_iff io_simps)
  then show ?thesis using assms Some by simp
qed

lemma put_block_Some:
  "gateway_for rm dst = Some (gw, oif) \<Longrightarrow> put_block rm (dst, p) = fib_add (Route dst p (Some gw) oif)"
  by (simp add: put_block_def via_gateway_def)

lemma put_block_None: "gateway_for rm dst = None \<Longrightarrow> put_block rm (dst, p) = id"
  by (simp add: put_block_def via_gateway_def)

lemma effect_add_block:
  assumes "netlink_ok nl fib" and "aligned (dst, p)" and "gateway_for rm dst = Some (gw, oif)"
  shows "fib_effect fib rm (add_via_gateway nl dst p gw oif) (put_block rm (dst, p))"
  using effect_add_via_gateway[OF assms(1,2) gateway_for_family[OF assms(3)]]
  by (simp add: put_block_Some[OF assms(3)])

lemma effect_pin_proxy:
  assumes "netlink_ok nl fib"
  shows "fib_effect fib rm (pin_proxy nl) (put_block rm (pinned rm))"
  unfolding pin_proxy_def pinned_def
  apply (intro effect_self effect_lift_opt)
  subgoal premises prems for m x
    using prems(2) frame_eqD(1)[OF prems(1)] gateway_for_frame[OF prems(1)]
    by (cases x) (simp add: effect_then_log effect_context effect_add_block[OF assms aligned_host])
  done

lemma effect_add_bypass:
  assumes "netlink_ok nl fib" and "aligned b"
  shows "fib_effect fib rm (add_bypass nl b) (put_block rm b)"
    and "fib_effect fib rm (reload_add_bypass nl b) (put_block rm b)"
proof -
  obtain dst p where b: "b = (dst, p)" by fastforce
  note al = assms(2)[unfolded b]
  show "fib_effect fib rm (add_bypass nl b) (put_block rm b)"
    unfolding add_bypass_def b prod.case
    apply (rule effect_self)
    subgoal premises prems for m
      by (cases "gateway_for rm dst")
        (auto simp: gateway_for_frame[OF prems] put_block_None effect_log
          intro!: effect_then_log effect_context effect_add_block[OF assms(1) al])
    done
  show "fib_effect fib rm (reload_add_bypass nl b) (put_block rm b)"
    unfolding reload_add_bypass_def b prod.case
    apply (rule effect_self)
    subgoal premises prems for m
      by (cases "gateway_for rm dst")
        (auto simp: gateway_for_frame[OF prems] put_block_None effect_log
          intro!: effect_then_log effect_context effect_add_block[OF assms(1) al])
    done
qed

lemma effect_del_via_gateway:
  assumes "netlink_ok nl fib"
  shows "fib_effect fib rm (del_via_gateway nl label dst p) (drop_block rm (dst, p))"
  unfolding del_via_gateway_def
proof (rule effect_self)
  fix m assume m: "frame m = frame rm"
  show "fib_effect fib rm (case gateway_for m dst of None \<Rightarrow> io_return ()
      | Some (gw, oif) \<Rightarrow> del_or_warn nl label dst p oif (Some gw)) (drop_block rm (dst, p))"
  proof (cases "gateway_for rm dst")
    case None
    then have "drop_block rm (dst, p) = id" by (auto simp: drop_block_def via_gateway_def)
    then show ?thesis by (simp add: gateway_for_frame[OF m] None effect_return)
  next
    case (Some g)
    then have "drop_block rm (dst, p) = fib_del dst p (snd g) (Some (fst g))"
      by (auto simp: drop_block_def via_gateway_def fib_del_def slot_def fun_eq_iff split_beta
          intro: route.expand)
    then show ?thesis
      by (simp add: gateway_for_frame[OF m] Some split_beta effect_del_or_warn[OF assms])
  qed
qed

lemma aligned_split: "b \<in> set split_blocks \<Longrightarrow> aligned b"
proof -
  have "list_all aligned split_blocks" by code_simp
  then show "b \<in> set split_blocks \<Longrightarrow> aligned b" by (simp add: list_all_iff)
qed

lemma effect_split_v4:
  assumes "netlink_ok nl fib"
  shows "fib_effect fib rm (io_for V4_SPLIT (\<lambda>(d, p). add_via_tun nl (V4 d) p))
    (fold fib_add (map (\<lambda>(d, p). Route (V4 d) p None (rm_tun_index rm)) V4_SPLIT))"
  unfolding fold_map
  by (rule effect_for)
    (auto intro!: effect_add_via_tun[OF assms] aligned_split simp: split_blocks_def image_iff Bex_def)

lemma effect_split_v6:
  assumes "netlink_ok nl fib"
  shows "fib_effect fib rm (io_for V6_SPLIT (\<lambda>(d, p). add_via_tun nl (V6 d) p))
    (fold fib_add (map (\<lambda>(d, p). Route (V6 d) p None (rm_tun_index rm)) V6_SPLIT))"
  unfolding fold_map
  by (rule effect_for)
    (auto intro!: effect_add_via_tun[OF assms] aligned_split simp: split_blocks_def image_iff Bex_def)

lemma read_gateways_ok:
  assumes "read_gateways nl w = (Inr (), t)"
  shows "\<exists>g4 g6. rw_self t = (rw_self w)\<lparr>rm_v4_gateway := g4, rm_v6_gateway := g6\<rparr> \<and>
    rw_kernel t = rw_kernel w \<and> rw_fs t = rw_fs w"
proof -
  obtain g4 g6 where
    "read_v4_gateway (nl_routes_v4 nl (rw_kernel w)) = Inr g4"
    "read_v6_gateway (nl_routes_v6 nl (rw_kernel w)) = Inr g6"
    using assms by (auto simp: read_gateways_def io_simps rt_self_def split: sum.splits)
  then show ?thesis using assms
    by (intro exI[of _ g4] exI[of _ g6], cases g4; cases g6)
      (auto simp: read_gateways_def io_simps rt_self_def rt_log_def)
qed

lemma pin_proxy_gateway:
  "pin_proxy nl w = (Inr u, t) \<Longrightarrow> gateway_for (rw_self w) (rm_proxy_ip (rw_self w)) \<noteq> None"
  by (cases "gateway_for (rw_self w) (rm_proxy_ip (rw_self w))") (simp_all add: pin_proxy_def io_simps)

text \<open>Everything \<^verbatim>\<open>apply\<close> does once the gateways are known.\<close>

lemma effect_capture_v6:
  assumes "netlink_ok nl fib" and "gateway_for rm (rm_proxy_ip rm) \<noteq> None"
  shows "fib_effect fib rm
     (if rm_capture_ipv6 rm then
        if rm_v6_gateway rm \<noteq> None \<or> \<not> is_ipv4 (rm_proxy_ip rm) then
          io_bind (io_for V6_SPLIT (\<lambda>(dst, p). add_via_tun nl (V6 dst) p)) (\<lambda>_. rt_log h)
        else rt_log h'
      else io_return ())
     (fold fib_add (if rm_capture_ipv6 rm \<and> rm_v6_gateway rm \<noteq> None
        then map (\<lambda>(d, p). Route (V6 d) p None (rm_tun_index rm)) V6_SPLIT else []))"
proof -
  have "rm_v6_gateway rm \<noteq> None" if "\<not> is_ipv4 (rm_proxy_ip rm)"
    using that assms(2) by (cases "rm_proxy_ip rm") (auto simp: gateway_for_def)
  then show ?thesis
    using effect_then_log[OF effect_split_v6[OF assms(1)]] by (auto simp: effect_log effect_return)
qed

lemma effect_set_applied: "fib_effect fib rm (rt_self (\<lambda>m. m\<lparr>rm_applied := b\<rparr>)) id"
  by (intro fib_effectI) (auto simp: rt_self_def io_simps)

lemma fold_gateway_routes:
  "fold fib_add (gateway_routes rm) = fold (put_block rm) (rm_bypass rm) \<circ> put_block rm (pinned rm)"
  unfolding gateway_routes_def fold_put_block[symmetric] by (simp add: fun_eq_iff)

lemma effect_install:
  assumes ok: "netlink_ok nl fib" and al: "list_all aligned (rm_bypass rm)"
    and gw: "gateway_for rm (rm_proxy_ip rm) \<noteq> None"
  shows "fib_effect fib rm (install_routes nl) (fold fib_add (managed rm))"
proof -
  have bypass: "fib_effect fib rm (io_for (rm_bypass rm) (add_bypass nl)) (fold (put_block rm) (rm_bypass rm))"
    using al by (intro effect_for effect_add_bypass ok) (simp add: list_all_iff)
  have total: "fold fib_add (managed rm) =
      id \<circ> id \<circ> fold fib_add (if rm_capture_ipv6 rm \<and> rm_v6_gateway rm \<noteq> None
        then map (\<lambda>(d, p). Route (V6 d) p None (rm_tun_index rm)) V6_SPLIT else []) \<circ> id \<circ>
      fold fib_add (map (\<lambda>(d, p). Route (V4 d) p None (rm_tun_index rm)) V4_SPLIT) \<circ>
      fold (put_block rm) (rm_bypass rm) \<circ> put_block rm (pinned rm)"
    by (simp only: managed_def split_routes_def fold_append fold_gateway_routes comp_assoc id_comp comp_id)
  show ?thesis unfolding total install_routes_def
    apply (rule effect_bind[OF effect_pin_proxy[OF ok]], rule effect_self)
    subgoal premises prems for u m
      unfolding frame_eqD[OF prems]
      by (intro effect_bind bypass effect_split_v4 ok effect_log effect_capture_v6 gw effect_dns
          effect_set_applied)
    done
qed

lemma apply_ensures: "ensures (\<lambda>t. rm_applied (rw_self t)) (RouteManager_apply nl)"
  unfolding RouteManager_apply_def install_routes_def
  by (intro ensures_bind) (auto simp: ensures_def rt_self_def io_simps)

lemma managed_frame: "frame m = frame n \<Longrightarrow> managed m = managed n"
  using frame_eqD[of m n] gateway_for_frame[of m n]
  by (simp only: managed_def gateway_routes_def split_routes_def pinned_def via_gateway_def)

lemma apply_effect:
  assumes ok: "netlink_ok nl fib" and al: "list_all aligned (rm_bypass (rw_self w))"
    and run: "RouteManager_apply nl w = (Inr (), t)"
  shows "fib (rw_kernel t) = fold fib_add (managed (rw_self t)) (fib (rw_kernel w))"
    and "gateway_for (rw_self t) (rm_proxy_ip (rw_self t)) \<noteq> None"
    and "rm_proxy_ip (rw_self t) = rm_proxy_ip (rw_self w)"
    and "rm_tun_index (rw_self t) = rm_tun_index (rw_self w)"
    and "rm_bypass (rw_self t) = rm_bypass (rw_self w)"
    and "rm_applied (rw_self t)"
proof -
  obtain u w1 where "read_gateways nl w = (Inr u, w1)"
    using run unfolding RouteManager_apply_def by (rule io_bind_okE)
  then have read: "read_gateways nl w = (Inr (), w1)" by simp
  obtain g4 g6 where w1: "rw_self w1 = (rw_self w)\<lparr>rm_v4_gateway := g4, rm_v6_gateway := g6\<rparr>"
      "rw_kernel w1 = rw_kernel w"
    using read_gateways_ok[OF read] by blast
  have rest: "install_routes nl w1 = (Inr (), t)"
    using run by (simp add: RouteManager_apply_def io_bind_ok[where m = "read_gateways nl", OF read])
  obtain x w2 where "pin_proxy nl w1 = (Inr x, w2)"
    using rest unfolding install_routes_def by (rule io_bind_okE)
  then have gw: "gateway_for (rw_self w1) (rm_proxy_ip (rw_self w1)) \<noteq> None"
    by (rule pin_proxy_gateway)
  have al1: "list_all aligned (rm_bypass (rw_self w1))" using al w1 by simp
  note eff = fib_effectD[OF effect_install[OF ok al1 gw] refl rest]
  note eqs = frame_eqD[OF eff(2)]
  have m: "managed (rw_self t) = managed (rw_self w1)"
    by (rule managed_frame[OF eff(2)])
  show "fib (rw_kernel t) = fold fib_add (managed (rw_self t)) (fib (rw_kernel w))"
    using eff(1) m w1 by simp
  show "gateway_for (rw_self t) (rm_proxy_ip (rw_self t)) \<noteq> None"
    using gw gateway_for_frame[OF eff(2)] eqs by simp
  show "rm_proxy_ip (rw_self t) = rm_proxy_ip (rw_self w)"
    "rm_tun_index (rw_self t) = rm_tun_index (rw_self w)"
    "rm_bypass (rw_self t) = rm_bypass (rw_self w)"
    using eqs w1 by simp_all
  show "rm_applied (rw_self t)"
    by (rule ensuresD[OF apply_ensures run])
qed

subsection \<open>Teardown\<close>

lemma restore_infallible [io_total]: "infallible ResolvConf_restore"
  unfolding ResolvConf_restore_def set_current_def by (intro io_total)

lemma del_infallible [io_total]:
  "infallible (del_or_warn nl label dst p oif gw)"
  "infallible (del_via_gateway nl label dst p)"
  unfolding del_via_gateway_def del_or_warn_def rt_log_def by (intro io_total)+

text \<open>Teardown reports nothing: a failed step is a warning in the log.\<close>

lemma teardown_infallible: "infallible (RouteManager_teardown nl)"
  unfolding RouteManager_teardown_def teardown_steps_def rt_self_def rt_log_def on_dns_def split_def
  by (intro io_total)

lemma fold_fib_del:
  "fold (\<lambda>(d, p). fib_del (ver d) p oif None) xs fib =
     {r \<in> fib. \<not> (r_oif r = oif \<and> slot r \<in> (\<lambda>(d, p). (ver d, p)) ` set xs)}"
  by (induction xs arbitrary: fib) (auto simp: fib_del_def slot_def split_beta)

definition tun_blocks :: "RouteManager \<Rightarrow> (IpAddr \<times> u8) set" where
  "tun_blocks rm = (\<lambda>(d, p). (V4 d, p)) ` set V4_SPLIT \<union>
     (if rm_capture_ipv6 rm then (\<lambda>(d, p). (V6 d, p)) ` set V6_SPLIT else {})"

lemma tun_blocks_split: "tun_blocks rm \<subseteq> set split_blocks"
  by (auto simp: tun_blocks_def split_blocks_def)

lemma effect_teardown:
  assumes ok: "netlink_ok nl fib" and "rm_applied rm"
  shows "\<And>w x t. rw_self w = rm \<Longrightarrow> RouteManager_teardown nl w = (Inr x, t) \<Longrightarrow>
    fib (rw_kernel t) = {r \<in> fib (rw_kernel w). r \<notin> set (gateway_routes rm) \<and>
      \<not> (r_oif r = rm_tun_index rm \<and> slot r \<in> tun_blocks rm)}"
proof -
  fix w x t assume w: "rw_self w = rm" and run: "RouteManager_teardown nl w = (Inr x, t)"
  let ?V4 = "fold (\<lambda>(d, p). fib_del (V4 d) p (rm_tun_index rm) None) V4_SPLIT"
  let ?V6 = "if rm_capture_ipv6 rm then fold (\<lambda>(d, p). fib_del (V6 d) p (rm_tun_index rm) None) V6_SPLIT else id"
  have "fib_effect fib rm
      (io_bind (rt_self (\<lambda>m. m\<lparr>rm_applied := False\<rparr>)) (\<lambda>_. teardown_steps nl rm))
      (id \<circ> id \<circ> ?V6 \<circ> ?V4 \<circ> fold (drop_block rm) (rm_bypass rm) \<circ>
        drop_block rm (pinned rm) \<circ> id)"
    unfolding teardown_steps_def
  proof (intro effect_bind effect_set_applied effect_log effect_dns)
    show "fib_effect fib rm (del_via_gateway nl ''teardown: '' (rm_proxy_ip rm) (host_prefix (rm_proxy_ip rm)))
        (drop_block rm (pinned rm))"
      by (simp add: pinned_def effect_del_via_gateway[OF ok])
    show "fib_effect fib rm (io_for (rm_bypass rm) (\<lambda>(dst, p). del_via_gateway nl ''teardown: '' dst p))
        (fold (drop_block rm) (rm_bypass rm))"
      by (rule effect_for) (auto simp: effect_del_via_gateway[OF ok])
    show "fib_effect fib rm (io_for V4_SPLIT (\<lambda>(dst, p).
        del_or_warn nl ''teardown: '' (V4 dst) p (rm_tun_index rm) None)) ?V4"
      by (rule effect_for) (auto simp: effect_del_or_warn[OF ok])
    show "fib_effect fib rm (if rm_capture_ipv6 rm then io_for V6_SPLIT (\<lambda>(dst, p).
        del_or_warn nl ''teardown: '' (V6 dst) p (rm_tun_index rm) None) else io_return ()) ?V6"
      by (auto intro!: effect_for simp: effect_del_or_warn[OF ok] effect_return)
  qed
  from fib_effectD(1)[OF this, of w] w run assms(2)
  have eff: "fib (rw_kernel t) = ?V6 (?V4 (fold (drop_block rm) (pinned rm # rm_bypass rm) (fib (rw_kernel w))))"
    by (simp add: RouteManager_teardown_def io_simps)
  show "fib (rw_kernel t) = {r \<in> fib (rw_kernel w). r \<notin> set (gateway_routes rm) \<and>
      \<not> (r_oif r = rm_tun_index rm \<and> slot r \<in> tun_blocks rm)}"
    unfolding eff fold_drop_block gateway_routes_def[symmetric]
    by (auto simp: fold_fib_del[where ver = V4] fold_fib_del[where ver = V6] tun_blocks_def)
qed

subsection \<open>Reload\<close>

lemma gateway_for_update [simp]:
  "gateway_for (m\<lparr>rm_proxy_ip := a\<rparr>) = gateway_for m"
  "gateway_for (m\<lparr>rm_bypass := b\<rparr>) = gateway_for m"
  "gateway_for (m\<lparr>rm_dns_server := d\<rparr>) = gateway_for m"
  "gateway_for (m\<lparr>rm_applied := e\<rparr>) = gateway_for m"
  by (simp_all add: gateway_for_def fun_eq_iff split: IpAddr.splits)

lemma blocks_gateway:
  "gateway_for m = gateway_for n \<Longrightarrow> put_block m = put_block n \<and> drop_block m = drop_block n"
  by (simp add: put_block_def drop_block_def via_gateway_def fun_eq_iff)

lemma move_proxy_ok:
  assumes ok: "netlink_ok nl fib" and run: "move_proxy nl old_ip new_ip w = (Inr x, t)"
  shows "fib (rw_kernel t) = put_block (rw_self w) (new_ip, host_prefix new_ip)
      (drop_block (rw_self w) (old_ip, host_prefix old_ip) (fib (rw_kernel w)))"
    and "frame (rw_self t) = frame ((rw_self w)\<lparr>rm_proxy_ip := new_ip\<rparr>)"
    and "gateway_for (rw_self w) new_ip \<noteq> None"
proof -
  let ?rm = "rw_self w"
  obtain u w1 where del: "del_via_gateway nl ''reload: removing old proxy route: '' old_ip (host_prefix old_ip) w = (Inr u, w1)"
    and rest: "io_bind (io_gets rw_self) (\<lambda>self.
     io_bind (io_lift (context_opt
         (''no default gateway for new proxy address family ('' @ show_ip new_ip @ '')'')
         (gateway_for self new_ip))) (\<lambda>(gw, oif).
     io_bind (io_context ''failed to install new proxy host route''
       (add_via_gateway nl new_ip (host_prefix new_ip) gw oif)) (\<lambda>_.
     io_bind (rt_self (\<lambda>m. m\<lparr>rm_proxy_ip := new_ip\<rparr>)) (\<lambda>_.
     rt_log (log_info (''proxy host route moved to '' @ show_ip new_ip @ '' via '' @ show_ip gw)))))) w1 = (Inr x, t)"
    using run unfolding move_proxy_def by (rule io_bind_okE)
  note d = fib_effectD[OF effect_del_via_gateway[OF ok] refl del]
  note gwf = gateway_for_frame[OF d(2)]
  obtain gw oif where gw: "gateway_for ?rm new_ip = Some (gw, oif)"
    using rest gwf by (cases "gateway_for ?rm new_ip") (auto simp: io_simps)
  then show "gateway_for ?rm new_ip \<noteq> None" by simp
  obtain v w2 where add: "add_via_gateway nl new_ip (host_prefix new_ip) gw oif w1 = (Inr v, w2)"
    and t: "t = w2\<lparr>rw_self := (rw_self w2)\<lparr>rm_proxy_ip := new_ip\<rparr>, rw_log := rw_log t\<rparr>"
    using rest gw gwf
    by (auto simp: io_simps rt_self_def rt_log_def split: prod.splits sum.splits)
  note a = fib_effectD[OF effect_add_block[OF ok aligned_host gw] d(2) add]
  have "frame ((rw_self w2)\<lparr>rm_proxy_ip := new_ip\<rparr>) = (frame (rw_self w2))\<lparr>rm_proxy_ip := new_ip\<rparr>"
    by (simp add: frame_def)
  also have "\<dots> = frame (?rm\<lparr>rm_proxy_ip := new_ip\<rparr>)" unfolding a(2) by (simp add: frame_def)
  finally show "frame (rw_self t) = frame (?rm\<lparr>rm_proxy_ip := new_ip\<rparr>)"
    by (subst t) simp
  show "fib (rw_kernel t) = put_block ?rm (new_ip, host_prefix new_ip)
      (drop_block ?rm (old_ip, host_prefix old_ip) (fib (rw_kernel w)))"
    using a(1) d(1) by (subst t) simp
qed

text \<open>\<open>fib_effect\<close> for computations that also change the manager's settings.\<close>

definition fib_step :: "('k \<Rightarrow> route set) \<Rightarrow> RouteManager \<Rightarrow> ('k rt_world, 'a) io \<Rightarrow>
    (route set \<Rightarrow> route set) \<Rightarrow> RouteManager \<Rightarrow> bool" where
  "fib_step fib rm m g rm' \<longleftrightarrow>
     (\<forall>w x t. frame (rw_self w) = frame rm \<longrightarrow> m w = (Inr x, t) \<longrightarrow>
        fib (rw_kernel t) = g (fib (rw_kernel w)) \<and> frame (rw_self t) = frame rm')"

lemma fib_stepD:
  assumes "fib_step fib rm m g rm'" and "frame (rw_self w) = frame rm" and "m w = (Inr x, t)"
  shows "fib (rw_kernel t) = g (fib (rw_kernel w))" "frame (rw_self t) = frame rm'"
  using assms unfolding fib_step_def by blast+

lemma step_effect: "fib_effect fib rm m g \<Longrightarrow> fib_step fib rm m g rm"
  unfolding fib_effect_def fib_step_def .

lemma step_bind:
  assumes "fib_step fib rm m g rm1" and "\<And>x. fib_step fib rm1 (f x) h rm2"
  shows "fib_step fib rm (io_bind m f) (h \<circ> g) rm2"
  unfolding fib_step_def
proof (intro allI impI)
  fix w y t assume w: "frame (rw_self w) = frame rm" and run: "io_bind m f w = (Inr y, t)"
  obtain x s where m: "m w = (Inr x, s)" and f: "f x s = (Inr y, t)" using run by (rule io_bind_okE)
  note first = fib_stepD[OF assms(1) w m]
  show "fib (rw_kernel t) = (h \<circ> g) (fib (rw_kernel w)) \<and> frame (rw_self t) = frame rm2"
    using first fib_stepD[OF assms(2) first(2) f] by (simp only: comp_apply simp_thms)
qed

lemma step_set:
  assumes "\<And>m. frame m = frame rm \<Longrightarrow> frame (u m) = frame (u rm)"
  shows "fib_step fib rm (rt_self u) id (u rm)"
  unfolding fib_step_def
proof (intro allI impI)
  fix w :: "'a rt_world" and x t
  assume w: "frame (rw_self w) = frame rm" and "rt_self u w = (Inr x, t)"
  then have "t = w\<lparr>rw_self := u (rw_self w)\<rparr>" by (simp add: rt_self_def io_simps)
  then show "fib (rw_kernel t) = id (fib (rw_kernel w)) \<and> frame (rw_self t) = frame (u rm)"
    using assms[OF w] by simp
qed

lemma frame_update:
  "frame m = frame n \<Longrightarrow> frame (m\<lparr>rm_bypass := b\<rparr>) = frame (n\<lparr>rm_bypass := b\<rparr>)"
  "frame m = frame n \<Longrightarrow> frame (m\<lparr>rm_dns_server := d\<rparr>) = frame (n\<lparr>rm_dns_server := d\<rparr>)"
  "frame m = frame n \<Longrightarrow> frame (m\<lparr>rm_proxy_ip := a\<rparr>) = frame (n\<lparr>rm_proxy_ip := a\<rparr>)"
proof -
  have push: "frame (m\<lparr>rm_bypass := b\<rparr>) = (frame m)\<lparr>rm_bypass := b\<rparr>"
    "frame (m\<lparr>rm_dns_server := d\<rparr>) = (frame m)\<lparr>rm_dns_server := d\<rparr>"
    "frame (m\<lparr>rm_proxy_ip := a\<rparr>) = (frame m)\<lparr>rm_proxy_ip := a\<rparr>" for m
    by (simp_all add: frame_def)
  show "frame m = frame n \<Longrightarrow> frame (m\<lparr>rm_bypass := b\<rparr>) = frame (n\<lparr>rm_bypass := b\<rparr>)"
    "frame m = frame n \<Longrightarrow> frame (m\<lparr>rm_dns_server := d\<rparr>) = frame (n\<lparr>rm_dns_server := d\<rparr>)"
    "frame m = frame n \<Longrightarrow> frame (m\<lparr>rm_proxy_ip := a\<rparr>) = frame (n\<lparr>rm_proxy_ip := a\<rparr>)"
    by (simp_all only: push)
qed

lemma step_move_proxy:
  assumes "netlink_ok nl fib"
  shows "fib_step fib rm (move_proxy nl old_ip new_ip)
    (put_block rm (new_ip, host_prefix new_ip) \<circ> drop_block rm (old_ip, host_prefix old_ip))
    (rm\<lparr>rm_proxy_ip := new_ip\<rparr>)"
  unfolding fib_step_def
proof (intro allI impI)
  fix w :: "'a rt_world" and x t
  assume w: "frame (rw_self w) = frame rm" and run: "move_proxy nl old_ip new_ip w = (Inr x, t)"
  note ok = move_proxy_ok[OF assms run]
  have "put_block (rw_self w) = put_block rm" "drop_block (rw_self w) = drop_block rm"
    using blocks_gateway[OF gateway_for_frame[OF w]] by simp_all
  then show "fib (rw_kernel t) = (put_block rm (new_ip, host_prefix new_ip) \<circ>
        drop_block rm (old_ip, host_prefix old_ip)) (fib (rw_kernel w)) \<and>
      frame (rw_self t) = frame (rm\<lparr>rm_proxy_ip := new_ip\<rparr>)"
    using ok(1,2) frame_update(3)[OF w, of new_ip] by simp
qed

definition moved_ip :: "RouteManager \<Rightarrow> ReloadPlan \<Rightarrow> IpAddr" where
  "moved_ip rm plan = (case pl_proxy_route_change plan of None \<Rightarrow> rm_proxy_ip rm | Some (_, n) \<Rightarrow> n)"

definition reloaded :: "RouteManager \<Rightarrow> ReloadPlan \<Rightarrow> RouteManager" where
  "reloaded rm plan = rm\<lparr>rm_proxy_ip := moved_ip rm plan, rm_bypass := pl_new_bypass plan,
     rm_dns_server := (if pl_dns_changed plan then pl_dns plan else rm_dns_server rm)\<rparr>"

definition moved_fib :: "RouteManager \<Rightarrow> ReloadPlan \<Rightarrow> route set \<Rightarrow> route set" where
  "moved_fib rm plan = (case pl_proxy_route_change plan of
      None \<Rightarrow> id
    | Some (o', n) \<Rightarrow> put_block rm (n, host_prefix n) \<circ> drop_block rm (o', host_prefix o'))"

lemma step_reload:
  assumes ok: "netlink_ok nl fib" and al: "list_all aligned (pl_bypass_add plan)"
  shows "fib_step fib rm (reload_steps nl plan)
     (fold (put_block rm) (pl_bypass_add plan) \<circ> fold (drop_block rm) (pl_bypass_remove plan) \<circ>
        moved_fib rm plan) (reloaded rm plan)"
proof -
  let ?rm1 = "rm\<lparr>rm_proxy_ip := moved_ip rm plan\<rparr>"
  let ?rm2 = "?rm1\<lparr>rm_bypass := pl_new_bypass plan\<rparr>"
  have eqs: "put_block ?rm1 = put_block rm" "drop_block ?rm1 = drop_block rm"
    using blocks_gateway[of ?rm1 rm] by simp_all
  have move: "fib_step fib rm (case pl_proxy_route_change plan of
      Some (old_ip, new_ip) \<Rightarrow> move_proxy nl old_ip new_ip | None \<Rightarrow> io_return ()) (moved_fib rm plan) ?rm1"
  proof (cases "pl_proxy_route_change plan")
    case None
    then show ?thesis using step_effect[OF effect_return, of fib rm "()"]
      by (simp add: moved_fib_def moved_ip_def)
  next
    case (Some c)
    then show ?thesis using step_move_proxy[OF ok, of rm "fst c" "snd c"]
      by (simp add: moved_fib_def moved_ip_def split_beta)
  qed
  have del: "fib_step fib ?rm1 (io_for (pl_bypass_remove plan) (\<lambda>(dst, p).
      del_via_gateway nl (''reload: removing bypass '' @ slash_show dst p @ '': '') dst p))
      (fold (drop_block rm) (pl_bypass_remove plan)) ?rm1"
    unfolding eqs[symmetric]
    by (intro step_effect effect_for) (clarsimp, rule effect_del_via_gateway[OF ok])
  have add: "fib_step fib ?rm1 (io_for (pl_bypass_add plan) (reload_add_bypass nl))
      (fold (put_block rm) (pl_bypass_add plan)) ?rm1"
    unfolding eqs[symmetric] using al
    by (intro step_effect effect_for effect_add_bypass(2)[OF ok]) (simp add: list_all_iff)
  have "fib_step fib ?rm2 (if pl_dns_changed plan then
         io_bind (on_dns (ResolvConf_reload (pl_dns plan))) (\<lambda>_.
         rt_self (\<lambda>m. m\<lparr>rm_dns_server := pl_dns plan\<rparr>))
       else io_return ()) id (reloaded rm plan)"
  proof (cases "pl_dns_changed plan")
    case True
    have "fib_step fib ?rm2 (io_bind (on_dns (ResolvConf_reload (pl_dns plan))) (\<lambda>_.
        rt_self (\<lambda>m. m\<lparr>rm_dns_server := pl_dns plan\<rparr>))) (id \<circ> id) (?rm2\<lparr>rm_dns_server := pl_dns plan\<rparr>)"
      by (rule step_bind[OF step_effect[OF effect_dns]], rule step_set, rule frame_update)
    then show ?thesis using True by (simp add: reloaded_def)
  next
    case False
    then show ?thesis using step_effect[OF effect_return, of fib ?rm2 "()"] by (simp add: reloaded_def)
  qed
  note dns = this
  have set: "fib_step fib ?rm1 (rt_self (\<lambda>m. m\<lparr>rm_bypass := pl_new_bypass plan\<rparr>)) id ?rm2"
    by (rule step_set) (rule frame_update)
  show ?thesis unfolding reload_steps_def
    using step_bind[OF move step_bind[OF del step_bind[OF add step_bind[OF set dns]]]]
    by (simp only: comp_assoc id_comp comp_id)
qed

end
