(* ===== verification/Linux_Session.thy ===== *)
theory Linux_Session
  imports Linux_Fib
begin

text \<open>
  Sessions of the route manager: which routes are installed, that a session leaves the table as it
  was, where packets go in between and that this agrees with the relay's route table, the cases in
  which the table ends up different, and the contract \<open>route_controller\<close>.
\<close>

section \<open>Sessions\<close>

text \<open>
  \<open>within base rm fib\<close>: besides the routes that were there before, the table holds at most the
  manager's own. \<open>base\<close> and the manager's blocks do not overlap (\<open>free_of\<close>).
\<close>

definition within :: "route set \<Rightarrow> RouteManager \<Rightarrow> route set \<Rightarrow> bool" where
  "within base rm fib \<longleftrightarrow> base \<subseteq> fib \<and> fib \<subseteq> base \<union> set (managed rm)"

definition free_of :: "route set \<Rightarrow> (IpAddr \<times> u8) set \<Rightarrow> bool" where
  "free_of base blocks \<longleftrightarrow> (\<forall>r \<in> base. slot r \<notin> blocks)"

definition plan_blocks :: "ReloadPlan \<Rightarrow> (IpAddr \<times> u8) set" where
  "plan_blocks plan = set (pl_new_bypass plan) \<union> set (pl_bypass_remove plan) \<union>
     (case pl_proxy_route_change plan of None \<Rightarrow> {}
      | Some (old_ip, new_ip) \<Rightarrow> {(old_ip, host_prefix old_ip), (new_ip, host_prefix new_ip)})"

text \<open>A plan made for a manager with this proxy address and these bypass blocks.\<close>

definition plan_fits :: "IpAddr \<Rightarrow> CidrList \<Rightarrow> ReloadPlan \<Rightarrow> bool" where
  "plan_fits proxy blocks plan \<longleftrightarrow>
     set blocks \<subseteq> set (pl_new_bypass plan) \<union> set (pl_bypass_remove plan) \<and>
     set (pl_bypass_add plan) \<subseteq> set (pl_new_bypass plan) \<and>
     set (pl_new_bypass plan) \<subseteq> set blocks \<union> set (pl_bypass_add plan) \<and>
     list_all aligned (pl_new_bypass plan) \<and>
     (case pl_proxy_route_change plan of None \<Rightarrow> True | Some (old_ip, _) \<Rightarrow> old_ip = proxy)"

fun plans_fit :: "IpAddr \<Rightarrow> CidrList \<Rightarrow> ReloadPlan list \<Rightarrow> bool" where
  "plans_fit proxy blocks [] \<longleftrightarrow> True"
| "plans_fit proxy blocks (plan # plans) \<longleftrightarrow>
     plan_fits proxy blocks plan \<and>
     plans_fit (case pl_proxy_route_change plan of None \<Rightarrow> proxy | Some (_, n) \<Rightarrow> n)
       (pl_new_bypass plan) plans"

lemma reloaded_sel [simp]:
  "gateway_for (reloaded rm plan) = gateway_for rm"
  "rm_bypass (reloaded rm plan) = pl_new_bypass plan"
  "rm_proxy_ip (reloaded rm plan) = moved_ip rm plan"
  "rm_tun_index (reloaded rm plan) = rm_tun_index rm"
  "rm_capture_ipv6 (reloaded rm plan) = rm_capture_ipv6 rm"
  "rm_v6_gateway (reloaded rm plan) = rm_v6_gateway rm"
  "rm_dns_server (reloaded rm plan) = (if pl_dns_changed plan then pl_dns plan else rm_dns_server rm)"
  by (simp_all add: reloaded_def)

lemma reloaded_routes [simp]:
  "via_gateway (reloaded rm plan) = via_gateway rm"
  "split_routes (reloaded rm plan) = split_routes rm"
  by (simp_all only: via_gateway_def split_routes_def reloaded_sel)

abbreviation blocks_routes :: "RouteManager \<Rightarrow> (IpAddr \<times> u8) list \<Rightarrow> route set" where
  "blocks_routes rm bs \<equiv> {r. \<exists>b \<in> set bs. via_gateway rm b = Some r}"

lemma set_managed: "set (managed rm) = blocks_routes rm (pinned rm # rm_bypass rm) \<union> set (split_routes rm)"
  by (auto simp: managed_def gateway_routes_def set_map_filter simp del: map_filter_simps)

lemma put_blocks_bounds:
  "fold (put_block rm) bs fib \<subseteq> fib \<union> blocks_routes rm bs"
  "{r \<in> fib. slot r \<notin> set bs} \<subseteq> fold (put_block rm) bs fib"
proof -
  let ?rs = "List.map_filter (via_gateway rm) bs"
  have slots: "slot ` set ?rs \<subseteq> set bs" by (auto simp: set_map_filter dest: via_gateway_slot)
  show "fold (put_block rm) bs fib \<subseteq> fib \<union> blocks_routes rm bs"
    using fold_fib_add_bounds(1)[of ?rs fib] by (simp add: fold_put_block set_map_filter)
  show "{r \<in> fib. slot r \<notin> set bs} \<subseteq> fold (put_block rm) bs fib"
    using fold_fib_add_bounds(2)[of fib ?rs] slots by (fastforce simp: fold_put_block)
qed

text \<open>Blocks put by a manager replace each other only by the same route.\<close>

lemma put_blocks_has:
  assumes "r \<in> blocks_routes rm bs \<or> r \<in> fib \<and> (slot r \<in> set bs \<longrightarrow> via_gateway rm (slot r) = Some r)"
  shows "r \<in> fold (put_block rm) bs fib"
proof -
  let ?rs = "List.map_filter (via_gateway rm) bs"
  have inj: "inj_on slot (set ?rs)"
    by (auto simp: inj_on_def set_map_filter) (metis option.inject via_gateway_slot)
  show ?thesis
    using assms fold_fib_add_inj[OF inj, of fib] via_gateway_slot
    by (fastforce simp: fold_put_block set_map_filter)
qed

lemma drop_blocks_eq: "fold (drop_block rm) bs fib = fib - blocks_routes rm bs"
  by (simp add: fold_drop_block set_map_filter)

lemma moved_fib_eq:
  "moved_fib rm plan fib = (case pl_proxy_route_change plan of
     None \<Rightarrow> fib
   | Some (old_ip, new_ip) \<Rightarrow> fold (put_block rm) [(new_ip, host_prefix new_ip)]
       (fold (drop_block rm) [(old_ip, host_prefix old_ip)] fib))"
  by (simp add: moved_fib_def split: option.splits)

lemma pinned_reloaded:
  "pinned (reloaded rm plan) = (case pl_proxy_route_change plan of
     None \<Rightarrow> pinned rm | Some (_, n) \<Rightarrow> (n, host_prefix n))"
  by (auto simp: pinned_def moved_ip_def split: option.splits)

lemma via_gateway_not_split: "via_gateway rm b = Some r \<Longrightarrow> r \<notin> set (split_routes rm)"
proof -
  assume "via_gateway rm b = Some r"
  then have "r_gateway r \<noteq> None" by (auto simp: via_gateway_def split: prod.splits)
  moreover have "r_gateway r' = None" if "r' \<in> set (split_routes rm)" for r'
    using that by (auto simp: split_routes_def split: if_splits)
  ultimately show ?thesis by metis
qed

definition reload_fib :: "RouteManager \<Rightarrow> ReloadPlan \<Rightarrow> route set \<Rightarrow> route set" where
  "reload_fib rm plan fib =
     fold (put_block rm) (pl_bypass_add plan) (fold (drop_block rm) (pl_bypass_remove plan) (moved_fib rm plan fib))"

lemma reload_within:
  assumes "within base rm fib" and "plan_fits (rm_proxy_ip rm) (rm_bypass rm) plan"
    and "free_of base (insert (pinned rm) (plan_blocks plan))"
  shows "within base (reloaded rm plan) (reload_fib rm plan fib)"
proof -
  let ?moved = "moved_fib rm plan fib"
  let ?pinned = "pinned (reloaded rm plan)"
  have fits: "set (rm_bypass rm) \<subseteq> set (pl_new_bypass plan) \<union> set (pl_bypass_remove plan)"
    "set (pl_bypass_add plan) \<subseteq> set (pl_new_bypass plan)"
    using assms(2) by (simp_all add: plan_fits_def)
  have up_moved: "?moved \<subseteq> base \<union> blocks_routes rm (?pinned # rm_bypass rm) \<union> set (split_routes rm)"
  proof (cases "pl_proxy_route_change plan")
    case None
    then show ?thesis using assms(1) by (auto simp: within_def set_managed moved_fib_eq pinned_reloaded)
  next
    case (Some c)
    then have "pinned rm = (fst c, host_prefix (fst c))"
      using assms(2) by (auto simp: plan_fits_def pinned_def split: prod.splits)
    then show ?thesis
      using assms(1) Some put_blocks_bounds(1)[of rm "[(snd c, host_prefix (snd c))]"
          "fold (drop_block rm) [(fst c, host_prefix (fst c))] fib"]
      unfolding moved_fib_eq drop_blocks_eq by (auto simp: within_def set_managed pinned_reloaded split_beta)
  qed
  have low_moved: "base \<subseteq> ?moved"
  proof (cases "pl_proxy_route_change plan")
    case None
    then show ?thesis using assms(1) by (simp add: within_def moved_fib_eq)
  next
    case (Some c)
    have "slot r \<notin> {(snd c, host_prefix (snd c)), (fst c, host_prefix (fst c))}" if "r \<in> base" for r
      using assms(3) Some that by (auto simp: free_of_def plan_blocks_def split: prod.splits)
    then show ?thesis
      using assms(1) Some put_blocks_bounds(2)[of "fold (drop_block rm) [(fst c, host_prefix (fst c))] fib"
          "[(snd c, host_prefix (snd c))]" rm] via_gateway_slot
      unfolding moved_fib_eq drop_blocks_eq by (fastforce simp: within_def split_beta)
  qed
  have "reload_fib rm plan fib \<subseteq> base \<union> set (managed (reloaded rm plan))"
    using up_moved fits put_blocks_bounds(1)[of rm "pl_bypass_add plan"
        "fold (drop_block rm) (pl_bypass_remove plan) ?moved"]
    unfolding reload_fib_def drop_blocks_eq set_managed reloaded_routes reloaded_sel
    by (auto 0 4)
  moreover have "base \<subseteq> reload_fib rm plan fib"
  proof
    fix r assume r: "r \<in> base"
    then have "slot r \<notin> set (pl_bypass_add plan)" "slot r \<notin> set (pl_bypass_remove plan)"
      using assms(3) fits(2) by (auto simp: free_of_def plan_blocks_def)
    then show "r \<in> reload_fib rm plan fib"
      using r low_moved put_blocks_bounds(2)[of "fold (drop_block rm) (pl_bypass_remove plan) ?moved"
          "pl_bypass_add plan" rm] via_gateway_slot
      unfolding reload_fib_def drop_blocks_eq by fastforce
  qed
  ultimately show ?thesis by (simp add: within_def)
qed

subsection \<open>The applied flag\<close>

definition applied_is :: "bool \<Rightarrow> 'k rt_world \<Rightarrow> bool" where
  "applied_is b w \<longleftrightarrow> rm_applied (rw_self w) = b"

lemma applied_steps [io_keep]:
  "keeps (applied_is b) (on_kernel m)"
  "keeps (applied_is b) (rt_log h)"
  "keeps (applied_is b) (on_dns d)"
  "keeps (applied_is b) (rt_self (\<lambda>m. m\<lparr>rm_bypass := bs\<rparr>))"
  "keeps (applied_is b) (rt_self (\<lambda>m. m\<lparr>rm_proxy_ip := ip\<rparr>))"
  "keeps (applied_is b) (rt_self (\<lambda>m. m\<lparr>rm_dns_server := srv\<rparr>))"
  unfolding on_kernel_def rt_log_def on_dns_def rt_self_def
  by (intro io_keep; simp add: applied_is_def)+

lemma applied_requests [io_keep]:
  "keeps (applied_is b) (add_via_gateway nl dst p gw oif)"
  "keeps (applied_is b) (del_via_gateway nl label dst p)"
  "keeps (applied_is b) (reload_add_bypass nl blk)"
  "keeps (applied_is b) (move_proxy nl old_ip new_ip)"
proof -
  show add: "keeps (applied_is b) (add_via_gateway nl dst p gw oif)" for dst p gw oif
    by (cases dst; cases gw) (auto simp: add_via_gateway_def intro!: io_keep)
  show del: "keeps (applied_is b) (del_via_gateway nl label dst p)" for label dst p
    unfolding del_via_gateway_def del_or_warn_def del_route_def by (intro io_keep)
  show "keeps (applied_is b) (reload_add_bypass nl blk)"
    unfolding reload_add_bypass_def by (intro io_keep add)
  show "keeps (applied_is b) (move_proxy nl old_ip new_ip)"
    unfolding move_proxy_def by (intro io_keep add del)
qed

lemma reload_keeps_applied: "keeps (applied_is b) (RouteManager_reload nl plan)"
  unfolding RouteManager_reload_def reload_steps_def by (intro io_keep)

lemma reload_run:
  assumes "netlink_ok nl fib" and "list_all aligned (pl_bypass_add plan)"
    and "rm_applied (rw_self w)" and run: "RouteManager_reload nl plan w = (Inr x, t)"
  shows "fib (rw_kernel t) = reload_fib (rw_self w) plan (fib (rw_kernel w))"
    and "frame (rw_self t) = frame (reloaded (rw_self w) plan)"
    and "rm_applied (rw_self t)"
proof -
  have steps: "reload_steps nl plan w = (Inr x, t)"
    using run assms(3) by (simp add: RouteManager_reload_def io_bind_apply io_apply)
  show "fib (rw_kernel t) = reload_fib (rw_self w) plan (fib (rw_kernel w))"
    "frame (rw_self t) = frame (reloaded (rw_self w) plan)"
    using fib_stepD[OF step_reload[OF assms(1,2)] refl steps] by (simp_all only: reload_fib_def comp_apply)
  show "rm_applied (rw_self t)"
    using keepsD[where I = "applied_is True", OF reload_keeps_applied _ run] assms(3)
    unfolding applied_is_def by blast
qed

lemma within_frame: "frame m = frame n \<Longrightarrow> within base m fib = within base n fib"
  using managed_frame[of m n] by (simp add: within_def)

lemma pinned_frame: "frame m = frame n \<Longrightarrow> pinned m = pinned n"
  using frame_eqD(1)[of m n] by (simp add: pinned_def)

subsection \<open>Apply, reloads, teardown\<close>

lemma apply_within:
  assumes "netlink_ok nl fib" and "list_all aligned (rm_bypass (rw_self w))"
    and "RouteManager_apply nl w = (Inr (), t)"
    and "free_of (fib (rw_kernel w)) (insert (pinned (rw_self w)) (set (rm_bypass (rw_self w)) \<union> set split_blocks))"
  shows "within (fib (rw_kernel w)) (rw_self t) (fib (rw_kernel t))"
proof -
  note eff = apply_effect[OF assms(1-3)]
  have pin: "pinned (rw_self t) = pinned (rw_self w)" by (simp add: pinned_def eff(3))
  have "slot ` set (managed (rw_self t)) \<subseteq>
      insert (pinned (rw_self w)) (set (rm_bypass (rw_self w)) \<union> set split_blocks)"
    using split_slots[of "rw_self t"] eff(5) pin
    unfolding managed_def set_append image_Un by (auto dest!: gateway_slots)
  then show ?thesis
    using assms(4) fold_fib_add_bounds(1)[of "managed (rw_self t)" "fib (rw_kernel w)"]
      fold_fib_add_bounds(2)[of "fib (rw_kernel w)" "managed (rw_self t)"]
    unfolding eff(1) within_def free_of_def by blast
qed

lemma reloads_within:
  assumes ok: "netlink_ok nl fib"
  shows "within base (rw_self w) (fib (rw_kernel w)) \<Longrightarrow> rm_applied (rw_self w) \<Longrightarrow>
    plans_fit (rm_proxy_ip (rw_self w)) (rm_bypass (rw_self w)) plans \<Longrightarrow>
    free_of base (insert (pinned (rw_self w)) (\<Union>plan \<in> set plans. plan_blocks plan)) \<Longrightarrow>
    io_for plans (RouteManager_reload nl) w = (Inr (), t) \<Longrightarrow>
    within base (rw_self t) (fib (rw_kernel t)) \<and> rm_applied (rw_self t) \<and>
    pinned (rw_self t) \<in> insert (pinned (rw_self w)) (\<Union>plan \<in> set plans. plan_blocks plan) \<and>
    set (rm_bypass (rw_self t)) \<subseteq> set (rm_bypass (rw_self w)) \<union> (\<Union>plan \<in> set plans. plan_blocks plan)"
proof (induction plans arbitrary: w)
  case Nil
  then show ?case by (simp add: io_simps)
next
  case (Cons plan plans)
  obtain x s where s: "RouteManager_reload nl plan w = (Inr x, s)"
    and rest: "io_for plans (RouteManager_reload nl) s = (Inr (), t)"
    using Cons.prems(5) by (auto elim: io_bind_okE)
  have fits: "plan_fits (rm_proxy_ip (rw_self w)) (rm_bypass (rw_self w)) plan"
    using Cons.prems(3) by simp
  have al: "list_all aligned (pl_bypass_add plan)"
    using fits by (auto simp: plan_fits_def list_all_iff)
  note run = reload_run[OF ok al Cons.prems(2) s]
  note sel = frame_eqD(1,3)[OF run(2)]
  have free: "free_of base (insert (pinned (rw_self w)) (plan_blocks plan))"
    using Cons.prems(4) by (auto simp: free_of_def)
  have "within base (rw_self s) (fib (rw_kernel s))"
    using reload_within[OF Cons.prems(1) fits free] run(1,2) within_frame by metis
  moreover have "pinned (rw_self s) \<in> insert (pinned (rw_self w)) (plan_blocks plan)"
    by (auto simp: pinned_frame[OF run(2)] pinned_reloaded plan_blocks_def split: option.splits)
  moreover have "plans_fit (rm_proxy_ip (rw_self s)) (rm_bypass (rw_self s)) plans"
    using Cons.prems(3) by (simp add: sel moved_ip_def)
  moreover have "free_of base (insert (pinned (rw_self s)) (\<Union>plan \<in> set plans. plan_blocks plan))"
    using calculation(2) Cons.prems(4) by (auto simp: free_of_def)
  moreover have "set (rm_bypass (rw_self s)) \<subseteq> plan_blocks plan"
    by (auto simp: sel plan_blocks_def)
  ultimately show ?case using Cons.IH[OF _ run(3) _ _ rest] by fastforce
qed

lemma teardown_restores_base:
  assumes "netlink_ok nl fib" and "rm_applied (rw_self w)" and "within base (rw_self w) (fib (rw_kernel w))"
    and "free_of base (insert (pinned (rw_self w)) (set (rm_bypass (rw_self w)) \<union> set split_blocks))"
    and "RouteManager_teardown nl w = (Inr (), t)"
  shows "fib (rw_kernel t) = base"
proof -
  let ?rm = "rw_self w"
  have "r_oif r = rm_tun_index ?rm \<and> slot r \<in> tun_blocks ?rm" if "r \<in> set (split_routes ?rm)" for r
    using that by (auto simp: split_routes_def tun_blocks_def slot_def V4_SPLIT_def V6_SPLIT_def split: if_splits)
  moreover have "r \<notin> set (gateway_routes ?rm) \<and> slot r \<notin> tun_blocks ?rm" if "r \<in> base" for r
    using that assms(4) tun_blocks_split[of ?rm] gateway_slots[of r ?rm] by (auto simp: free_of_def)
  ultimately show ?thesis
    using assms(3) effect_teardown[OF assms(1,2) refl assms(5)] by (auto simp: within_def managed_def)
qed


section \<open>A kernel for examples\<close>

text \<open>
  A table kept as a list, with an IPv4 default route by 10.9.9.1 on interface 2 and the tunnel as
  interface 7, that refuses to add the routes in \<open>refused\<close>.
\<close>

definition example_netlink :: "route list \<Rightarrow> route list netlink" where
  "example_netlink refused =
     \<lparr>nl_connect_err = None,
      nl_links_by_name = (\<lambda>_ _. ([7], None)),
      nl_links_by_index = (\<lambda>_ _. ([[Mtu 1500]], None)),
      nl_routes_v4 = (\<lambda>_. ([\<lparr>rmsg_family = Inet, rmsg_prefix = 0,
         rmsg_attributes = [Gateway (V4 0x0a090901), Oif 2]\<rparr>], None)),
      nl_routes_v6 = (\<lambda>_. ([], None)),
      nl_route_add = (\<lambda>r k. if r \<in> set refused then (Inl [''refused''], k)
         else (Inr (), r # filter (\<lambda>r'. slot r' \<noteq> slot r) k)),
      nl_route_del = (\<lambda>msg k. if list_ex (del_matches msg) k
         then (Inr (), filter (\<lambda>r. \<not> del_matches msg r) k) else (Inl [''no such route''], k))\<rparr>"

lemma example_netlink_ok: "netlink_ok (example_netlink refused) set"
  by (auto simp: netlink_ok_def example_netlink_def fib_add_def list_ex_iff)

abbreviation example_manager :: "CidrList \<Rightarrow> RouteManager" where
  "example_manager blocks \<equiv> \<lparr>rm_proxy_ip = V4 0xc0000201, rm_tun_index = 7, rm_dns = ResolvConf_system,
     rm_dns_server = None, rm_bypass = blocks, rm_capture_ipv6 = False,
     rm_v4_gateway = None, rm_v6_gateway = None, rm_applied = False\<rparr>"

abbreviation example_world :: "CidrList \<Rightarrow> route list rt_world" where
  "example_world blocks \<equiv> \<lparr>rw_self = example_manager blocks,
     rw_kernel = [Route (V4 0) 0 (Some (V4 0x0a090901)) 2],
     rw_fs = host_fs [] None, rw_log = Logger_new False\<rparr>"

lemmas example_run = RouteManager_apply_def read_gateways_def install_routes_def pin_proxy_def
  add_bypass_def add_via_gateway_def add_via_tun_def example_netlink_def io_simps rt_self_def rt_log_def
  on_kernel_def on_dns_def gateway_for_def V4_SPLIT_def host_prefix_def slot_def Logger_new_def
  ResolvConf_apply_def

lemma example_apply:
  "\<exists>t. RouteManager_apply (example_netlink []) (example_world [(V4 0xc0a80000, 16)]) = (Inr (), t) \<and>
     rw_self t = (example_manager [(V4 0xc0a80000, 16)])\<lparr>rm_v4_gateway := Some (0x0a090901, 2), rm_applied := True\<rparr> \<and>
     rw_kernel t = [Route (V4 0x80000000) 1 None 7, Route (V4 0) 1 None 7,
       Route (V4 0xc0a80000) 16 (Some (V4 0x0a090901)) 2, Route (V4 0xc0000201) 32 (Some (V4 0x0a090901)) 2,
       Route (V4 0) 0 (Some (V4 0x0a090901)) 2]"
  by (simp add: example_run)

section \<open>What is installed\<close>


lemma example_bypass_ok:
  "list_all aligned [(V4 0xc0a80000, 16)]" "clash_free [(V4 0xc0a80000, 16)]"
proof -
  show "list_all aligned [(V4 0xc0a80000, 16)]" by code_simp
  show "clash_free [(V4 0xc0a80000, 16)]"
    by (simp add: clash_free_def split_blocks_def V4_SPLIT_def V6_SPLIT_def)
qed



section \<open>Where packets go\<close>

definition sane_fib :: "route set \<Rightarrow> bool" where
  "sane_fib fib \<longleftrightarrow> (\<forall>r \<in> fib. r_prefix r \<le> max_prefix (r_dst r))"

lemma host_prefix_max: "host_prefix a = max_prefix a"
  by (cases a) (simp_all add: host_prefix_def)

lemma in_block_host: "in_block (d, host_prefix d) a \<longleftrightarrow> a = d"
  by (cases d; cases a) (auto simp: host_prefix_def same_network_def word_unat_eq_iff)

lemma in_block_family: "in_block (d, p) a \<Longrightarrow> is_ipv4 d = is_ipv4 a"
  by (cases d; cases a) auto

lemma max_prefix_family: "is_ipv4 d = is_ipv4 a \<Longrightarrow> max_prefix d = max_prefix a"
  by (cases d; cases a) auto

lemma in_block_self: "in_block (d, p) d"
  by (cases d) (simp_all add: same_network_def)

text \<open>A host route is the only one with its length that covers its address.\<close>

lemma lpm_host_route:
  assumes "r \<in> fib" and "slot r = (a, host_prefix a)" and "sane_fib fib"
    and "\<And>r'. r' \<in> fib \<Longrightarrow> slot r' = slot r \<Longrightarrow> r' = r"
  shows "lpm fib a r' \<longleftrightarrow> r' = r"
proof -
  have r: "r_dst r = a" "r_prefix r = host_prefix a" using assms(2) by (simp_all add: slot_def)
  have le: "r_prefix r'' \<le> r_prefix r" if "r'' \<in> fib" "covers r'' a" for r''
    using that assms(3) in_block_family[of "r_dst r''" "r_prefix r''" a] max_prefix_family[of "r_dst r''" a] r
    by (auto simp: sane_fib_def covers_def slot_def host_prefix_max)
  have "lpm fib a r" using assms(1) r le in_block_self by (auto simp: lpm_def covers_def slot_def)
  moreover have "r' = r" if l: "lpm fib a r'"
  proof -
    have "r' \<in> fib" "covers r' a" "r_prefix r \<le> r_prefix r'"
      using l assms(1) r in_block_self by (auto simp: lpm_def covers_def slot_def)
    then have "r_prefix r' = host_prefix a" using le r by fastforce
    moreover have fam: "is_ipv4 (r_dst r') = is_ipv4 a"
      using \<open>covers r' a\<close> in_block_family[of "r_dst r'" "r_prefix r'" a] by (auto simp: covers_def slot_def)
    ultimately have "r_prefix r' = host_prefix (r_dst r')"
      using max_prefix_family[OF fam] by (simp add: host_prefix_max)
    then have "a = r_dst r'" using \<open>covers r' a\<close> in_block_host[of "r_dst r'" a] by (simp add: covers_def slot_def)
    then have "slot r' = slot r" using r \<open>r_prefix r' = host_prefix a\<close> by (simp add: slot_def)
    then show ?thesis using assms(4) \<open>r' \<in> fib\<close> by blast
  qed
  ultimately show ?thesis by blast
qed



lemma lpm_exists:
  assumes "s \<in> fib" and "covers s a"
  shows "\<exists>r. lpm fib a r"
proof -
  let ?S = "{r \<in> fib. covers r a}"
  have "r_prefix s \<in> r_prefix ` ?S" using assms by simp
  then have "Max (r_prefix ` ?S) \<in> r_prefix ` ?S" by (intro Max_in) (auto intro: finite_code)
  then obtain r where r: "r \<in> ?S" "r_prefix r = Max (r_prefix ` ?S)" by auto
  have "r_prefix r' \<le> r_prefix r" if "r' \<in> fib" "covers r' a" for r'
    unfolding r(2) using that by (intro Max_ge) auto
  then have "lpm fib a r" using r(1) by (simp add: lpm_def)
  then show ?thesis by blast
qed

lemma halves:
  assumes "bit (h :: 'a::len word) (LENGTH('a) - 1)"
  shows "same_network 1 a (0 :: 'a word) \<or> same_network 1 a h"
proof -
  have "n = LENGTH('a) - 1" if "n < LENGTH('a)" "LENGTH('a) \<le> n + 1" for n
    using that by simp
  then show ?thesis using assms unfolding same_network_bits by (metis bit_0_eq bot_apply bot_bool_def)
qed

lemma split_covers:
  assumes "is_ipv4 a \<or> rm_capture_ipv6 rm \<and> rm_v6_gateway rm \<noteq> None"
  shows "\<exists>s \<in> set (split_routes rm). covers s a"
proof (cases a)
  case (V4 b)
  have "bit (0x80000000 :: u32) 31" by code_simp
  then show ?thesis using halves[of "0x80000000 :: u32" b] V4
    by (auto simp: split_routes_def V4_SPLIT_def covers_def slot_def)
next
  case (V6 b)
  have "bit (0x80000000000000000000000000000000 :: u128) 127" by code_simp
  then show ?thesis using halves[of "0x80000000000000000000000000000000 :: u128" b] V6 assms
    by (auto simp: split_routes_def V6_SPLIT_def covers_def slot_def)
qed

lemma split_prefix: "r \<in> set (split_routes rm) \<Longrightarrow> r_prefix r = 1"
  by (auto simp: split_routes_def V4_SPLIT_def V6_SPLIT_def split: if_splits)

lemma via_gateway_prefix: "via_gateway rm (d, p) = Some r \<Longrightarrow> r_prefix r = p \<and> r_dst r = d"
  by (auto simp: via_gateway_def)

lemma long_blocks_clash_free: "list_all (\<lambda>(_, p). 2 \<le> p) blocks \<Longrightarrow> clash_free blocks"
proof -
  have "snd b = 1" if "b \<in> set split_blocks" for b
    using that by (auto simp: split_blocks_def V4_SPLIT_def V6_SPLIT_def)
  moreover have "\<not> 2 \<le> (1 :: u8)" by (simp add: word_le_nat_alt)
  ultimately show "list_all (\<lambda>(_, p). 2 \<le> p) blocks \<Longrightarrow> clash_free blocks"
    by (fastforce simp: clash_free_def list_all_iff)
qed



section \<open>Reloads keep the routes complete\<close>

text \<open>
  The plan does not take away the proxy's pinned route: its host block is not among the removed
  bypass blocks, and the host block of the address the proxy moves away from is not a bypass block
  that stays.
\<close>

definition plan_keeps_pin :: "RouteManager \<Rightarrow> ReloadPlan \<Rightarrow> bool" where
  "plan_keeps_pin rm plan \<longleftrightarrow>
     pinned (reloaded rm plan) \<notin> set (pl_bypass_remove plan) \<and>
     (case pl_proxy_route_change plan of None \<Rightarrow> True
      | Some (old_ip, new_ip) \<Rightarrow> old_ip \<noteq> new_ip \<and>
          ((old_ip, host_prefix old_ip) \<in> set (pl_new_bypass plan) \<longrightarrow>
           (old_ip, host_prefix old_ip) \<in> set (pl_bypass_add plan)))"

lemma block_route_slot: "via_gateway rm b = Some r \<Longrightarrow> via_gateway rm (slot r) = Some r"
  using via_gateway_slot by fastforce

lemma block_route_unique:
  "via_gateway rm b = Some r \<Longrightarrow> via_gateway rm b' = Some r \<Longrightarrow> b = b'"
  using via_gateway_slot by blast

lemma moved_fib_has:
  assumes "via_gateway rm b = Some r"
    and "b = pinned (reloaded rm plan) \<or>
      (case pl_proxy_route_change plan of None \<Rightarrow> True | Some (old_ip, _) \<Rightarrow> b \<noteq> (old_ip, host_prefix old_ip))"
    and "b = pinned (reloaded rm plan) \<and> pl_proxy_route_change plan \<noteq> None \<or> r \<in> fib"
  shows "r \<in> moved_fib rm plan fib"
proof (cases "pl_proxy_route_change plan")
  case None
  then show ?thesis using assms(3) by (simp add: moved_fib_eq)
next
  case (Some c)
  obtain old_ip new_ip where c: "c = (old_ip, new_ip)" by fastforce
  have "r \<in> blocks_routes rm [(new_ip, host_prefix new_ip)] \<or>
      r \<in> fold (drop_block rm) [(old_ip, host_prefix old_ip)] fib"
  proof (cases "b = pinned (reloaded rm plan)")
    case True
    then show ?thesis using assms(1) Some c by (simp add: pinned_reloaded)
  next
    case False
    then have "b \<noteq> (old_ip, host_prefix old_ip)" "r \<in> fib" using assms(2,3) Some c by auto
    then show ?thesis using block_route_unique[OF assms(1), of "(old_ip, host_prefix old_ip)"]
      unfolding drop_blocks_eq by auto
  qed
  then have "r \<in> fold (put_block rm) [(new_ip, host_prefix new_ip)]
      (fold (drop_block rm) [(old_ip, host_prefix old_ip)] fib)"
    using block_route_slot[OF assms(1)] by (intro put_blocks_has) blast
  then show ?thesis using Some c by (simp add: moved_fib_eq)
qed

text \<open>Other routes pass through.\<close>

lemma put_drop_other:
  assumes "r \<in> fib" and "\<And>b. via_gateway rm b \<noteq> Some r" and "slot r \<notin> set adds"
  shows "r \<in> fold (put_block rm) adds (fold (drop_block rm) drops fib)"
proof -
  have "r \<in> fold (drop_block rm) drops fib" using assms(1,2) unfolding drop_blocks_eq by blast
  then show ?thesis using put_blocks_bounds(2) assms(3) by blast
qed

lemma reload_complete:
  assumes all: "set (managed rm) \<subseteq> fib" and fits: "plan_fits (rm_proxy_ip rm) (rm_bypass rm) plan"
    and disj: "set (pl_bypass_remove plan) \<inter> set (pl_new_bypass plan) = {}"
    and clash: "clash_free (pl_new_bypass plan)" and pin: "plan_keeps_pin rm plan"
  shows "set (managed (reloaded rm plan)) \<subseteq> reload_fib rm plan fib"
proof
  fix r assume "r \<in> set (managed (reloaded rm plan))"
  then consider (blk) b where "b \<in> set (pinned (reloaded rm plan) # pl_new_bypass plan)" "via_gateway rm b = Some r"
    | (spl) "r \<in> set (split_routes rm)"
    unfolding set_managed reloaded_routes reloaded_sel by blast
  then show "r \<in> reload_fib rm plan fib"
  proof cases
    case blk
    show ?thesis
    proof (cases "b \<in> set (pl_bypass_add plan)")
      case True
      then show ?thesis using blk unfolding reload_fib_def by (intro put_blocks_has) blast
    next
      case False
      have keep: "b \<notin> set (pl_bypass_remove plan)"
        using blk disj pin by (auto simp: plan_keeps_pin_def)
      have "r \<in> moved_fib rm plan fib"
      proof (rule moved_fib_has[OF blk(2)])
        show "b = pinned (reloaded rm plan) \<or>
          (case pl_proxy_route_change plan of None \<Rightarrow> True | Some (old_ip, _) \<Rightarrow> b \<noteq> (old_ip, host_prefix old_ip))"
          using blk(1) False pin by (auto simp: plan_keeps_pin_def split: option.splits)
        show "b = pinned (reloaded rm plan) \<and> pl_proxy_route_change plan \<noteq> None \<or> r \<in> fib"
        proof (cases "b = pinned (reloaded rm plan) \<and> pl_proxy_route_change plan \<noteq> None")
          case no: False
          have "b \<in> set (pinned rm # rm_bypass rm)"
            using no blk(1) False fits by (auto simp: plan_fits_def pinned_reloaded split: option.splits)
          then show ?thesis using all blk(2) unfolding set_managed by blast
        qed simp
      qed
      then have "r \<in> fold (drop_block rm) (pl_bypass_remove plan) (moved_fib rm plan fib)"
        using keep block_route_unique[OF blk(2)] unfolding drop_blocks_eq by blast
      then show ?thesis
        using block_route_slot[OF blk(2)] unfolding reload_fib_def by (intro put_blocks_has) blast
    qed
  next
    case spl
    then have r: "slot r \<in> set split_blocks" "r \<in> fib"
      using split_slots all by (auto simp: managed_def)
    have no_via: "via_gateway rm b \<noteq> Some r" for b using via_gateway_not_split spl by blast
    have other: "slot r \<notin> set (pl_bypass_add plan)"
      using r(1) clash fits by (auto simp: clash_free_def plan_fits_def)
    have host: "slot r \<noteq> (n, host_prefix n)" for n
      using r(1) host_prefix_not_split[of "rm\<lparr>rm_proxy_ip := n\<rparr>"] by (auto simp: pinned_def)
    have "r \<in> moved_fib rm plan fib"
    proof (cases "pl_proxy_route_change plan")
      case None
      then show ?thesis using r(2) by (simp add: moved_fib_eq)
    next
      case (Some c)
      have "slot r \<notin> set [(snd c, host_prefix (snd c))]" using host by simp
      from put_drop_other[OF r(2) no_via this] Some show ?thesis
        unfolding moved_fib_eq by (simp only: option.case split_beta)
    qed
    then show ?thesis using put_drop_other[OF _ no_via other] unfolding reload_fib_def by blast
  qed
qed


abbreviation example_plan :: "CidrList \<Rightarrow> CidrList \<Rightarrow> CidrList \<Rightarrow> ReloadPlan" where
  "example_plan new add del \<equiv> \<lparr>pl_proxy = \<lparr>px_addr = SockV4 0xc0000201 1080, px_username = None,
       px_password = None, px_connect_timeout = 10, px_tcp_nodelay = True\<rparr>,
     pl_route_table = RouteTable_new new, pl_new_bypass = new, pl_bypass_add = add,
     pl_bypass_remove = del, pl_dns = None, pl_dns_changed = False,
     pl_proxy_route_change = None, pl_proxy_changed = False\<rparr>"

abbreviation example_up :: "CidrList \<Rightarrow> route list rt_world" where
  "example_up blocks \<equiv> \<lparr>rw_self = (example_manager blocks)\<lparr>rm_v4_gateway := Some (0x0a090901, 2), rm_applied := True\<rparr>,
     rw_kernel = [Route (V4 0x80000000) 1 None 7, Route (V4 0) 1 None 7,
       Route (V4 0xc0a80000) 16 (Some (V4 0x0a090901)) 2, Route (V4 0xc0000201) 32 (Some (V4 0x0a090901)) 2,
       Route (V4 0) 0 (Some (V4 0x0a090901)) 2],
     rw_fs = host_fs [] None, rw_log = Logger_new False\<rparr>"

lemmas example_reload = RouteManager_reload_def reload_steps_def del_via_gateway_def del_or_warn_def
  del_route_def build_del_message_def del_matches_def reload_add_bypass_def add_via_gateway_def
  example_netlink_def io_simps rt_self_def rt_log_def on_kernel_def gateway_for_def slot_def


section \<open>Where the table ends up different\<close>

text \<open>
  C35. Removing a bypass block that is just the proxy's own address also removes the proxy's
  pinned route: after such a reload the route is gone although the proxy has not moved, so the
  tunnel's connections to the proxy are routed like any other traffic.
\<close>

theorem removed_bypass_unpins_proxy:
  assumes "netlink_ok nl fib" and "rm_applied (rw_self w)"
    and "list_all aligned (pl_bypass_add plan)" and "pl_proxy_route_change plan = None"
    and "pinned (rw_self w) \<in> set (pl_bypass_remove plan)"
    and "pinned (rw_self w) \<notin> set (pl_bypass_add plan)"
    and "via_gateway (rw_self w) (pinned (rw_self w)) = Some r"
    and "RouteManager_reload nl plan w = (Inr (), t)"
  shows "r \<notin> fib (rw_kernel t) \<and> rm_proxy_ip (rw_self t) = rm_proxy_ip (rw_self w)"
proof -
  note run = reload_run[OF assms(1,3,2,8)]
  have "r \<notin> blocks_routes (rw_self w) (pl_bypass_add plan)"
    using assms(6) block_route_unique[OF assms(7)] by blast
  moreover have "r \<notin> fold (drop_block (rw_self w)) (pl_bypass_remove plan) (moved_fib (rw_self w) plan (fib (rw_kernel w)))"
    using assms(5,7) unfolding drop_blocks_eq by blast
  ultimately have "r \<notin> fib (rw_kernel t)"
    unfolding run(1) reload_fib_def using put_blocks_bounds(1) by blast
  then show ?thesis using frame_eqD(1)[OF run(2)] assms(4) by (simp add: moved_ip_def)
qed

theorem removed_bypass_unpins_proxy_witness:
  "\<exists>t. RouteManager_reload (example_netlink []) (example_plan [] [] [(V4 0xc0000201, 32)])
       (example_up [(V4 0xc0000201, 32)]) = (Inr (), t) \<and>
     Route (V4 0xc0000201) 32 (Some (V4 0x0a090901)) 2 \<in> set (rw_kernel (example_up [(V4 0xc0000201, 32)])) \<and>
     Route (V4 0xc0000201) 32 (Some (V4 0x0a090901)) 2 \<notin> set (rw_kernel t)"
proof -
  let ?w = "example_up [(V4 0xc0000201, 32)]"
  obtain t where t: "RouteManager_reload (example_netlink []) (example_plan [] [] [(V4 0xc0000201, 32)]) ?w = (Inr (), t)"
    by (simp add: example_reload)
  have "Route (V4 0xc0000201) 32 (Some (V4 0x0a090901)) 2 \<notin> set (rw_kernel t) \<and>
      rm_proxy_ip (rw_self t) = rm_proxy_ip (rw_self ?w)"
    by (rule removed_bypass_unpins_proxy[OF example_netlink_ok _ _ _ _ _ _ t])
      (simp_all add: pinned_def host_prefix_def via_gateway_def gateway_for_def)
  then show ?thesis using t by simp
qed

text \<open>
  A reload that fails on its second new bypass block has already installed the first, but
  the manager still lists the old blocks: the teardown does not remove the route, and it stays in
  the table after the session.
\<close>

theorem failed_reload_leaks_route:
  "\<exists>t u. RouteManager_reload (example_netlink [Route (V4 0x0b000000) 8 (Some (V4 0x0a090901)) 2])
       (example_plan [(V4 0xc0a80000, 16), (V4 0xac100000, 12), (V4 0x0b000000, 8)]
          [(V4 0xac100000, 12), (V4 0x0b000000, 8)] []) (example_up [(V4 0xc0a80000, 16)]) =
       (Inl [''failed to add bypass route 11.0.0.0/8'', ''failed to add route 11.0.0.0/8 via 10.9.9.1'', ''refused''], t) \<and>
     RouteManager_teardown (example_netlink []) t = (Inr (), u) \<and>
     rw_kernel u = [Route (V4 0xac100000) 12 (Some (V4 0x0a090901)) 2, Route (V4 0) 0 (Some (V4 0x0a090901)) 2]"
proof -
  have msg: "slash_show (V4 0x0b000000) 8 = ''11.0.0.0/8''" "show_ipv4 0x0a090901 = ''10.9.9.1''"
    by (code_simp, code_simp)
  show ?thesis
    by (simp add: example_reload msg RouteManager_teardown_def teardown_steps_def V4_SPLIT_def host_prefix_def on_dns_def
        ResolvConf_restore_def ResolvConf_system_def ResolvConf_new_def)
qed


lemma fold_fib_add_last:
  assumes "r \<in> set rs" and "\<forall>r' \<in> set rs. slot r' = slot r \<longrightarrow> r' = r"
  shows "r \<in> fold fib_add rs fib \<and> (\<forall>r' \<in> fold fib_add rs fib. slot r' = slot r \<longrightarrow> r' = r)"
  using assms
proof (induction rs arbitrary: fib)
  case (Cons x rs)
  show ?case
  proof (cases "r \<in> set rs")
    case True
    have "\<forall>r' \<in> set rs. slot r' = slot r \<longrightarrow> r' = r" using Cons.prems(2) by simp
    from Cons.IH[OF True this, of "fib_add x fib"] show ?thesis unfolding fold_simps .
  next
    case False
    then have x: "x = r" using Cons.prems(1) by simp
    have slots: "slot r \<notin> slot ` set rs" using False Cons.prems(2) by force
    have "r \<in> fold fib_add rs (fib_add r fib)"
      using fold_fib_add_bounds(2)[of "fib_add r fib" rs] slots by (auto simp: fib_add_def)
    moreover have "r' = r" if "r' \<in> fold fib_add rs (fib_add r fib)" "slot r' = slot r" for r'
    proof -
      have "r' \<notin> set rs" using that(2) slots by (metis image_eqI)
      then have "r' \<in> fib_add r fib" using that(1) fold_fib_add_bounds(1) by blast
      then show ?thesis using that(2) by (auto simp: fib_add_def)
    qed
    ultimately show ?thesis unfolding x fold_simps by blast
  qed
qed simp

text \<open>
  A bypass block that is a whole half of the IPv4 space has no effect in the kernel: the
  tunnel's own route to the same half replaces it, while the route table still classifies the
  addresses of the block as direct.
\<close>

theorem half_bypass_is_tunnelled:
  assumes "netlink_ok nl fib" and "list_all aligned (rm_bypass (rw_self w))"
    and "RouteManager_apply nl w = (Inr (), t)"
    and "(V4 d, p) \<in> set (rm_bypass (rw_self w))" and "(d, p) \<in> set V4_SPLIT"
  shows "Route (V4 d) p None (rm_tun_index (rw_self t)) \<in> fib (rw_kernel t) \<and>
    (\<forall>r \<in> fib (rw_kernel t). slot r = (V4 d, p) \<longrightarrow> r_oif r = rm_tun_index (rw_self t)) \<and>
    RouteTable_decide (RouteTable_new (rm_bypass (rw_self w))) (V4 d) = Direct"
proof -
  let ?m = "rw_self t"
  let ?r = "Route (V4 d) p None (rm_tun_index ?m)"
  note eff = apply_effect[OF assms(1-3)]
  have r: "?r \<in> set (split_routes ?m)" using assms(5) by (force simp: split_routes_def)
  have "?r \<in> fold fib_add (split_routes ?m) F \<and>
      (\<forall>r' \<in> fold fib_add (split_routes ?m) F. slot r' = slot ?r \<longrightarrow> r' = ?r)" for F
    by (rule fold_fib_add_last) (use r split_slot_inj[OF _ r] in blast)+
  then have "?r \<in> fib (rw_kernel t) \<and> (\<forall>r' \<in> fib (rw_kernel t). slot r' = slot ?r \<longrightarrow> r' = ?r)"
    unfolding eff(1) managed_def fold_append comp_apply .
  moreover have "RouteTable_decide (RouteTable_new (rm_bypass (rw_self w))) (V4 d) = Direct"
    using assms(4) in_block_self decide_direct_iff by blast
  moreover have "slot ?r = (V4 d, p)" by (simp add: slot_def)
  ultimately show ?thesis by (metis route.sel(4))
qed

lemma example_half_apply:
  "\<exists>t. RouteManager_apply (example_netlink []) (example_world [(V4 0x80000000, 1)]) = (Inr (), t)"
  by (simp add: example_run)

theorem half_bypass_is_tunnelled_witness:
  "\<exists>t. RouteManager_apply (example_netlink []) (example_world [(V4 0x80000000, 1)]) = (Inr (), t) \<and>
     Route (V4 0x80000000) 1 None (rm_tun_index (rw_self t)) \<in> set (rw_kernel t) \<and>
     RouteTable_decide (RouteTable_new [(V4 0x80000000, 1)]) (V4 0x80000000) = Direct"
proof -
  obtain t where t: "RouteManager_apply (example_netlink []) (example_world [(V4 0x80000000, 1)]) = (Inr (), t)"
    using example_half_apply by blast
  have al: "aligned (V4 0x80000000, 1)" by code_simp
  show ?thesis
    using half_bypass_is_tunnelled[where d = "0x80000000" and p = 1, OF example_netlink_ok _ t] t al
    by (auto simp: V4_SPLIT_def)
qed

section \<open>The contract of a route controller\<close>

definition frame_is :: "RouteManager \<Rightarrow> 'k rt_world \<Rightarrow> bool" where
  "frame_is rm w \<longleftrightarrow> frame (rw_self w) = frame rm"

lemma frame_steps [io_keep]:
  "keeps (frame_is rm) (on_kernel m)"
  "keeps (frame_is rm) (rt_log h)"
  "keeps (frame_is rm) (on_dns d)"
  "keeps (frame_is rm) (rt_self (\<lambda>m. m\<lparr>rm_applied := b\<rparr>))"
  unfolding on_kernel_def rt_log_def on_dns_def rt_self_def
  by (intro io_keep; simp add: frame_is_def)+

lemma frame_requests [io_keep]:
  "keeps (frame_is rm) (add_via_gateway nl dst p gw oif)"
  "keeps (frame_is rm) (add_via_tun nl dst p)"
  "keeps (frame_is rm) (del_or_warn nl label dst p oif g)"
  "keeps (frame_is rm) (del_via_gateway nl label dst p)"
  "keeps (frame_is rm) (reload_add_bypass nl blk)"
  "keeps (frame_is rm) (add_bypass nl blk)"
  "keeps (frame_is rm) (pin_proxy nl)"
proof -
  show add: "keeps (frame_is rm) (add_via_gateway nl dst p gw oif)" for dst p gw oif
    by (cases dst; cases gw) (auto simp: add_via_gateway_def intro!: io_keep)
  show del: "keeps (frame_is rm) (del_or_warn nl label dst p oif g)" for label dst p oif g
    unfolding del_or_warn_def del_route_def by (intro io_keep)
  show "keeps (frame_is rm) (add_via_tun nl dst p)"
    unfolding add_via_tun_def by (intro io_keep)
  show "keeps (frame_is rm) (del_via_gateway nl label dst p)"
    unfolding del_via_gateway_def by (intro io_keep del)
  show "keeps (frame_is rm) (reload_add_bypass nl blk)"
    unfolding reload_add_bypass_def by (intro io_keep add)
  show "keeps (frame_is rm) (add_bypass nl blk)"
    unfolding add_bypass_def by (intro io_keep add)
  show "keeps (frame_is rm) (pin_proxy nl)"
    unfolding pin_proxy_def by (intro io_keep add)
qed

lemma frame_kept: "keeps (frame_is (rw_self w)) m \<Longrightarrow> m w = (x, t) \<Longrightarrow> frame (rw_self t) = frame (rw_self w)"
  using keepsD[of "frame_is (rw_self w)" m w x t] by (simp add: frame_is_def)

lemma install_frame: "keeps (frame_is rm) (install_routes nl)"
  unfolding install_routes_def split_def by (intro io_keep)

lemma apply_settings:
  assumes "RouteManager_apply nl w = (Inr (), t)"
  shows "rm_applied (rw_self t)" "rm_proxy_ip (rw_self t) = rm_proxy_ip (rw_self w)"
    "rm_bypass (rw_self t) = rm_bypass (rw_self w)" "rm_dns_server (rw_self t) = rm_dns_server (rw_self w)"
proof -
  show "rm_applied (rw_self t)" using ensuresD[OF apply_ensures assms] .
  obtain u s where read: "read_gateways nl w = (Inr u, s)" and inst: "install_routes nl s = (Inr (), t)"
    using assms unfolding RouteManager_apply_def by (rule io_bind_okE)
  have "read_gateways nl w = (Inr (), s)" using read by simp
  from read_gateways_ok[OF this] frame_eqD[OF frame_kept[OF install_frame inst]]
  show "rm_proxy_ip (rw_self t) = rm_proxy_ip (rw_self w)"
    "rm_bypass (rw_self t) = rm_bypass (rw_self w)" "rm_dns_server (rw_self t) = rm_dns_server (rw_self w)"
    by auto
qed

lemma triple_set_frame:
  assumes "\<And>m. frame m = frame rm \<Longrightarrow> frame (u m) = frame (u rm)"
  shows "triple (frame_is rm) (rt_self u) (frame_is (u rm))"
  unfolding triple_def frame_is_def
proof (intro allI impI)
  fix w :: "'a rt_world" and x t
  assume w: "frame (rw_self w) = frame rm" and "rt_self u w = (Inr x, t)"
  then have "rw_self t = u (rw_self w)" by (auto simp: rt_self_def io_simps)
  then show "frame (rw_self t) = frame (u rm)" using assms[OF w] by simp
qed

lemma move_proxy_frame:
  "triple (frame_is rm) (move_proxy nl old_ip new_ip) (frame_is (rm\<lparr>rm_proxy_ip := new_ip\<rparr>))"
  unfolding move_proxy_def
  apply (rule triple_bind[OF triple_keeps], intro io_keep)
  apply (rule triple_bind[OF triple_keeps], intro io_keep)
  apply (rule triple_bind[OF triple_keeps], intro io_keep)
  apply (rule triple_case_prod)
  apply (rule triple_bind[OF triple_keeps], intro io_keep)
  apply (rule triple_bind[OF triple_set_frame], erule frame_update)
  apply (rule triple_keeps, intro io_keep)
  done

lemma reload_steps_frame:
  "triple (frame_is rm) (reload_steps nl plan) (frame_is (reloaded rm plan))"
proof -
  let ?rm1 = "rm\<lparr>rm_proxy_ip := moved_ip rm plan\<rparr>"
  let ?rm2 = "?rm1\<lparr>rm_bypass := pl_new_bypass plan\<rparr>"
  have move: "triple (frame_is rm) (case pl_proxy_route_change plan of
      Some (old_ip, new_ip) \<Rightarrow> move_proxy nl old_ip new_ip | None \<Rightarrow> io_return ()) (frame_is ?rm1)"
  proof (cases "pl_proxy_route_change plan")
    case None
    then show ?thesis using triple_keeps[OF keeps_return, of "frame_is rm" "()"] by (simp add: moved_ip_def)
  next
    case (Some c)
    then show ?thesis using move_proxy_frame[of rm nl "fst c" "snd c"] by (simp add: moved_ip_def split_beta)
  qed
  have dns: "triple (frame_is ?rm2) (if pl_dns_changed plan then
         io_bind (on_dns (ResolvConf_reload (pl_dns plan))) (\<lambda>_.
         rt_self (\<lambda>m. m\<lparr>rm_dns_server := pl_dns plan\<rparr>))
       else io_return ()) (frame_is (reloaded rm plan))"
  proof (cases "pl_dns_changed plan")
    case True
    have "triple (frame_is ?rm2) (io_bind (on_dns (ResolvConf_reload (pl_dns plan))) (\<lambda>_.
         rt_self (\<lambda>m. m\<lparr>rm_dns_server := pl_dns plan\<rparr>))) (frame_is (?rm2\<lparr>rm_dns_server := pl_dns plan\<rparr>))"
      by (rule triple_bind[OF triple_keeps[OF frame_steps(3)] triple_set_frame], erule frame_update)
    then show ?thesis using True by (simp add: reloaded_def)
  next
    case False
    then show ?thesis using triple_keeps[OF keeps_return, of "frame_is ?rm2" "()"] by (simp add: reloaded_def)
  qed
  show ?thesis unfolding reload_steps_def
    apply (rule triple_bind[OF move])
    apply (rule triple_bind[OF triple_keeps], intro io_keep)
    apply (rule triple_bind[OF triple_keeps], intro io_keep)
    apply (rule triple_bind[OF triple_set_frame], erule frame_update)
    apply (rule dns)
    done
qed

lemma reload_settings:
  assumes "rm_applied (rw_self w)" and run: "RouteManager_reload nl plan w = (Inr (), t)"
  shows "rm_applied (rw_self t)" "frame (rw_self t) = frame (reloaded (rw_self w) plan)"
proof -
  have steps: "reload_steps nl plan w = (Inr (), t)"
    using run assms(1) by (simp add: RouteManager_reload_def io_bind_apply io_apply)
  show "frame (rw_self t) = frame (reloaded (rw_self w) plan)"
    using tripleD[OF reload_steps_frame _ steps] by (simp add: frame_is_def)
  show "rm_applied (rw_self t)"
    using keepsD[where I = "applied_is True", OF reload_keeps_applied _ run] assms(1)
    unfolding applied_is_def by blast
qed

lemma applied_teardown_steps [io_keep]: "keeps (applied_is b) (del_or_warn nl label dst p oif g)"
  unfolding del_or_warn_def del_route_def by (intro io_keep)

lemma teardown_steps_applied: "keeps (applied_is b) (teardown_steps nl self)"
  unfolding teardown_steps_def split_def by (intro io_keep)

lemma teardown_inactive: "\<exists>t. RouteManager_teardown nl w = (Inr (), t) \<and> \<not> rm_applied (rw_self t)"
proof -
  obtain t where t: "RouteManager_teardown nl w = (Inr (), t)"
    using infallibleE[OF teardown_infallible, of nl w] by (metis (full_types) old.unit.exhaust)
  have "\<not> rm_applied (rw_self t)"
  proof (cases "rm_applied (rw_self w)")
    case False
    then show ?thesis using t by (auto simp: RouteManager_teardown_def io_simps)
  next
    case True
    have "teardown_steps nl (rw_self w) (w\<lparr>rw_self := (rw_self w)\<lparr>rm_applied := False\<rparr>\<rparr>) = (Inr (), t)"
      using t True by (simp add: RouteManager_teardown_def io_bind_apply io_apply rt_self_def)
    from keepsD[OF teardown_steps_applied[of False] _ this] show ?thesis by (simp add: applied_is_def)
  qed
  then show ?thesis using t by blast
qed

interpretation linux_routes: route_controller "RouteManager_apply nl" "RouteManager_reload nl"
  "RouteManager_teardown nl" "\<lambda>w. rm_applied (rw_self w)" "\<lambda>w. rm_proxy_ip (rw_self w)"
  "\<lambda>w. rm_bypass (rw_self w)" "\<lambda>w. rm_dns_server (rw_self w)" for nl :: "'k netlink"
proof (unfold_locales, goal_cases)
  case (1 s t)
  then show ?case using apply_settings[OF 1] by simp
next
  case (2 s plan t)
  then show ?case
    using reload_settings[OF 2] frame_eqD[OF reload_settings(2)[OF 2]] by (simp add: moved_ip_def)
next
  case (3 s)
  show ?case by (rule teardown_inactive)
qed

end
