(* ===== verification/Tune.thy ===== *)
theory Tune
  imports Rust_Text
begin

text \<open>
  \<^verbatim>\<open>src/tune.rs\<close>: buffer sizes and connection caps derived from the host.
  \<^verbatim>\<open>u32\<close>, \<^verbatim>\<open>u64\<close> and the 64-bit \<^verbatim>\<open>usize\<close> are words, so every
  product and sum wraps as the machine's would; the lemmas show that none of them does.
\<close>

section \<open>Constants\<close>

definition FALLBACK_MTU :: u32 where "FALLBACK_MTU = 1500"
definition MIN_MTU :: u32 where "MIN_MTU = 576"
definition MAX_MTU :: u32 where "MAX_MTU = 65535"
definition DEFAULT_MEMORY :: u64 where "DEFAULT_MEMORY = 2 * 1024 * 1024 * 1024"
definition DEFAULT_FD_LIMIT :: u64 where "DEFAULT_FD_LIMIT = 1024"
definition RELAY_BUF_PER_MTU :: u64 where "RELAY_BUF_PER_MTU = 176"
definition RELAY_BUF_MIN :: u64 where "RELAY_BUF_MIN = 128 * 1024"
definition RELAY_BUF_MAX :: u64 where "RELAY_BUF_MAX = 4 * 1024 * 1024"
definition COPY_BUF_PER_MTU :: u64 where "COPY_BUF_PER_MTU = 16"
definition COPY_BUF_MIN :: u64 where "COPY_BUF_MIN = 32 * 1024"
definition COPY_BUF_MAX :: u64 where "COPY_BUF_MAX = 256 * 1024"
definition STACK_BUF_MIN :: u64 where "STACK_BUF_MIN = 512"
definition STACK_BUF_MAX :: u64 where "STACK_BUF_MAX = 4096"
definition STACK_BUF_PER_BYTES :: u64 where "STACK_BUF_PER_BYTES = 2 * 1024 * 1024"
definition FD_RESERVE :: u64 where "FD_RESERVE = 64"
definition FDS_PER_CONN :: u64 where "FDS_PER_CONN = 2"
definition MEM_FRACTION_FOR_RELAY :: u64 where "MEM_FRACTION_FOR_RELAY = 4"
definition TCP_CONN_MIN :: u64 where "TCP_CONN_MIN = 128"
definition TCP_CONN_MAX :: u64 where "TCP_CONN_MAX = 65536"
definition UDP_PER_TCP :: u64 where "UDP_PER_TCP = 4"
definition UDP_SESSION_MIN :: u64 where "UDP_SESSION_MIN = 64"
definition UDP_SESSION_MAX :: u64 where "UDP_SESSION_MAX = 16384"
definition UDP_IDLE_TIMEOUT :: nat where "UDP_IDLE_TIMEOUT = 60"

lemmas tune_consts = FALLBACK_MTU_def MIN_MTU_def MAX_MTU_def DEFAULT_MEMORY_def
  DEFAULT_FD_LIMIT_def RELAY_BUF_PER_MTU_def RELAY_BUF_MIN_def RELAY_BUF_MAX_def
  COPY_BUF_PER_MTU_def COPY_BUF_MIN_def COPY_BUF_MAX_def STACK_BUF_MIN_def STACK_BUF_MAX_def
  STACK_BUF_PER_BYTES_def FD_RESERVE_def FDS_PER_CONN_def MEM_FRACTION_FOR_RELAY_def
  TCP_CONN_MIN_def TCP_CONN_MAX_def UDP_PER_TCP_def UDP_SESSION_MIN_def UDP_SESSION_MAX_def

section \<open>Probe and tuning\<close>

record SystemProbe =
  link_mtu :: "u32 option"
  has_ipv6_gateway :: bool
  total_memory_bytes :: "u64 option"
  fd_limit :: "u64 option"

record Tuning =
  tn_mtu :: u32
  relay_buf_size :: u64
  relay_copy_buf_size :: u64
  stack_buf_size :: u64
  udp_idle_timeout :: nat
  max_tcp_connections :: u64
  max_udp_sessions :: u64
  capture_ipv6 :: bool

definition unwrap_or :: "'a option \<Rightarrow> 'a \<Rightarrow> 'a" where
  "unwrap_or v d = (case v of None \<Rightarrow> d | Some x \<Rightarrow> x)"

definition clamp :: "'a::linorder \<Rightarrow> 'a \<Rightarrow> 'a \<Rightarrow> 'a" where
  "clamp x lo hi = (if x < lo then lo else if x > hi then hi else x)"

definition saturating_sub :: "'a::len word \<Rightarrow> 'a word \<Rightarrow> 'a word" where
  "saturating_sub a b = (if a < b then 0 else a - b)"

definition Tuning_compute :: "SystemProbe \<Rightarrow> Tuning" where
  "Tuning_compute probe =
     (let mtu = clamp (unwrap_or (link_mtu probe) FALLBACK_MTU) MIN_MTU MAX_MTU;
          mtu_bytes = ucast mtu :: u64;
          memory = unwrap_or (total_memory_bytes probe) DEFAULT_MEMORY;
          fds = unwrap_or (fd_limit probe) DEFAULT_FD_LIMIT;
          relay_buf = clamp (mtu_bytes * RELAY_BUF_PER_MTU) RELAY_BUF_MIN RELAY_BUF_MAX;
          copy_buf = clamp (mtu_bytes * COPY_BUF_PER_MTU) COPY_BUF_MIN COPY_BUF_MAX;
          stack_buf = clamp (memory div STACK_BUF_PER_BYTES) STACK_BUF_MIN STACK_BUF_MAX;
          per_conn = 2 * relay_buf + copy_buf;
          mem_conns = max (memory div MEM_FRACTION_FOR_RELAY div max per_conn 1) 1;
          fd_conns = max (saturating_sub fds FD_RESERVE div FDS_PER_CONN) 1;
          max_tcp = clamp (min mem_conns fd_conns) TCP_CONN_MIN TCP_CONN_MAX;
          max_udp = clamp (max_tcp div UDP_PER_TCP) UDP_SESSION_MIN UDP_SESSION_MAX
      in \<lparr>tn_mtu = mtu,
          relay_buf_size = relay_buf,
          relay_copy_buf_size = copy_buf,
          stack_buf_size = stack_buf,
          udp_idle_timeout = UDP_IDLE_TIMEOUT,
          max_tcp_connections = max_tcp,
          max_udp_sessions = max_udp,
          capture_ipv6 = has_ipv6_gateway probe\<rparr>)"

definition Tuning_summary :: "Tuning \<Rightarrow> string" where
  "Tuning_summary t =
     ''auto-tuned: mtu='' @ show_word (tn_mtu t) @ '' relay_buf='' @ show_word (relay_buf_size t) @
     '' copy_buf='' @ show_word (relay_copy_buf_size t) @ '' stack_depth='' @ show_word (stack_buf_size t) @
     '' max_tcp='' @ show_word (max_tcp_connections t) @ '' max_udp='' @ show_word (max_udp_sessions t) @
     '' udp_idle='' @ show_nat (udp_idle_timeout t) @ ''s capture_ipv6='' @ show_bool (capture_ipv6 t)"

section \<open>No wrap-around\<close>

lemma unat_clamp: "unat (clamp x lo hi) = clamp (unat x) (unat lo) (unat hi)"
  by (simp add: clamp_def word_less_nat_alt)

lemma unat_saturating_sub: "unat (saturating_sub a b) = unat a - unat b"
  by (simp add: saturating_sub_def word_less_nat_alt unat_sub_if_size)

lemma unat_max: "unat (max a b) = max (unat a) (unat b)"
  and unat_min: "unat (min a b) = min (unat a) (unat b)"
  by (simp_all add: max_def min_def word_le_nat_alt)

lemma clamp_bounds: "lo \<le> hi \<Longrightarrow> lo \<le> clamp x lo hi \<and> clamp x lo hi \<le> hi"
  by (auto simp: clamp_def)

lemma clamp_le: "lo \<le> x \<Longrightarrow> clamp x lo hi \<le> x"
  by (auto simp: clamp_def)

lemma unat_unwrap_or: "unat (unwrap_or v d) = unwrap_or (map_option unat v) (unat d)"
  by (cases v) (simp_all add: unwrap_or_def)

lemmas unat_tune = unat_clamp unat_saturating_sub unat_max unat_min unat_div_distrib unat_unwrap_or

text \<open>The same derivation over the natural numbers, where nothing can wrap.\<close>

definition mtu_of :: "SystemProbe \<Rightarrow> nat" where
  "mtu_of p = clamp (unwrap_or (map_option unat (link_mtu p)) 1500) 576 65535"

definition memory_of :: "SystemProbe \<Rightarrow> nat" where
  "memory_of p = unwrap_or (map_option unat (total_memory_bytes p)) (2 ^ 31)"

definition fds_of :: "SystemProbe \<Rightarrow> nat" where
  "fds_of p = unwrap_or (map_option unat (fd_limit p)) 1024"

definition conn_bytes :: "SystemProbe \<Rightarrow> nat" where
  "conn_bytes p = 2 * clamp (mtu_of p * 176) 131072 4194304 + clamp (mtu_of p * 16) 32768 262144"

definition tcp_cap :: "SystemProbe \<Rightarrow> nat" where
  "tcp_cap p = clamp (min (max (memory_of p div 4 div conn_bytes p) 1)
                          (max ((fds_of p - 64) div 2) 1)) 128 65536"

lemma mtu_of_bounds: "576 \<le> mtu_of p" "mtu_of p \<le> 65535"
  using clamp_bounds[of 576 "65535::nat"] by (simp_all add: mtu_of_def)

lemma unat_tn_mtu: "unat (tn_mtu (Tuning_compute p)) = mtu_of p"
  by (simp add: Tuning_compute_def Let_def unat_tune tune_consts mtu_of_def)

lemma ucast_mtu_mult:
  assumes "k \<le> 1000"
  shows "unat (ucast (tn_mtu (Tuning_compute p)) * of_nat k :: u64) = mtu_of p * k"
proof -
  let ?m = "ucast (tn_mtu (Tuning_compute p)) :: u64"
  have m: "unat ?m = mtu_of p"
    using mtu_of_bounds(2)[of p]
    by (simp add: unsigned_ucast_eq unat_tn_mtu take_bit_nat_eq_self)
  have k: "unat (of_nat k :: u64) = k" using assms by (simp add: unat_of_nat)
  have "mtu_of p * k \<le> 65535 * 1000"
    using mtu_of_bounds(2)[of p] assms by (rule mult_le_mono)
  then show ?thesis using m k by (simp add: unat_word_ariths)
qed

lemma relay_bufs:
  "unat (relay_buf_size (Tuning_compute p)) = clamp (mtu_of p * 176) 131072 4194304"
  "unat (relay_copy_buf_size (Tuning_compute p)) = clamp (mtu_of p * 16) 32768 262144"
  using ucast_mtu_mult[of 176 p] ucast_mtu_mult[of 16 p]
  by (simp_all add: Tuning_compute_def Let_def unat_clamp tune_consts)

lemma conn_bytes_bounds: "294912 \<le> conn_bytes p" "conn_bytes p \<le> 8650752"
  using clamp_bounds[of 131072 "4194304::nat" "mtu_of p * 176"]
    clamp_bounds[of 32768 "262144::nat" "mtu_of p * 16"]
  by (simp_all add: conn_bytes_def)

lemma unat_per_conn:
  "unat (2 * relay_buf_size (Tuning_compute p) + relay_copy_buf_size (Tuning_compute p)) = conn_bytes p"
  using conn_bytes_bounds(2)[of p]
  by (simp add: unat_word_ariths relay_bufs conn_bytes_def)

lemma max_tcp_eq:
  "max_tcp_connections (Tuning_compute p) =
     clamp (min (max (unwrap_or (total_memory_bytes p) DEFAULT_MEMORY div MEM_FRACTION_FOR_RELAY div
                   max (2 * relay_buf_size (Tuning_compute p) + relay_copy_buf_size (Tuning_compute p)) 1) 1)
                (max (saturating_sub (unwrap_or (fd_limit p) DEFAULT_FD_LIMIT) FD_RESERVE div FDS_PER_CONN) 1))
       TCP_CONN_MIN TCP_CONN_MAX"
  by (simp add: Tuning_compute_def Let_def)

lemma unat_max_tcp: "unat (max_tcp_connections (Tuning_compute p)) = tcp_cap p"
  unfolding max_tcp_eq
  using conn_bytes_bounds(1)[of p]
  by (simp add: unat_tune unat_per_conn tune_consts tcp_cap_def memory_of_def fds_of_def max_absorb1)

lemma max_udp_eq:
  "max_udp_sessions (Tuning_compute p) =
     clamp (max_tcp_connections (Tuning_compute p) div UDP_PER_TCP) UDP_SESSION_MIN UDP_SESSION_MAX"
  by (simp add: Tuning_compute_def Let_def)

text \<open>
  C32. Tuning never overflows: for every probe, every derived value equals the one computed with
  unbounded natural numbers, including the products of the link MTU and the per-connection byte
  count that the code computes in 64 bits.
\<close>

theorem Tuning_compute_exact:
  "let t = Tuning_compute p in
     unat (tn_mtu t) = mtu_of p \<and>
     unat (relay_buf_size t) = clamp (mtu_of p * 176) 131072 4194304 \<and>
     unat (relay_copy_buf_size t) = clamp (mtu_of p * 16) 32768 262144 \<and>
     unat (stack_buf_size t) = clamp (memory_of p div 2097152) 512 4096 \<and>
     unat (max_tcp_connections t) = tcp_cap p \<and>
     unat (max_udp_sessions t) = clamp (tcp_cap p div 4) 64 16384"
proof -
  have "unat (stack_buf_size (Tuning_compute p)) = clamp (memory_of p div 2097152) 512 4096"
    by (simp add: Tuning_compute_def Let_def unat_tune tune_consts memory_of_def)
  moreover have "unat (max_udp_sessions (Tuning_compute p)) = clamp (tcp_cap p div 4) 64 16384"
    by (simp add: max_udp_eq unat_tune unat_max_tcp tune_consts)
  ultimately show ?thesis
    by (simp add: Let_def unat_tn_mtu relay_bufs unat_max_tcp)
qed

section \<open>What the host can sustain\<close>

lemma tcp_cap_bounds: "128 \<le> tcp_cap p" "tcp_cap p \<le> 65536"
  using clamp_bounds[of 128 "65536::nat"] by (simp_all add: tcp_cap_def)

text \<open>
  On a host with at least 320 file descriptors and memory for 128 connections, the TCP cap is
  sustainable: descriptors for that many connections plus the reserve fit the limit, and their
  relay buffers fit a quarter of the memory.
\<close>

theorem tcp_cap_sustainable:
  assumes fds: "320 \<le> fds_of p" and mem: "512 * conn_bytes p \<le> memory_of p"
  shows "2 * unat (max_tcp_connections (Tuning_compute p)) + 64 \<le> fds_of p \<and>
    unat (max_tcp_connections (Tuning_compute p)) *
      (2 * unat (relay_buf_size (Tuning_compute p)) +
       unat (relay_copy_buf_size (Tuning_compute p))) \<le> memory_of p div 4"
proof -
  let ?m = "memory_of p div 4 div conn_bytes p" and ?f = "(fds_of p - 64) div 2"
  have pos: "0 < conn_bytes p" using conn_bytes_bounds(1)[of p] by simp
  have "128 * conn_bytes p \<le> memory_of p div 4" using mem by simp
  then have m: "128 \<le> ?m" using pos by (simp add: less_eq_div_iff_mult_less_eq)
  have f: "128 \<le> ?f" using fds by simp
  have "tcp_cap p \<le> min ?m ?f"
    using m f clamp_le[of 128 "min ?m ?f"] by (simp add: tcp_cap_def max_absorb1)
  then have "tcp_cap p \<le> ?m" "tcp_cap p \<le> ?f" by simp_all
  then have "tcp_cap p * conn_bytes p \<le> memory_of p div 4" "2 * tcp_cap p + 64 \<le> fds_of p"
    using pos fds by (simp_all add: less_eq_div_iff_mult_less_eq)
  then show ?thesis
    by (simp add: unat_max_tcp relay_bufs conn_bytes_def)
qed

abbreviation large_host :: SystemProbe where
  "large_host \<equiv> \<lparr>link_mtu = Some 1500, has_ipv6_gateway = True,
     total_memory_bytes = Some 8589934592, fd_limit = Some 1048576\<rparr>"

lemma large_host_values:
  "mtu_of large_host = 1500" "fds_of large_host = 1048576" "memory_of large_host = 8589934592"
  "conn_bytes large_host = 560768"
  by (simp_all add: mtu_of_def fds_of_def memory_of_def conn_bytes_def unwrap_or_def clamp_def)

theorem tcp_cap_sustainable_witness:
  "2 * unat (max_tcp_connections (Tuning_compute large_host)) + 64 \<le> 1048576"
  using tcp_cap_sustainable[of large_host] by (simp add: large_host_values)

text \<open>
  The floor of 128 connections is not gated by the host: with a limit of 128 descriptors the
  code still admits 128 TCP connections, for which its own accounting needs 320.
\<close>

theorem tcp_cap_floor_exceeds_host:
  "unat (max_tcp_connections (Tuning_compute
     \<lparr>link_mtu = None, has_ipv6_gateway = False, total_memory_bytes = None, fd_limit = Some 128\<rparr>)) = 128"
  by (simp add: unat_max_tcp tcp_cap_def memory_of_def fds_of_def conn_bytes_def mtu_of_def
      unwrap_or_def clamp_def)

end
