(* ===== verification/Linux_System.thy ===== *)
theory Linux_System
  imports Linux_Session Tune
begin

text \<open>
  The rest of the Linux backend: \<^verbatim>\<open>src/platform/linux/detect.rs\<close> looks up the default link,
  \<^verbatim>\<open>tun.rs\<close> makes the TUN device, \<^verbatim>\<open>mod.rs\<close> the route manager.
\<close>

section \<open>The default link\<close>

fun first_oif :: "RouteAttribute list \<Rightarrow> u32 option" where
  "first_oif [] = None"
| "first_oif (attr # attrs) = (case attr of Oif index \<Rightarrow> Some index | _ \<Rightarrow> first_oif attrs)"

fun default_v4_oif :: "RouteMessage dump \<Rightarrow> u32 option result" where
  "default_v4_oif ([], Some e) = Inl (''netlink error reading IPv4 routes'' # e)"
| "default_v4_oif ([], None) = Inr None"
| "default_v4_oif (route # routes, end) =
     (if rmsg_prefix route \<noteq> 0 then default_v4_oif (routes, end)
      else case first_oif (rmsg_attributes route) of
        Some index \<Rightarrow> Inr (Some index)
      | None \<Rightarrow> default_v4_oif (routes, end))"

fun has_v6_gateway :: "RouteAttribute list \<Rightarrow> bool" where
  "has_v6_gateway [] = False"
| "has_v6_gateway (attr # attrs) = (case attr of Gateway (V6 _) \<Rightarrow> True | _ \<Rightarrow> has_v6_gateway attrs)"

fun default_v6_present :: "RouteMessage dump \<Rightarrow> bool result" where
  "default_v6_present ([], Some e) = Inl (''netlink error reading IPv6 routes'' # e)"
| "default_v6_present ([], None) = Inr False"
| "default_v6_present (route # routes, end) =
     (if rmsg_prefix route \<noteq> 0 then default_v6_present (routes, end)
      else if has_v6_gateway (rmsg_attributes route) then Inr True
      else default_v6_present (routes, end))"

fun first_mtu :: "LinkAttribute list \<Rightarrow> u32 option" where
  "first_mtu [] = None"
| "first_mtu (attr # attrs) = (case attr of Mtu mtu \<Rightarrow> Some mtu | _ \<Rightarrow> first_mtu attrs)"

definition read_link_mtu :: "'k netlink \<Rightarrow> u32 \<Rightarrow> 'k \<Rightarrow> u32 option result" where
  "read_link_mtu nl index k =
     bind_res (context_res ''netlink error reading link attributes'' (first_of (nl_links_by_index nl index k)))
       (\<lambda>msg. case msg of Some attributes \<Rightarrow> Inr (first_mtu attributes) | None \<Rightarrow> Inr None)"

definition gather :: "'k netlink \<Rightarrow> 'k \<Rightarrow> LinkInfo result" where
  "gather nl k =
     bind_res (default_v4_oif (nl_routes_v4 nl k)) (\<lambda>oif.
     bind_res (case oif of Some index \<Rightarrow> read_link_mtu nl index k | None \<Rightarrow> Inr None) (\<lambda>mtu.
     bind_res (default_v6_present (nl_routes_v6 nl k)) (\<lambda>has_ipv6_gateway.
     Inr \<lparr>li_mtu = mtu, li_has_ipv6_gateway = has_ipv6_gateway\<rparr>)))"

definition nl_connect :: "'k netlink \<Rightarrow> unit result" where
  "nl_connect nl =
     context_res ''failed to open netlink socket''
       (case nl_connect_err nl of None \<Rightarrow> Inr () | Some e \<Rightarrow> Inl e)"

definition detect_link_inner :: "'k netlink \<Rightarrow> 'k \<Rightarrow> LinkInfo result" where
  "detect_link_inner nl k = bind_res (nl_connect nl) (\<lambda>_. gather nl k)"

definition detect_link :: "'k netlink \<Rightarrow> 'k \<Rightarrow> LinkInfo" where
  "detect_link nl k =
     (case detect_link_inner nl k of
        Inr info \<Rightarrow> info
      | Inl _ \<Rightarrow> \<lparr>li_mtu = None, li_has_ipv6_gateway = False\<rparr>)"

section \<open>The route manager\<close>

definition new_route_controller ::
    "'k netlink \<Rightarrow> Config \<Rightarrow> IpAddr \<Rightarrow> string \<Rightarrow> bool \<Rightarrow> 'k \<Rightarrow> RouteManager result may_panic" where
  "new_route_controller nl cfg proxy_ip name capture k =
     (case nl_connect nl of
        Inl e \<Rightarrow> Inr (Inl e)
      | Inr _ \<Rightarrow>
          bind_panic (dns_addr cfg) (\<lambda>server.
          bind_panic (bypass_routes cfg) (\<lambda>blocks.
          Inr (RouteManager_new nl k proxy_ip name server blocks capture))))"

section \<open>The TUN device\<close>

text \<open>
  \<^verbatim>\<open>tokio_tun\<close> is not part of the program: \<open>try_build\<close> says what asking for a device does. The
  MTU is passed as an \<^verbatim>\<open>i32\<close>, a signed 32-bit word.
\<close>

definition TUN_PEER_ADDR :: string where
  "TUN_PEER_ADDR = ''10.0.0.2''"

definition TUN_NETMASK :: string where
  "TUN_NETMASK = ''255.255.255.0''"

record TunBuilder =
  tb_name :: string
  tb_address :: Ipv4Addr
  tb_destination :: Ipv4Addr
  tb_netmask :: Ipv4Addr
  tb_mtu :: int
  tb_packet_info :: bool
  tb_up :: bool

definition create_tun ::
    "(TunBuilder \<Rightarrow> ('k, unit) io) \<Rightarrow> Config \<Rightarrow> u32 \<Rightarrow> 'k \<Rightarrow> TunDevice result may_panic \<times> 'k" where
  "create_tun try_build cfg mtu k =
     (case bind_panic (expect ''static literal'' (parse_ipv4 TUN_PEER_ADDR)) (\<lambda>peer.
           bind_panic (expect ''static literal'' (parse_ipv4 TUN_NETMASK)) (\<lambda>netmask.
           bind_panic (tun_ipv4 cfg) (\<lambda>address.
           Inr \<lparr>tb_name = tun_name cfg, tb_address = address, tb_destination = peer,
                tb_netmask = netmask, tb_mtu = sint mtu, tb_packet_info = False, tb_up = True\<rparr>))) of
        Inl p \<Rightarrow> (Inl p, k)
      | Inr builder \<Rightarrow>
          (case io_context ''failed to create TUN device, is cortado running as root?'' (try_build builder) k of
             (Inl e, k') \<Rightarrow> (Inr (Inl e), k')
           | (Inr _, k') \<Rightarrow> (Inr (Inr \<lparr>tun_device_name = tun_name cfg, tun_device_mtu = mtu\<rparr>), k')))"

end
