(* ===== verification/Rust_Env.thy ===== *)
theory Rust_Env
  imports Rust_Fs
begin

text \<open>
  More of the standard library: UTF-8 checking and lossy decoding, the \<^verbatim>\<open>str\<close> methods
  that scan text a program has printed, paths and environment variables, and the programs started
  with \<^verbatim>\<open>std::process::Command\<close>. Text is its UTF-8 bytes, one \<open>char\<close> per byte.
\<close>

section \<open>UTF-8\<close>

definition continuation :: "u8 \<Rightarrow> bool" where
  "continuation b \<longleftrightarrow> 0x80 \<le> b \<and> b \<le> 0xBF"

text \<open>The bytes that may follow a first byte of three or of four.\<close>

definition second_of_three :: "u8 \<Rightarrow> u8 \<Rightarrow> bool" where
  "second_of_three a b \<longleftrightarrow>
     (if a = 0xE0 then 0xA0 \<le> b \<and> b \<le> 0xBF
      else if a = 0xED then 0x80 \<le> b \<and> b \<le> 0x9F else continuation b)"

definition second_of_four :: "u8 \<Rightarrow> u8 \<Rightarrow> bool" where
  "second_of_four a b \<longleftrightarrow>
     (if a = 0xF0 then 0x90 \<le> b \<and> b \<le> 0xBF
      else if a = 0xF4 then 0x80 \<le> b \<and> b \<le> 0x8F else continuation b)"

text \<open>
  How many bytes the sequence at the head takes, and whether it is a character: a broken sequence
  takes the bytes up to the one that cannot continue it.
\<close>

definition utf8_head :: "u8 \<Rightarrow> bytes \<Rightarrow> nat \<times> bool" where
  "utf8_head a bs =
     (if a < 0x80 then (1, True)
      else if 0xC2 \<le> a \<and> a \<le> 0xDF then
        (case bs of b # _ \<Rightarrow> if continuation b then (2, True) else (1, False) | [] \<Rightarrow> (1, False))
      else if 0xE0 \<le> a \<and> a \<le> 0xEF then
        (case bs of
           b # cs \<Rightarrow>
             if \<not> second_of_three a b then (1, False)
             else (case cs of c # _ \<Rightarrow> if continuation c then (3, True) else (2, False) | [] \<Rightarrow> (2, False))
         | [] \<Rightarrow> (1, False))
      else if 0xF0 \<le> a \<and> a \<le> 0xF4 then
        (case bs of
           b # cs \<Rightarrow>
             if \<not> second_of_four a b then (1, False)
             else (case cs of
                     c # ds \<Rightarrow>
                       if \<not> continuation c then (2, False)
                       else (case ds of d # _ \<Rightarrow> if continuation d then (4, True) else (3, False)
                             | [] \<Rightarrow> (3, False))
                   | [] \<Rightarrow> (2, False))
         | [] \<Rightarrow> (1, False))
      else (1, False))"

function utf8_valid :: "bytes \<Rightarrow> bool" where
  "utf8_valid [] = True"
| "utf8_valid (a # bs) =
     (case utf8_head a bs of (n, ok) \<Rightarrow> ok \<and> utf8_valid (drop (n - 1) bs))"
  by pat_completeness auto
termination by (relation "measure length") auto

function utf8_lossy :: "bytes \<Rightarrow> bytes" where
  "utf8_lossy [] = []"
| "utf8_lossy (a # bs) =
     (case utf8_head a bs of (n, ok) \<Rightarrow>
        (if ok then take n (a # bs) else [0xEF, 0xBF, 0xBD]) @ utf8_lossy (drop (n - 1) bs))"
  by pat_completeness auto
termination by (relation "measure length") auto

definition bytes_text :: "bytes \<Rightarrow> string" where
  "bytes_text bs = map (\<lambda>b. char_of (unat b)) bs"

definition from_utf8_lossy :: "bytes \<Rightarrow> string" where
  "from_utf8_lossy bs = bytes_text (utf8_lossy bs)"

definition fs_read_to_string :: "string \<Rightarrow> fs \<Rightarrow> string result" where
  "fs_read_to_string path f =
     bind_res (fs_read path f) (\<lambda>bs.
       if utf8_valid bs then Inr (bytes_text bs) else Inl [''stream did not contain valid UTF-8''])"

lemma utf8_head_size: "utf8_head a bs = (n, ok) \<Longrightarrow> 1 \<le> n \<and> n \<le> Suc (length bs)"
  by (auto simp: utf8_head_def split: if_splits list.splits)

text \<open>Lossy decoding keeps valid text.\<close>

lemma utf8_lossy_valid: "utf8_valid bs \<Longrightarrow> utf8_lossy bs = bs"
proof (induction bs rule: utf8_valid.induct)
  case (2 a bs)
  obtain n ok where n: "utf8_head a bs = (n, ok)" by fastforce
  then obtain m where m: "n = Suc m" using utf8_head_size[OF n] by (cases n) auto
  show ?case using 2 n m by simp
qed simp

lemma byte_of_char: "of_char (char_of (unat b)) = (b :: u8)" "char_of (unat (of_char c :: u8)) = c"
proof -
  have "unat b mod 256 = unat b" using unat_u8_less[of b] by simp
  then have "(of_nat (of_char (char_of (unat b))) :: u8) = b" by (simp add: of_char_of)
  then show "of_char (char_of (unat b)) = b" unfolding of_nat_of_char .
  have "unat (of_nat (of_char c) :: u8) = of_char c" by (simp add: unsigned_of_nat take_bit_eq_mod)
  then show "char_of (unat (of_char c :: u8)) = c" unfolding of_nat_of_char by simp
qed

lemma as_bytes_text [simp]: "as_bytes (bytes_text bs) = bs" "bytes_text (as_bytes s) = s"
  by (simp_all add: as_bytes_def bytes_text_def comp_def byte_of_char)

section \<open>Scanning text\<close>

definition LF :: char where
  "LF = CHR 0x0A"

definition CR :: char where
  "CR = CHR 0x0D"

text \<open>\<open>lines\<close> ends lines at a line feed, drops a carriage return before it, and has no empty last line.\<close>

function str_lines :: "string \<Rightarrow> string list" where
  "str_lines s =
     (if s = [] then []
      else let line = takeWhile (\<lambda>c. c \<noteq> LF) s; rest = dropWhile (\<lambda>c. c \<noteq> LF) s in
        if rest = [] then [line]
        else (if line \<noteq> [] \<and> last line = CR then butlast line else line) # str_lines (tl rest))"
  by auto
termination
proof (relation "measure length", simp_all, goal_cases)
  case (1 s)
  then show ?case using length_dropWhile_le[of "\<lambda>c. c \<noteq> LF" s]
    by (cases "dropWhile (\<lambda>c. c \<noteq> LF) s") auto
qed

declare str_lines.simps [simp del]

text \<open>
  The characters with the Unicode property \<^verbatim>\<open>White_Space\<close>, in UTF-8, and the length of the
  one at the head of a text, 0 if there is none.
\<close>

definition WHITE_SPACE :: "nat list list" where
  "WHITE_SPACE =
     [[9], [10], [11], [12], [13], [32], [0xC2, 0x85], [0xC2, 0xA0], [0xE1, 0x9A, 0x80]] @
     map (\<lambda>c. [0xE2, 0x80, c]) ([0x80..<0x8B] @ [0xA8, 0xA9, 0xAF]) @
     [[0xE2, 0x81, 0x9F], [0xE3, 0x80, 0x80]]"

definition ws_len :: "string \<Rightarrow> nat" where
  "ws_len s =
     (case filter (\<lambda>w. take (length w) (map of_char s) = w) WHITE_SPACE of [] \<Rightarrow> 0 | w # _ \<Rightarrow> length w)"

lemma ws_len_cases:
  obtains "ws_len s = 0" | w where "w \<in> set WHITE_SPACE" "take (length w) (map of_char s) = w" "ws_len s = length w"
proof (cases "filter (\<lambda>w. take (length w) (map of_char s) = w) WHITE_SPACE")
  case Nil
  then show ?thesis using that(1) by (simp add: ws_len_def)
next
  case (Cons w ws)
  then have "w \<in> set WHITE_SPACE" "take (length w) (map of_char s) = w"
    by (metis (mono_tags, lifting) filter_eq_ConsD in_set_conv_decomp)+
  then show ?thesis using that(2) Cons by (simp add: ws_len_def)
qed

lemma ws_len_le: "ws_len s \<le> length s"
proof (rule ws_len_cases[of s])
  fix w assume "take (length w) (map of_char s) = w" "ws_len s = length w"
  then show ?thesis by (metis length_map length_take min.cobounded1)
qed simp

lemma ws_len_Nil [simp]: "ws_len [] = 0"
  using ws_len_le[of "[]"] by simp

function trim_start :: "string \<Rightarrow> string" where
  "trim_start s = (if ws_len s = 0 then s else trim_start (drop (ws_len s) s))"
  by auto
termination
proof (relation "measure length", simp_all, goal_cases)
  case (1 s)
  then show ?case by (cases s) auto
qed

declare trim_start.simps [simp del]

fun trim_end :: "string \<Rightarrow> string" where
  "trim_end [] = []"
| "trim_end (c # s) = (if trim_start (c # s) = [] then [] else c # trim_end s)"

definition str_trim :: "string \<Rightarrow> string" where
  "str_trim s = trim_end (trim_start s)"

function fields_from :: "string \<Rightarrow> string \<Rightarrow> string list" where
  "fields_from cur s =
     (case s of
        [] \<Rightarrow> if cur = [] then [] else [cur]
      | c # rest \<Rightarrow>
          if ws_len s = 0 then fields_from (cur @ [c]) rest
          else (if cur = [] then [] else [cur]) @ fields_from [] (drop (ws_len s) s))"
  by auto
termination by (relation "measure (length \<circ> snd)") simp_all

declare fields_from.simps [simp del]

definition split_whitespace :: "string \<Rightarrow> string list" where
  "split_whitespace s = fields_from [] s"

text \<open>\<open>s.split(sep)\<close> for a separator that is not empty.\<close>

function split_str :: "string \<Rightarrow> string \<Rightarrow> string \<Rightarrow> string list" where
  "split_str sep cur s =
     (case s of
        [] \<Rightarrow> [cur]
      | c # rest \<Rightarrow>
          (case strip_prefix sep s of
             Some after \<Rightarrow> if sep = [] then [cur] else cur # split_str sep [] after
           | None \<Rightarrow> split_str sep (cur @ [c]) rest))"
  by auto
termination
proof (relation "measure (\<lambda>(_, _, s). length s)", simp_all, goal_cases)
  case (1 sep cur c rest after)
  have "length t \<le> length s" if "strip_prefix p s = Some t" for p s t
    using that by (induction p s rule: strip_prefix.induct) (auto split: if_splits)
  then show ?case using 1 by (cases sep) (auto split: if_splits simp: le_imp_less_Suc)
qed

declare split_str.simps [simp del]

text \<open>
  Lower case. Of the letters outside ASCII only the two below have an ASCII letter in their lower
  case form; the others are left alone, which makes no difference to a search for an ASCII word.
\<close>

function to_lowercase :: "string \<Rightarrow> string" where
  "to_lowercase s =
     (if s = [] then []
      else if take 3 s = [CHR 0xE2, CHR 0x84, CHR 0xAA] then ''k'' @ to_lowercase (drop 3 s)
      else if take 2 s = [CHR 0xC4, CHR 0xB0] then [CHR ''i'', CHR 0xCC, CHR 0x87] @ to_lowercase (drop 2 s)
      else ascii_lower (hd s) # to_lowercase (tl s))"
  by auto
termination by (relation "measure length") auto

declare to_lowercase.simps [simp del]

text \<open>
  The \<^verbatim>\<open>{:?}\<close> form of a list of strings. Characters outside ASCII are printed as they
  are.
\<close>

definition escape_char :: "char \<Rightarrow> string" where
  "escape_char c =
     (if c = CHR 0x22 then [CHR 0x5C, CHR 0x22]
      else if c = CHR 0x5C then [CHR 0x5C, CHR 0x5C]
      else if c = CHR 0x00 then [CHR 0x5C, CHR ''0'']
      else if c = CHR 0x09 then [CHR 0x5C, CHR ''t'']
      else if c = LF then [CHR 0x5C, CHR ''n'']
      else if c = CR then [CHR 0x5C, CHR ''r'']
      else let n = of_char c :: nat in
        if n < 32 \<or> n = 127 then CHR 0x5C # ''u{'' @ show_hex n @ ''}'' else [c])"

definition debug_str :: "string \<Rightarrow> string" where
  "debug_str s = CHR 0x22 # concat (map escape_char s) @ [CHR 0x22]"

definition debug_strs :: "string list \<Rightarrow> string" where
  "debug_strs ss = ''['' @ join '', '' (map debug_str ss) @ '']''"

section \<open>Paths and the environment\<close>

definition SLASH :: char where
  "SLASH = CHR ''/''"

definition is_absolute :: "string \<Rightarrow> bool" where
  "is_absolute p \<longleftrightarrow> p \<noteq> [] \<and> hd p = SLASH"

definition path_join :: "string \<Rightarrow> string \<Rightarrow> string" where
  "path_join base p =
     (if is_absolute p then p
      else if base = [] \<or> last base = SLASH then base @ p
      else base @ [SLASH] @ p)"

definition drop_slashes :: "string \<Rightarrow> string" where
  "drop_slashes p = rev (dropWhile (\<lambda>c. c = SLASH) (rev p))"

text \<open>What is before the last component; nothing for a root or an empty path.\<close>

definition path_parent :: "string \<Rightarrow> string option" where
  "path_parent p =
     (let q = drop_slashes p; d = rev (dropWhile (\<lambda>c. c \<noteq> SLASH) (rev q)) in
      if q = [] then None
      else if drop_slashes d = [] then Some (take 1 d) else Some (drop_slashes d))"

type_synonym env = "string \<Rightarrow> string option"

section \<open>Programs\<close>

text \<open>
  The programs of the system are not part of the program: \<open>shell\<close> says what starting one does to
  the system and what it prints, or why it cannot be started.
\<close>

record cmd_output =
  co_success :: bool
  co_status :: string
  co_stdout :: bytes

type_synonym 'k shell = "string \<Rightarrow> string list \<Rightarrow> ('k, cmd_output) io"

end
