(* ===== verification/Config_Files.thy ===== *)
theory Config_Files
  imports Config Rust_Env
begin

text \<open>
  Where the configuration is kept and how it is read and written, from \<^verbatim>\<open>src/lib.rs\<close>. The
  \<^verbatim>\<open>toml\<close> library, with the serialisation derived for \<^verbatim>\<open>Config\<close>, is the parameter
  \<open>toml\<close>; \<open>toml_ok\<close> is what is relied on: text it writes is valid UTF-8 and reads back to the same
  configuration.
\<close>

record toml =
  toml_from_str :: "string \<Rightarrow> Config result"
  toml_to_string_pretty :: "Config \<Rightarrow> string result"

definition toml_ok :: "toml \<Rightarrow> bool" where
  "toml_ok tm \<longleftrightarrow> (\<forall>cfg text. toml_to_string_pretty tm cfg = Inr text \<longrightarrow>
     utf8_valid (as_bytes text) \<and> toml_from_str tm text = Inr cfg)"

definition CONFIG_FILE_NAME :: string where
  "CONFIG_FILE_NAME = ''cortado.conf''"

definition SYSTEM_CONFIG_DIR :: string where
  "SYSTEM_CONFIG_DIR = ''/etc/cortado''"

definition system_config_path :: string where
  "system_config_path = path_join SYSTEM_CONFIG_DIR CONFIG_FILE_NAME"

definition user_config_path :: "env \<Rightarrow> string option" where
  "user_config_path env =
     (let xdg = (case env ''XDG_CONFIG_HOME'' of Some p \<Rightarrow> if is_absolute p then Some p else None | None \<Rightarrow> None);
          base = (case xdg of Some p \<Rightarrow> Some p | None \<Rightarrow> map_option (\<lambda>h. path_join h ''.config'') (env ''HOME''))
      in map_option (\<lambda>b. path_join (path_join b ''cortado'') CONFIG_FILE_NAME) base)"

definition existing_config_path :: "env \<Rightarrow> fs \<Rightarrow> string option" where
  "existing_config_path env f =
     (if fs_exists system_config_path f then Some system_config_path
      else case user_config_path env of
        Some p \<Rightarrow> if fs_exists p f then Some p else None
      | None \<Rightarrow> None)"

definition writable_config_path :: "env \<Rightarrow> fs \<Rightarrow> string" where
  "writable_config_path env f =
     (case fs_create_dir_all SYSTEM_CONFIG_DIR f of
        Inr _ \<Rightarrow> system_config_path
      | Inl _ \<Rightarrow> (case user_config_path env of Some p \<Rightarrow> p | None \<Rightarrow> system_config_path))"

definition init_config :: "toml \<Rightarrow> env \<Rightarrow> (fs, string) io" where
  "init_config tm env =
     io_bind (io_gets (writable_config_path env)) (\<lambda>path.
     io_bind (case path_parent path of
                Some parent \<Rightarrow>
                  io_context (''failed to create config directory '' @ parent) (\<lambda>f. (fs_create_dir_all parent f, f))
              | None \<Rightarrow> io_return ()) (\<lambda>_.
     io_bind (io_lift (context_res ''failed to serialize default config''
                (toml_to_string_pretty tm Config_default))) (\<lambda>content.
     io_bind (io_context (''failed to write '' @ path) (fs_write path (as_bytes content))) (\<lambda>_.
     io_return path))))"

definition read_config :: "toml \<Rightarrow> string \<Rightarrow> fs \<Rightarrow> Config result" where
  "read_config tm path f =
     bind_res (context_res (''failed to read '' @ path) (fs_read_to_string path f)) (\<lambda>content.
     bind_res (context_res (''failed to parse '' @ path) (toml_from_str tm content)) (\<lambda>cfg.
     bind_res (Config_validate cfg) (\<lambda>_. Inr cfg)))"

definition load_config :: "toml \<Rightarrow> env \<Rightarrow> fs \<Rightarrow> Config result" where
  "load_config tm env f =
     bind_res (context_opt
       (''no configuration found (looked in '' @ system_config_path @
        '' and the per-user config directory); run `cortado init` to create one'')
       (existing_config_path env f)) (\<lambda>path. read_config tm path f)"

definition reload_config :: "toml \<Rightarrow> env \<Rightarrow> fs \<Rightarrow> Config result" where
  "reload_config tm env f =
     bind_res (context_opt ''configuration file disappeared during reload'' (existing_config_path env f))
       (\<lambda>path. read_config tm path f)"

section \<open>What is read\<close>

lemma read_config_valid: "read_config tm path f = Inr cfg \<Longrightarrow> Config_validate cfg = Inr ()"
  by (auto simp: read_config_def bind_res_Inr_iff)

lemma reload_config_valid: "reload_config tm env f = Inr cfg \<Longrightarrow> Config_validate cfg = Inr ()"
  by (auto simp: reload_config_def bind_res_Inr_iff dest: read_config_valid)

lemma read_config_ok:
  assumes "fs_files f path = Some bs" and "fs_read_err f path = None" and "utf8_valid bs"
    and "toml_from_str tm (bytes_text bs) = Inr cfg" and "Config_validate cfg = Inr ()"
  shows "read_config tm path f = Inr cfg"
  using assms by (simp add: read_config_def fs_read_to_string_def fs_read_def)

text \<open>
  C28. The file \<^verbatim>\<open>cortado init\<close> writes is the one \<^verbatim>\<open>cortado run\<close> reads: when the
  initialisation succeeds, loading the configuration afterwards gives the default one, unless a
  system-wide file is in the way of the user's (which only happens when the system directory cannot
  be created although it holds a configuration).
\<close>

theorem init_then_load:
  assumes "toml_ok tm" and "init_config tm env f = (Inr path, f')"
    and "fs_read_err f path = None"
    and "isl (fs_create_dir_all SYSTEM_CONFIG_DIR f) \<Longrightarrow> \<not> fs_exists system_config_path f"
  shows "load_config tm env f' = Inr Config_default"
proof -
  obtain written where written: "toml_to_string_pretty tm Config_default = Inr written"
    and path: "path = writable_config_path env f" and stored: "fs_write path (as_bytes written) f = (Inr (), f')"
    using assms(2) unfolding init_config_def
    by (auto simp: io_simps split: prod.splits sum.splits option.splits)
  have in_file: "fs_files f' path = Some (as_bytes written)" using fs_write_ok[OF stored] .
  have others: "fs_files f' q = fs_files f q" if "q \<noteq> path" for q
    using fs_write_other(1)[of path q "as_bytes written" f] stored that by simp
  have "fs_read_err f' = fs_read_err f" using fs_write_other(2)[of path "as_bytes written" f] stored by simp
  moreover have "utf8_valid (as_bytes written)" "toml_from_str tm written = Inr Config_default"
    using assms(1) written by (auto simp: toml_ok_def)
  ultimately have "read_config tm path f' = Inr Config_default"
    using in_file assms(3) Config_default_valid by (intro read_config_ok[of f' path "as_bytes written"]) simp_all
  moreover have "existing_config_path env f' = Some path"
    using in_file others[of system_config_path] assms(4) path
    by (cases "system_config_path = path") (auto simp: existing_config_path_def writable_config_path_def
        fs_exists_def split: sum.splits option.splits)
  ultimately show ?thesis by (simp add: load_config_def)
qed

abbreviation example_toml :: toml where
  "example_toml \<equiv> \<lparr>toml_from_str = (\<lambda>t. if t = ''defaults'' then Inr Config_default else Inl [''bad'']),
     toml_to_string_pretty = (\<lambda>c. if c = Config_default then Inr ''defaults'' else Inl [''not supported''])\<rparr>"

abbreviation empty_fs :: fs where
  "empty_fs \<equiv> \<lparr>fs_files = (\<lambda>_. None), fs_read_err = (\<lambda>_. None), fs_remove_err = (\<lambda>_. None),
     fs_mkdir_err = (\<lambda>p. if p = SYSTEM_CONFIG_DIR then Some ''Permission denied'' else None), fs_faults = []\<rparr>"

lemma example_toml_ok: "toml_ok example_toml"
  by (simp add: toml_ok_def as_bytes_def utf8_head_def)

theorem init_then_load_witness:
  "load_config example_toml (\<lambda>v. if v = ''HOME'' then Some ''/home/user'' else None)
     (snd (init_config example_toml (\<lambda>v. if v = ''HOME'' then Some ''/home/user'' else None) empty_fs)) =
   Inr Config_default"
proof -
  let ?env = "\<lambda>v. if v = ''HOME'' then Some ''/home/user'' else None"
  have run: "init_config example_toml ?env empty_fs =
      (Inr ''/home/user/.config/cortado/cortado.conf'', snd (init_config example_toml ?env empty_fs))"
    by (simp add: init_config_def io_simps writable_config_path_def fs_create_dir_all_def user_config_path_def
        path_join_def is_absolute_def SLASH_def CONFIG_FILE_NAME_def SYSTEM_CONFIG_DIR_def path_parent_def
        drop_slashes_def fs_write_def)
  show ?thesis
    by (rule init_then_load[OF example_toml_ok run]) (simp_all add: fs_exists_def)
qed

end
