(* ===== verification/App_Reload.thy ===== *)
theory App_Reload
  imports Config_Files Platform Dns_Pool
begin

text \<open>
  Reloading the configuration while the tunnel runs, \<^verbatim>\<open>apply_reload\<close> of
  \<^verbatim>\<open>src/lib.rs\<close>, as a task among the others. It is the only one that changes the current
  configuration, the shared settings, the route manager and the proxy of the DNS pool.
\<close>

section \<open>Model\<close>

text \<open>
  The state of the running program that a reload touches. \<open>ap_history\<close> keeps which configurations
  were read, and what became of them; the program does not have it.
\<close>

datatype reload_outcome = NoEffect | RouteUpdateFailed error | Reloaded

record ('m, 'k) app =
  ap_os :: "('m, 'k) os_world"
  ap_cfg :: Config
  ap_shared :: Shared
  ap_dns :: dns_world
  ap_history :: "(Config \<times> reload_outcome) list"

definition app_log :: "(Logger \<Rightarrow> Logger) \<Rightarrow> ('m, 'k) app \<Rightarrow> ('m, 'k) app" where
  "app_log h a = a\<lparr>ap_os := (ap_os a)\<lparr>rw_log := h (rw_log (ap_os a))\<rparr>\<rparr>"

definition app_note :: "Config \<Rightarrow> reload_outcome \<Rightarrow> ('m, 'k) app \<Rightarrow> ('m, 'k) app" where
  "app_note cfg r a = a\<lparr>ap_history := ap_history a @ [(cfg, r)]\<rparr>"

definition on_routes :: "(('m, 'k) os_world, 'a) io \<Rightarrow> (('m, 'k) app, 'a result) task" where
  "on_routes m = atomic (\<lambda>a. case m (ap_os a) of (r, os) \<Rightarrow> (r, a\<lparr>ap_os := os\<rparr>))"

definition on_pool :: "'a dns_task \<Rightarrow> (('m, 'k) app, 'a) task" where
  "on_pool = task_zoom ap_dns (\<lambda>d a. a\<lparr>ap_dns := d\<rparr>)"

definition commit_reload :: "ReloadPlan \<Rightarrow> Config \<Rightarrow> (('m, 'k) app, unit may_panic) task" where
  "commit_reload plan new_cfg =
     (let new_proxy = pl_proxy plan in
      task_bind (update (\<lambda>a. a\<lparr>ap_shared := store_proxy new_proxy (ap_shared a)\<rparr>)) (\<lambda>_.
      task_bind (update (\<lambda>a. a\<lparr>ap_shared := store_routes (pl_route_table plan) (ap_shared a)\<rparr>)) (\<lambda>_.
      task_bind (if pl_proxy_changed plan then on_pool (set_proxy new_proxy) else Ret ()) (\<lambda>_.
      task_bind (update (\<lambda>a. a\<lparr>ap_dns := count_stat CONFIG_RELOADS (ap_dns a)\<rparr>)) (\<lambda>_.
      task_bind (update (\<lambda>a. app_note new_cfg Reloaded (a\<lparr>ap_cfg := new_cfg\<rparr>))) (\<lambda>_.
      task_bind (update (app_log (log_info ''configuration reloaded''))) (\<lambda>_.
      Ret (Inr ()))))))))"

definition reload_routes ::
    "(ReloadPlan \<Rightarrow> (('m, 'k) os_world, unit) io) \<Rightarrow> ReloadPlan \<Rightarrow> Config \<Rightarrow> (('m, 'k) app, unit may_panic) task" where
  "reload_routes rc_reload plan new_cfg =
     task_bind (on_routes (rc_reload plan)) (\<lambda>r.
     case r of
       Inl e \<Rightarrow>
         task_bind (update (app_note new_cfg (RouteUpdateFailed e))) (\<lambda>_.
         task_bind (update (app_log (log_error (''reload: route update failed, partial state: '' @ display_chain e))))
           (\<lambda>_. Ret (Inr ())))
     | Inr _ \<Rightarrow> commit_reload plan new_cfg)"

definition reload_to ::
    "(ReloadPlan \<Rightarrow> (('m, 'k) os_world, unit) io) \<Rightarrow> Config \<Rightarrow> Config \<Rightarrow> (('m, 'k) app, unit may_panic) task" where
  "reload_to rc_reload current_cfg new_cfg =
     (let immutable = immutable_changes current_cfg new_cfg in
      task_bind
        (if immutable \<noteq> [] then
           update (app_log (log_warn (''reload: these fields require a restart and were not applied: '' @
             join '', '' immutable)))
         else Ret ()) (\<lambda>_.
      case ReloadPlan_compute current_cfg new_cfg of
        Inl p \<Rightarrow> Ret (Inl p)
      | Inr plan \<Rightarrow>
          if is_noop plan then
            task_bind (update (app_log (log_info ''reload: no effective changes''))) (\<lambda>_.
            task_bind (update (\<lambda>a. app_note new_cfg NoEffect (a\<lparr>ap_cfg := new_cfg\<rparr>))) (\<lambda>_.
            Ret (Inr ())))
          else reload_routes rc_reload plan new_cfg))"

definition apply_reload ::
    "(ReloadPlan \<Rightarrow> (('m, 'k) os_world, unit) io) \<Rightarrow> toml \<Rightarrow> env \<Rightarrow> (('m, 'k) app, unit may_panic) task" where
  "apply_reload rc_reload tm env =
     task_bind (load (\<lambda>a. reload_config tm env (rw_fs (ap_os a)))) (\<lambda>r.
     case r of
       Inl e \<Rightarrow>
         task_bind (update (app_log (log_error (''reload: invalid config, keeping current: '' @ display_chain e))))
           (\<lambda>_. Ret (Inr ()))
     | Inr new_cfg \<Rightarrow>
         task_bind (load ap_cfg) (\<lambda>current_cfg. reload_to rc_reload current_cfg new_cfg))"

section \<open>Settings in force\<close>

text \<open>
  What the relaying tasks read agrees with the current configuration, which has passed validation:
  the proxy they and the DNS pool connect to, and the verdict on every address.
\<close>

definition settings_follow :: "Config \<Rightarrow> ('m, 'k) app \<Rightarrow> bool" where
  "settings_follow cfg a \<longleftrightarrow>
     Config_validate cfg = Inr () \<and>
     ProxyConfig_from_config cfg = Inr (sh_proxy (ap_shared a)) \<and>
     dp_proxy (dw_pool (ap_dns a)) = sh_proxy (ap_shared a) \<and>
     (\<exists>bs. bypass_routes cfg = Inr bs \<and>
        RouteTable_decide (sh_routes (ap_shared a)) = RouteTable_decide (RouteTable_new bs))"

text \<open>
  What the other tasks may change meanwhile: anything but what only a reload changes. They log,
  count, and use the DNS pool.
\<close>

definition others :: "('m, 'k) app \<Rightarrow> ('m, 'k) app \<Rightarrow> bool" where
  "others a a' \<longleftrightarrow>
     ap_cfg a' = ap_cfg a \<and> ap_shared a' = ap_shared a \<and> ap_history a' = ap_history a \<and>
     dp_proxy (dw_pool (ap_dns a')) = dp_proxy (dw_pool (ap_dns a)) \<and>
     rw_self (ap_os a') = rw_self (ap_os a)"

lemma app_sel [simp]:
  "ap_cfg (app_log h a) = ap_cfg a" "ap_shared (app_log h a) = ap_shared a"
  "ap_dns (app_log h a) = ap_dns a" "ap_history (app_log h a) = ap_history a"
  "rw_self (ap_os (app_log h a)) = rw_self (ap_os a)"
  "rw_fs (ap_os (app_log h a)) = rw_fs (ap_os a)" "rw_kernel (ap_os (app_log h a)) = rw_kernel (ap_os a)"
  "ap_cfg (app_note c r a) = ap_cfg a" "ap_shared (app_note c r a) = ap_shared a"
  "ap_dns (app_note c r a) = ap_dns a" "ap_os (app_note c r a) = ap_os a"
  "ap_history (app_note c r a) = ap_history a @ [(c, r)]"
  by (simp_all add: app_log_def app_note_def)

lemma settings_follow_cong:
  "ap_shared a' = ap_shared a \<Longrightarrow> dp_proxy (dw_pool (ap_dns a')) = dp_proxy (dw_pool (ap_dns a)) \<Longrightarrow>
   settings_follow cfg a' = settings_follow cfg a"
  by (simp add: settings_follow_def)

text \<open>A plan without effect leaves every setting as it is.\<close>

lemma noop_settings:
  assumes "ReloadPlan_compute old new = Inr plan" and "is_noop plan" and "Config_validate new = Inr ()"
    and "settings_follow old a"
  shows "settings_follow new a"
  using assms(1)
proof (rule ReloadPlan_computeE)
  fix ob nb oa na px od nd
  assume acc: "bypass_routes old = Inr ob" "bypass_routes new = Inr nb"
    "proxy_socket_addr old = Inr oa" "proxy_socket_addr new = Inr na"
    and plan: "plan = \<lparr>pl_proxy = px, pl_route_table = RouteTable_new nb, pl_new_bypass = nb,
       pl_bypass_add = fst (diff_cidrs ob nb), pl_bypass_remove = snd (diff_cidrs ob nb),
       pl_dns = nd, pl_dns_changed = (od \<noteq> nd),
       pl_proxy_route_change =
         (if sock_ip oa \<noteq> sock_ip na then Some (sock_ip oa, sock_ip na) else None),
       pl_proxy_changed = (oa \<noteq> na \<or> username old \<noteq> username new \<or> password old \<noteq> password new)\<rparr>"
  have same: "set ob = set nb" "oa = na" "username old = username new" "password old = password new"
    using assms(2) diff_cidrs_empty_iff[of ob nb] by (auto simp: plan is_noop_def prod_eq_iff)
  have "RouteTable_decide (RouteTable_new ob) = RouteTable_decide (RouteTable_new nb)"
  proof
    fix addr
    have "RouteTable_decide (RouteTable_new ob) addr = Direct \<longleftrightarrow> RouteTable_decide (RouteTable_new nb) addr = Direct"
      by (simp add: decide_direct_iff same(1))
    then show "RouteTable_decide (RouteTable_new ob) addr = RouteTable_decide (RouteTable_new nb) addr"
      by (metis RouteDecision.exhaust)
  qed
  then show ?thesis
    using assms(3,4) acc same by (auto simp: settings_follow_def ProxyConfig_from_config_def)
qed

text \<open>The abstract view of a session: the configuration in force is the last one that took effect.\<close>

definition in_force :: "Config \<Rightarrow> (Config \<times> reload_outcome) list \<Rightarrow> Config" where
  "in_force start history =
     foldl (\<lambda>cur (c, r). case r of RouteUpdateFailed _ \<Rightarrow> cur | _ \<Rightarrow> c) start history"

lemma in_force_snoc [simp]:
  "in_force start (h @ [(c, r)]) = (case r of RouteUpdateFailed _ \<Rightarrow> in_force start h | _ \<Rightarrow> c)"
  by (cases r) (simp_all add: in_force_def)

section \<open>A reload among other tasks\<close>

text \<open>
  \<open>intact cfg os\<close> is a property of the host that a successful update of the routes carries from one
  configuration to the next, for configurations that are \<open>admitted\<close>, and \<open>env_step\<close> what the other
  tasks do. As long as no update of the routes has failed, the property holds for the current
  configuration after every reload; and the settings in force follow it in any case.
\<close>

locale reload_session =
  fixes rc_reload :: "ReloadPlan \<Rightarrow> (('m, 'k) os_world, unit) io"
    and env_step :: "('m, 'k) app \<Rightarrow> ('m, 'k) app \<Rightarrow> bool"
    and intact :: "Config \<Rightarrow> ('m, 'k) os_world \<Rightarrow> bool"
    and admitted :: "Config \<Rightarrow> bool"
    and start :: Config
  assumes env_others: "env_step a a' \<Longrightarrow> others a a'"
    and env_intact: "env_step a a' \<Longrightarrow> intact cfg (ap_os a) \<Longrightarrow> intact cfg (ap_os a')"
    and intact_log: "intact cfg os \<Longrightarrow> intact cfg (os\<lparr>rw_log := l\<rparr>)"
    and intact_noop: "intact old os \<Longrightarrow> ReloadPlan_compute old new = Inr plan \<Longrightarrow> is_noop plan \<Longrightarrow>
      admitted new \<Longrightarrow> intact new os"
    and intact_reload: "intact old os \<Longrightarrow> ReloadPlan_compute old new = Inr plan \<Longrightarrow> admitted new \<Longrightarrow>
      rc_reload plan os = (Inr (), os') \<Longrightarrow> intact new os'"
begin

definition smooth :: "('m, 'k) app \<Rightarrow> bool" where
  "smooth a \<longleftrightarrow> (\<forall>(c, r) \<in> set (ap_history a). admitted c \<and> (\<forall>e. r \<noteq> RouteUpdateFailed e))"

definition session_ok :: "('m, 'k) app \<Rightarrow> bool" where
  "session_ok a \<longleftrightarrow> settings_follow (ap_cfg a) a \<and> in_force start (ap_history a) = ap_cfg a \<and> (smooth a \<longrightarrow> intact (ap_cfg a) (ap_os a))"

text \<open>The states inside a reload: before the routes are updated, and while the new settings are stored.\<close>

definition at_cfg :: "Config \<Rightarrow> ('m, 'k) app \<Rightarrow> bool" where
  "at_cfg cfg a \<longleftrightarrow> session_ok a \<and> ap_cfg a = cfg"

definition storing :: "Config \<Rightarrow> ProxyConfig \<Rightarrow> (Shared \<Rightarrow> bool) \<Rightarrow> ('m, 'k) app \<Rightarrow> bool" where
  "storing new px S a \<longleftrightarrow>
     dp_proxy (dw_pool (ap_dns a)) = px \<and> S (ap_shared a) \<and>
     (smooth a \<and> admitted new \<longrightarrow> intact new (ap_os a))"

lemma smooth_cong: "ap_history a' = ap_history a \<Longrightarrow> smooth a' = smooth a"
  by (simp add: smooth_def)

lemma smooth_log [simp]: "smooth (app_log h a) = smooth a"
  by (rule smooth_cong) simp

lemma smooth_note [simp]:
  "smooth (app_note c r a) \<longleftrightarrow> smooth a \<and> admitted c \<and> (\<forall>e. r \<noteq> RouteUpdateFailed e)"
  by (auto simp: smooth_def)

lemma intact_app_log: "intact cfg (ap_os a) \<Longrightarrow> intact cfg (ap_os (app_log h a))"
  using intact_log by (simp add: app_log_def)

lemma stable_session: "stable_in env_step session_ok"
proof (rule stable_inI)
  fix a a' assume ok: "session_ok a" and env: "env_step a a'"
  note o = env_others[OF env, unfolded others_def]
  have "settings_follow (ap_cfg a') a'" using ok o settings_follow_cong[of a' a] by (simp add: session_ok_def)
  moreover have "smooth a' = smooth a" using o by (intro smooth_cong) simp
  ultimately show "session_ok a'" using ok o env_intact[OF env] by (simp add: session_ok_def)
qed

lemma stable_at_cfg: "stable_in env_step (at_cfg cfg)"
proof (rule stable_inI)
  fix a a' assume "at_cfg cfg a" and env: "env_step a a'"
  then show "at_cfg cfg a'"
    using stable_inD[OF stable_session _ env] env_others[OF env] by (simp add: at_cfg_def others_def)
qed

lemma stable_storing: "stable_in env_step (storing new px S)"
proof (rule stable_inI)
  fix a a' assume st: "storing new px S a" and env: "env_step a a'"
  note o = env_others[OF env, unfolded others_def]
  have "smooth a' = smooth a" using o by (intro smooth_cong) simp
  then show "storing new px S a'" using st o env_intact[OF env] by (simp add: storing_def)
qed

lemma session_log: "session_ok a \<Longrightarrow> session_ok (app_log h a)"
  using settings_follow_cong[of "app_log h a" a] intact_app_log by (simp add: session_ok_def)

lemma at_cfg_log: "at_cfg cfg a \<Longrightarrow> at_cfg cfg (app_log h a)"
  using session_log by (simp add: at_cfg_def)

lemma rely_log: "rely env_step (at_cfg cfg) (update (app_log h)) (\<lambda>_. at_cfg cfg)"
  by (rule rely_update[OF stable_at_cfg]) (rule at_cfg_log)

lemma rely_finish:
  "rely env_step session_ok (task_bind (update (app_log h)) (\<lambda>_. Ret (Inr ()))) (\<lambda>r a. r = Inr () \<and> session_ok a)"
  by (rule rely_update_then[where Q = session_ok, OF stable_session]) (auto intro: session_log rely_Ret)

lemma rely_set_proxy:
  "rely env_step (storing new px S) (on_pool (set_proxy px')) (\<lambda>_. storing new px' S)"
proof -
  have first: "storing new px' S (a\<lparr>ap_dns := upd_pool (dp_proxy_update (\<lambda>_. px')) (ap_dns a)\<rparr>)"
    if "storing new px S a" for a :: "('m, 'k) app"
    using that smooth_cong[of "a\<lparr>ap_dns := upd_pool (dp_proxy_update (\<lambda>_. px')) (ap_dns a)\<rparr>" a]
    by (simp add: storing_def upd_pool_def)
  have keep: "storing new px' S (a\<lparr>ap_dns := d\<rparr>)"
    if "storing new px' S a" "dp_proxy (dw_pool d) = dp_proxy (dw_pool (ap_dns a))" for a :: "('m, 'k) app" and d
    using that smooth_cong[of "a\<lparr>ap_dns := d\<rparr>" a] by (simp add: storing_def)
  have dead: "dw_pool (mark_all_dead ks w) = dw_pool w" for ks w
    by (induction ks arbitrary: w) (simp_all add: mark_all_dead_def upd_conn_def)
  let ?Q = "\<lambda>_ :: unit. storing new px' S"
  show ?thesis
    unfolding on_pool_def set_proxy_def lock_conns_def unlock_conns_def task_zoom_bind task_zoom_await task_zoom_update
    apply (rule rely_bind[where Q = ?Q], rule rely_update[OF stable_storing], erule first)
    apply (rule rely_bind[where Q = ?Q], rule rely_await[OF stable_storing])
    apply (auto simp: upd_pool_def split: if_splits intro!: keep)[1]
    apply (rule rely_bind[where Q = ?Q], rule rely_update[OF stable_storing])
    apply (rule keep, assumption, simp add: upd_pool_def dead)
    apply (rule rely_update[OF stable_storing])
    apply (rule keep, assumption, simp add: upd_pool_def)
    done
qed

lemma plan_settings:
  assumes "ReloadPlan_compute old new = Inr plan" and "ProxyConfig_from_config old = Inr px"
  shows "ProxyConfig_from_config new = Inr (pl_proxy plan)" "\<not> pl_proxy_changed plan \<Longrightarrow> pl_proxy plan = px"
    "\<exists>bs. bypass_routes new = Inr bs \<and> pl_route_table plan = RouteTable_new bs"
  using assms(1) by (rule ReloadPlan_computeE; use assms(2) in \<open>auto simp: ProxyConfig_from_config_def\<close>)+

lemma rely_commit:
  assumes plan: "ReloadPlan_compute old new = Inr plan" and px: "ProxyConfig_from_config old = Inr px"
    and valid: "Config_validate new = Inr ()"
  shows "rely env_step (storing new px (\<lambda>_. True)) (commit_reload plan new) (\<lambda>r a. r = Inr () \<and> session_ok a)"
proof -
  note p = plan_settings[OF plan px]
  let ?S1 = "\<lambda>sh. sh_proxy sh = pl_proxy plan"
  let ?S2 = "\<lambda>sh. sh = \<lparr>sh_proxy = pl_proxy plan, sh_routes = pl_route_table plan\<rparr>"
  have hist: "smooth (a\<lparr>ap_shared := x\<rparr>) = smooth a" "smooth (a\<lparr>ap_dns := d\<rparr>) = smooth a"
    "smooth (a\<lparr>ap_cfg := c\<rparr>) = smooth a" for a x d c
    by (rule smooth_cong, simp)+
  have store1: "storing new px ?S1 (a\<lparr>ap_shared := store_proxy (pl_proxy plan) (ap_shared a)\<rparr>)"
    if "storing new px (\<lambda>_. True) a" for a
    using that by (simp add: storing_def hist store_proxy_def)
  have store2: "storing new px ?S2 (a\<lparr>ap_shared := store_routes (pl_route_table plan) (ap_shared a)\<rparr>)"
    if "storing new px ?S1 a" for a
    using that by (simp add: storing_def hist store_routes_def)
  have pool: "rely env_step (storing new px ?S2)
      (if pl_proxy_changed plan then on_pool (set_proxy (pl_proxy plan)) else Ret ()) (\<lambda>_. storing new (pl_proxy plan) ?S2)"
    using rely_set_proxy p(2) by (auto intro: rely_Ret)
  have count: "storing new (pl_proxy plan) ?S2 (a\<lparr>ap_dns := count_stat CONFIG_RELOADS (ap_dns a)\<rparr>)"
    if "storing new (pl_proxy plan) ?S2 a" for a
    using that by (simp add: storing_def hist count_stat_def)
  have final: "session_ok (app_note new Reloaded (a\<lparr>ap_cfg := new\<rparr>))" if "storing new (pl_proxy plan) ?S2 a" for a
    using that p(1,3) valid by (auto simp: storing_def session_ok_def hist settings_follow_def)
  show ?thesis
    unfolding commit_reload_def Let_def
    apply (rule rely_update_then[where Q = "storing new px ?S1", OF stable_storing], erule store1)
    apply (rule rely_update_then[where Q = "storing new px ?S2", OF stable_storing], erule store2)
    apply (rule rely_bind[OF pool])
    apply (rule rely_update_then[where Q = "storing new (pl_proxy plan) ?S2", OF stable_storing], erule count)
    apply (rule rely_update_then[where Q = session_ok, OF stable_storing], erule final)
    apply (rule rely_finish)
    done
qed

text \<open>The routes have been updated, or not, and nothing has been stored yet.\<close>

definition updated :: "Config \<Rightarrow> Config \<Rightarrow> ProxyConfig \<Rightarrow> unit result \<Rightarrow> ('m, 'k) app \<Rightarrow> bool" where
  "updated old new px r a =
     (case r of
        Inl _ \<Rightarrow> settings_follow old a \<and> ap_cfg a = old \<and> in_force start (ap_history a) = old
      | Inr _ \<Rightarrow> storing new px (\<lambda>_. True) a)"

lemma stable_updated: "stable_in env_step (updated old new px r)"
proof (rule stable_inI)
  fix a a' assume up: "updated old new px r a" and env: "env_step a a'"
  note o = env_others[OF env, unfolded others_def]
  show "updated old new px r a'"
    using up o settings_follow_cong[of a' a old] stable_inD[OF stable_storing _ env]
    by (auto simp: updated_def split: sum.splits)
qed

lemma rely_routes:
  assumes plan: "ReloadPlan_compute old new = Inr plan" and px: "ProxyConfig_from_config old = Inr px"
  shows "rely env_step (at_cfg old) (on_routes (rc_reload plan)) (updated old new px)"
  unfolding on_routes_def
proof (rule rely_atomic[OF stable_at_cfg])
  fix a assume at: "at_cfg old a"
  obtain r os where run: "rc_reload plan (ap_os a) = (r, os)" by fastforce
  have "smooth (a\<lparr>ap_os := os\<rparr>) = smooth a" by (rule smooth_cong) simp
  moreover have "intact new os" if "r = Inr ()" "smooth a" "admitted new"
    using intact_reload[OF _ plan _ run[unfolded that(1)]] at that by (auto simp: at_cfg_def session_ok_def)
  moreover have "settings_follow old (a\<lparr>ap_os := os\<rparr>)" "dp_proxy (dw_pool (ap_dns a)) = px"
    using at px settings_follow_cong[of "a\<lparr>ap_os := os\<rparr>" a] by (auto simp: at_cfg_def session_ok_def settings_follow_def)
  ultimately show "updated old new px (fst (case rc_reload plan (ap_os a) of (r, os) \<Rightarrow> (r, a\<lparr>ap_os := os\<rparr>)))
      (snd (case rc_reload plan (ap_os a) of (r, os) \<Rightarrow> (r, a\<lparr>ap_os := os\<rparr>)))"
    using at run by (auto simp: updated_def at_cfg_def session_ok_def storing_def split: sum.splits)
qed

lemma rely_refused:
  "rely env_step (updated old new px (Inl e))
     (task_bind (update (app_note new (RouteUpdateFailed e))) (\<lambda>_.
      task_bind (update (app_log h)) (\<lambda>_. Ret (Inr ())))) (\<lambda>r a. r = Inr () \<and> session_ok a)"
proof -
  have "session_ok (app_note new (RouteUpdateFailed e) a)" if "updated old new px (Inl e) a" for a
    using that settings_follow_cong[of "app_note new (RouteUpdateFailed e) a" a]
    by (simp add: updated_def session_ok_def)
  then show ?thesis by (rule rely_update_then[where Q = session_ok, OF stable_updated]) (auto intro: rely_finish)
qed

lemma rely_noop:
  assumes "ReloadPlan_compute old new = Inr plan" and "is_noop plan" and "Config_validate new = Inr ()"
  shows "rely env_step (at_cfg old)
     (task_bind (update (app_log h)) (\<lambda>_.
      task_bind (update (\<lambda>a. app_note new NoEffect (a\<lparr>ap_cfg := new\<rparr>))) (\<lambda>_. Ret (Inr ()))))
     (\<lambda>r a. r = Inr () \<and> session_ok a)"
proof -
  have "session_ok (app_note new NoEffect (a\<lparr>ap_cfg := new\<rparr>))" if at: "at_cfg old a" for a
  proof -
    have "settings_follow new (app_note new NoEffect (a\<lparr>ap_cfg := new\<rparr>))"
      using noop_settings[OF assms] at settings_follow_cong[of "app_note new NoEffect (a\<lparr>ap_cfg := new\<rparr>)" a]
      by (auto simp: at_cfg_def session_ok_def)
    moreover have "smooth (a\<lparr>ap_cfg := new\<rparr>) = smooth a" by (rule smooth_cong) simp
    ultimately show ?thesis using at intact_noop[OF _ assms(1,2)] by (auto simp: at_cfg_def session_ok_def)
  qed
  note ok = this
  show ?thesis
    apply (rule rely_update_then[where Q = "at_cfg old", OF stable_at_cfg], erule at_cfg_log)
    apply (rule rely_update_then[where Q = session_ok, OF stable_at_cfg], erule ok)
    apply (rule rely_Ret, simp)
    done
qed

lemma rely_reload_routes:
  assumes plan: "ReloadPlan_compute old new = Inr plan" and valid: "Config_validate new = Inr ()"
  shows "rely env_step (at_cfg old) (reload_routes rc_reload plan new) (\<lambda>r a. r = Inr () \<and> session_ok a)"
proof -
  obtain px where px: "ProxyConfig_from_config old = Inr px"
    using plan by (rule ReloadPlan_computeE) (simp add: ProxyConfig_from_config_def)
  have up: "updated old new px (Inr ()) = storing new px (\<lambda>_. True)" by (rule ext) (simp add: updated_def)
  show ?thesis unfolding reload_routes_def
    by (rule rely_bind[OF rely_routes[OF plan px]])
      (auto split: sum.split intro: rely_refused rely_commit[OF plan px valid, folded up])
qed

lemma rely_reload_to:
  assumes valid: "Config_validate new = Inr ()"
  shows "rely env_step (at_cfg old) (reload_to rc_reload old new) (\<lambda>r a. r = Inr () \<and> session_ok a)"
proof (cases "Config_validate old = Inr ()")
  case True
  then obtain plan where plan: "ReloadPlan_compute old new = Inr plan"
    using ReloadPlan_compute_total[OF _ valid] by blast
  have "rely env_step (at_cfg old) (if c then update (app_log h) else Ret ()) (\<lambda>_. at_cfg old)" for c h
    by (auto intro: rely_log rely_Ret)
  then show ?thesis
    unfolding reload_to_def Let_def plan
    by (rule rely_bind) (auto intro: rely_noop[OF plan _ valid] rely_reload_routes[OF plan valid])
next
  case False
  then show ?thesis by (intro rely_absurd) (auto simp: at_cfg_def session_ok_def settings_follow_def)
qed

lemma rely_apply_reload:
  "rely env_step session_ok (apply_reload rc_reload tm env) (\<lambda>r a. r = Inr () \<and> session_ok a)"
  unfolding apply_reload_def
proof (rule rely_load_then[OF stable_session])
  fix r :: "Config result"
  let ?P = "\<lambda>a. session_ok a \<and> reload_config tm env (rw_fs (ap_os a)) = r"
  show "rely env_step ?P (case r of
       Inl e \<Rightarrow>
         task_bind (update (app_log (log_error (''reload: invalid config, keeping current: '' @ display_chain e))))
           (\<lambda>_. Ret (Inr ()))
     | Inr new_cfg \<Rightarrow> task_bind (load ap_cfg) (\<lambda>current_cfg. reload_to rc_reload current_cfg new_cfg))
     (\<lambda>r a. r = Inr () \<and> session_ok a)"
  proof (cases "\<exists>new. r = Inr new \<and> Config_validate new = Inr ()")
    case True
    then obtain new where new: "r = Inr new" "Config_validate new = Inr ()" by blast
    have "rely env_step session_ok (task_bind (load ap_cfg) (\<lambda>old. reload_to rc_reload old new))
        (\<lambda>r a. r = Inr () \<and> session_ok a)"
      by (rule rely_load_then[OF stable_session rely_weaken[OF rely_reload_to[OF new(2)]]]) (auto simp: at_cfg_def)
    then show ?thesis using new(1) by (auto intro: rely_weaken)
  next
    case False
    show ?thesis
    proof (cases r)
      case (Inl e)
      then show ?thesis by (auto intro: rely_weaken[OF rely_finish])
    next
      case (Inr new)
      then show ?thesis using False by (intro rely_absurd) (auto dest: reload_config_valid)
    qed
  qed
qed

end

end
