(* ===== verification/Probe.thy ===== *)
theory Probe
  imports Tune Rust_Env Platform
begin

text \<open>
  The probe of the host in \<^verbatim>\<open>src/tune.rs\<close>: memory from \<^verbatim>\<open>/proc/meminfo\<close>, the limit
  on file descriptors, raised as far as allowed, and what the backend reports of the link.
\<close>

definition saturating_mul :: "'a::len word \<Rightarrow> 'a word \<Rightarrow> 'a word" where
  "saturating_mul a b = (if unat a * unat b < 2 ^ LENGTH('a) then a * b else - 1)"

fun meminfo_total :: "string list \<Rightarrow> u64 option" where
  "meminfo_total [] = None"
| "meminfo_total (line # lines) =
     (case strip_prefix ''MemTotal:'' line of
        Some rest \<Rightarrow>
          (case split_whitespace rest of
             [] \<Rightarrow> None
           | word # _ \<Rightarrow>
               (case parse_u64 word of Inl _ \<Rightarrow> None | Inr kb \<Rightarrow> Some (saturating_mul kb 1024)))
      | None \<Rightarrow> meminfo_total lines)"

definition read_total_memory :: "fs \<Rightarrow> u64 option" where
  "read_total_memory f =
     (case fs_read_to_string ''/proc/meminfo'' f of
        Inl _ \<Rightarrow> None
      | Inr content \<Rightarrow> meminfo_total (str_lines content))"

text \<open>The current and the maximal limit, and whether raising is permitted.\<close>

record Rlimit =
  rl_current :: "u64 option"
  rl_maximum :: "u64 option"
  rl_settable :: bool

definition raise_and_read_fd_limit :: "Rlimit \<Rightarrow> u64 option" where
  "raise_and_read_fd_limit limit =
     (case (rl_current limit, rl_maximum limit) of
        (Some current, Some maximum) \<Rightarrow>
          if current < maximum \<and> rl_settable limit then Some maximum else Some current
      | (current, _) \<Rightarrow> current)"

definition probe :: "LinkInfo \<Rightarrow> fs \<Rightarrow> Rlimit \<Rightarrow> SystemProbe" where
  "probe link f limit =
     \<lparr>link_mtu = li_mtu link,
      has_ipv6_gateway = li_has_ipv6_gateway link,
      total_memory_bytes = read_total_memory f,
      fd_limit = raise_and_read_fd_limit limit\<rparr>"

lemma saturating_mul_ge:
  "unat (saturating_mul a b) = min (unat a * unat b) (2 ^ LENGTH('a) - 1)" for a b :: "'a::len word"
proof (cases "unat a * unat b < 2 ^ LENGTH('a)")
  case True
  then have "unat (a * b) = unat a * unat b" by (simp only: unat_mult_lem)
  moreover have "min (unat a * unat b) (2 ^ LENGTH('a) - 1) = unat a * unat b"
    using True by (intro min_absorb1) linarith
  ultimately show ?thesis using True by (simp add: saturating_mul_def)
next
  case False
  then show ?thesis by (simp add: saturating_mul_def unsigned_minus_1_eq_mask mask_eq_exp_minus_1)
qed

end
