(* ===== verification/App_Run.thy ===== *)
theory App_Run
  imports App_Reload Probe
begin

text \<open>
  The life of the program, \<^verbatim>\<open>run\<close> of \<^verbatim>\<open>src/lib.rs\<close>: start-up with its early
  returns, the loop that waits for signals, and the teardown. The operating system's backend is a
  \<open>backend\<close>, which \<^verbatim>\<open>platform::active\<close> selects at compile time.
\<close>

section \<open>Start-up\<close>

text \<open>A step of the start-up returns a value, returns an error with \<^verbatim>\<open>?\<close>, or panics.\<close>

type_synonym ('s, 'a) pio = "'s \<Rightarrow> 'a result may_panic \<times> 's"

definition pio_bind :: "('s, 'a) pio \<Rightarrow> ('a \<Rightarrow> ('s, 'b) pio) \<Rightarrow> ('s, 'b) pio" where
  "pio_bind m f = (\<lambda>s. case m s of
     (Inl p, s') \<Rightarrow> (Inl p, s')
   | (Inr (Inl e), s') \<Rightarrow> (Inr (Inl e), s')
   | (Inr (Inr x), s') \<Rightarrow> f x s')"

definition pio_io :: "('s, 'a) io \<Rightarrow> ('s, 'a) pio" where
  "pio_io m = (\<lambda>s. case m s of (r, s') \<Rightarrow> (Inr r, s'))"

definition pio_panic :: "'a may_panic \<Rightarrow> ('s, 'a) pio" where
  "pio_panic r = (\<lambda>s. (map_sum id Inr r, s))"

definition pio_kernel :: "('k, 'a) pio \<Rightarrow> (('m, 'k) os_world, 'a) pio" where
  "pio_kernel m = (\<lambda>w. case m (rw_kernel w) of (r, k) \<Rightarrow> (r, w\<lparr>rw_kernel := k\<rparr>))"

text \<open>The operations of a backend.\<close>

record ('m, 'k) backend =
  be_detect_link :: "'k \<Rightarrow> LinkInfo \<times> 'k"
  be_create_tun :: "Config \<Rightarrow> u32 \<Rightarrow> ('k, TunDevice) pio"
  be_new_route_controller :: "Config \<Rightarrow> IpAddr \<Rightarrow> string \<Rightarrow> bool \<Rightarrow> ('k, 'm) pio"
  be_apply :: "(('m, 'k) os_world, unit) io"
  be_reload :: "ReloadPlan \<Rightarrow> (('m, 'k) os_world, unit) io"
  be_teardown :: "(('m, 'k) os_world, unit) io"

text \<open>
  What else the outside answers: the environment and the \<^verbatim>\<open>toml\<close> library, the limit on file
  descriptors, the first connection to the proxy (\<open>None\<close> when it is not answered in time), the network
  stack of \<^verbatim>\<open>netstack_smoltcp\<close> with its two ends, the signal handlers, and the network behind
  the proxy.
\<close>

record surroundings =
  su_env :: env
  su_toml :: toml
  su_rlimit :: Rlimit
  su_connect :: "SocketAddr \<Rightarrow> unit result option"
  su_netstack :: "unit result"
  su_tcp_listener :: "unit option"
  su_udp_socket :: "unit option"
  su_sigint :: "unit result"
  su_sigterm :: "unit result"
  su_sighup :: "unit result"
  su_net :: "nat \<Rightarrow> unit socket_env"

definition probe_proxy :: "surroundings \<Rightarrow> ProxyConfig \<Rightarrow> unit result" where
  "probe_proxy su proxy =
     (case su_connect su (px_addr proxy) of
        None \<Rightarrow> Inl [''timed out connecting to SOCKS5 proxy'', ''deadline has elapsed'']
      | Some r \<Rightarrow> context_res ''cannot reach SOCKS5 proxy'' r)"

definition prepare :: "('m, 'k) backend \<Rightarrow> surroundings \<Rightarrow> Config \<Rightarrow>
    ((unit, 'k) os_world, Tuning \<times> ProxyConfig \<times> 'm) pio" where
  "prepare be su cfg =
     pio_bind (pio_kernel (\<lambda>k. case be_detect_link be k of (link, k') \<Rightarrow> (Inr (Inr link), k'))) (\<lambda>link.
     pio_bind (pio_io (io_gets (\<lambda>w. Tuning_compute (probe link (rw_fs w) (su_rlimit su))))) (\<lambda>tuning.
     pio_bind (pio_io (rt_log (log_info (Tuning_summary tuning)))) (\<lambda>_.
     pio_bind (pio_panic (ProxyConfig_from_config cfg)) (\<lambda>proxy.
     pio_bind (pio_io (io_lift (probe_proxy su proxy))) (\<lambda>_.
     pio_bind (pio_io (rt_log (log_info (''SOCKS5 proxy reachable at '' @ show_socket_addr (px_addr proxy))))) (\<lambda>_.
     pio_bind (pio_kernel (be_create_tun be cfg (tn_mtu tuning))) (\<lambda>device.
     pio_bind (pio_io (rt_log (log_info (''TUN interface '' @ tun_device_name device @ '' up at '' @ tun_ip cfg @
       '' mtu '' @ show_word (tun_device_mtu device))))) (\<lambda>_.
     pio_bind (pio_kernel (be_new_route_controller be cfg (sock_ip (px_addr proxy)) (tun_device_name device)
       (capture_ipv6 tuning))) (\<lambda>route_manager.
     pio_io (io_return (tuning, proxy, route_manager)))))))))))"

definition ShutdownSignal_new :: "surroundings \<Rightarrow> unit result" where
  "ShutdownSignal_new su =
     bind_res (context_res ''failed to install SIGINT handler'' (su_sigint su)) (\<lambda>_.
     context_res ''failed to install SIGTERM handler'' (su_sigterm su))"

definition ReloadSignal_new :: "surroundings \<Rightarrow> unit result" where
  "ReloadSignal_new su = context_res ''failed to install SIGHUP handler'' (su_sighup su)"

definition install_handlers :: "surroundings \<Rightarrow> Config \<Rightarrow> (('m, 'k) os_world, unit) pio" where
  "install_handlers su cfg =
     pio_bind (pio_panic (metrics_socket_addr cfg)) (\<lambda>_.
     pio_bind (pio_io (io_lift (ShutdownSignal_new su))) (\<lambda>_.
     pio_io (io_lift (ReloadSignal_new su))))"

definition start_up :: "('m, 'k) backend \<Rightarrow> surroundings \<Rightarrow> Config \<Rightarrow> Tuning \<Rightarrow> ProxyConfig \<Rightarrow>
    (('m, 'k) os_world, Shared \<times> DnsPool) pio" where
  "start_up be su cfg tuning proxy =
     pio_bind (pio_io (be_apply be)) (\<lambda>_.
     pio_bind (pio_io (rt_log (log_info ''routing configured automatically''))) (\<lambda>_.
     pio_bind (pio_io (io_lift (context_res ''failed to build netstack'' (su_netstack su)))) (\<lambda>_.
     pio_bind (pio_io (io_lift (context_opt ''TCP listener missing while TCP enabled'' (su_tcp_listener su)))) (\<lambda>_.
     pio_bind (pio_io (io_lift (context_opt ''UDP socket missing while UDP enabled'' (su_udp_socket su)))) (\<lambda>_.
     pio_bind (pio_panic (bypass_routes cfg)) (\<lambda>blocks.
     let shared = Shared_new proxy (RouteTable_new blocks);
         dns_pool = DnsPool_new proxy (px_connect_timeout proxy) (udp_idle_timeout tuning) in
     pio_bind (install_handlers su cfg) (\<lambda>_.
     pio_io (io_return (shared, dns_pool)))))))))"

section \<open>The loop\<close>

text \<open>
  Before a signal arrives the other tasks have done something to the state; a reload is interleaved
  with them as well.
\<close>

datatype 'w signal = UdpExited | ShutdownRequested | ReloadRequested "('w \<Rightarrow> 'w) list"

type_synonym 'w event = "('w \<Rightarrow> 'w) list \<times> 'w signal"

fun main_loop :: "(ReloadPlan \<Rightarrow> (('m, 'k) os_world, unit) io) \<Rightarrow> toml \<Rightarrow> env \<Rightarrow> ('m, 'k) app event list \<Rightarrow>
    ('m, 'k) app \<Rightarrow> (unit may_panic \<times> ('m, 'k) app) option" where
  "main_loop rc_reload tm env [] a = None"
| "main_loop rc_reload tm env ((es, sig) # events) a =
     (let a = fold (\<lambda>e. e) es a in
      case sig of
        UdpExited \<Rightarrow> Some (Inr (), app_log (log_warn ''UDP task exited unexpectedly'') a)
      | ShutdownRequested \<Rightarrow> Some (Inr (), app_log (log_info ''shutting down'') a)
      | ReloadRequested during \<Rightarrow>
          (case run_among during (apply_reload rc_reload tm env) a of
             None \<Rightarrow> None
           | Some (Inl p, a') \<Rightarrow> Some (Inl p, a')
           | Some (Inr _, a') \<Rightarrow> main_loop rc_reload tm env events a'))"

section \<open>The whole run\<close>

text \<open>How a run ends: with a value or an error returned by \<^verbatim>\<open>run\<close>, or a panic.\<close>

record 'k run_result =
  rr_exit :: "unit result may_panic"
  rr_world :: "(unit, 'k) os_world"
  rr_history :: "(Config \<times> reload_outcome) list"

definition app_start :: "surroundings \<Rightarrow> Config \<Rightarrow> Shared \<Rightarrow> DnsPool \<Rightarrow> ('m, 'k) os_world \<Rightarrow> ('m, 'k) app" where
  "app_start su cfg shared pool w =
     \<lparr>ap_os = w, ap_cfg = cfg, ap_shared = shared,
      ap_dns = \<lparr>dw_pool = pool, dw_heap = [], dw_chans = [], dw_stats = stats_init, dw_now = 0,
        dw_dials = 0, dw_net = su_net su\<rparr>,
      ap_history = []\<rparr>"

definition run :: "('m, 'k) backend \<Rightarrow> surroundings \<Rightarrow> Config \<Rightarrow> ('m, 'k) app event list \<Rightarrow>
    (unit, 'k) os_world \<Rightarrow> 'k run_result option" where
  "run be su cfg events w =
     (case prepare be su cfg w of
        (Inl p, w') \<Rightarrow> Some \<lparr>rr_exit = Inl p, rr_world = w', rr_history = []\<rparr>
      | (Inr (Inl e), w') \<Rightarrow> Some \<lparr>rr_exit = Inr (Inl e), rr_world = w', rr_history = []\<rparr>
      | (Inr (Inr (tuning, proxy, route_manager)), w') \<Rightarrow>
          (case start_up be su cfg tuning proxy (with_self route_manager w') of
             (Inl p, v) \<Rightarrow> Some \<lparr>rr_exit = Inl p, rr_world = with_self () v, rr_history = []\<rparr>
           | (Inr (Inl e), v) \<Rightarrow> Some \<lparr>rr_exit = Inr (Inl e), rr_world = with_self () v, rr_history = []\<rparr>
           | (Inr (Inr (shared, pool)), v) \<Rightarrow>
               (case main_loop (be_reload be) (su_toml su) (su_env su) events (app_start su cfg shared pool v) of
                  None \<Rightarrow> None
                | Some (Inl p, a) \<Rightarrow>
                    Some \<lparr>rr_exit = Inl p, rr_world = with_self () (ap_os a), rr_history = ap_history a\<rparr>
                | Some (Inr _, a) \<Rightarrow>
                    Some \<lparr>rr_exit = Inr (Inr ()), rr_world = with_self () (snd (be_teardown be (ap_os a))),
                          rr_history = ap_history a\<rparr>)))"

section \<open>A reload ends\<close>

text \<open>The other tasks leave the lock on the table of DNS connections as it is.\<close>

definition pool_idle :: "('m, 'k) app \<Rightarrow> bool" where
  "pool_idle a \<longleftrightarrow> \<not> dp_conns_locked (dw_pool (ap_dns a))"

definition lock_kept :: "('m, 'k) app \<Rightarrow> ('m, 'k) app \<Rightarrow> bool" where
  "lock_kept a a' \<longleftrightarrow> pool_idle a' = pool_idle a"

lemma pool_idle_stable: "stable_in lock_kept pool_idle"
  by (simp add: stable_in_def lock_kept_def)

lemma pool_idle_app [simp]:
  "pool_idle (app_log h a) = pool_idle a" "pool_idle (app_note c r a) = pool_idle a"
  "pool_idle (a\<lparr>ap_shared := sh\<rparr>) = pool_idle a" "pool_idle (a\<lparr>ap_cfg := c\<rparr>) = pool_idle a"
  "pool_idle (a\<lparr>ap_os := os\<rparr>) = pool_idle a"
  by (simp_all add: pool_idle_def)

text \<open>One turn, and what is left afterwards.\<close>

lemma turn:
  assumes "ends R P 1 t" and "rely R P t Q" and "0 < n" and "\<And>a. ends R (Q a) (n - 1) (k a)"
  shows "ends R P n (task_bind t k)"
  using ends_bind[OF assms(1,2,4)] assms(3) by simp

lemma update_ends:
  assumes "\<And>a. pool_idle (f a) = pool_idle a" and "0 < n" and "ends lock_kept pool_idle (n - 1) (k ())"
  shows "ends lock_kept pool_idle n (task_bind (update f) k)"
proof (rule turn[OF ends_update])
  show "rely lock_kept pool_idle (update f) (\<lambda>_. pool_idle)"
    by (rule rely_update[OF pool_idle_stable]) (simp add: assms(1))
qed (use assms in simp_all)

lemma load_ends:
  assumes "0 < n" and "\<And>x. ends lock_kept pool_idle (n - 1) (k x)"
  shows "ends lock_kept pool_idle n (task_bind (load g) k)"
  by (rule turn[where Q = "\<lambda>_. pool_idle", OF ends_load rely_load[OF pool_idle_stable] assms(1)])
    (use assms(2) in simp_all)

lemma await_ends:
  assumes "stable_in R P" and "\<And>w. P w \<Longrightarrow> f w \<noteq> None" and "0 < n" and "\<And>a. ends R (\<lambda>_. True) (n - 1) (k a)"
  shows "ends R P n (task_bind (await f) k)"
  by (rule turn[where Q = "\<lambda>_ _. True", OF ends_await[OF assms(1,2)] _ assms(3,4)]) (simp_all add: rely_def)

lemma free_update_ends:
  "0 < n \<Longrightarrow> ends R (\<lambda>_. True) (n - 1) (k ()) \<Longrightarrow> ends R (\<lambda>_. True) n (task_bind (update f) k)"
  unfolding update_def atomic_def by (rule await_ends) (simp_all add: stable_const)

lemma set_proxy_ends: "ends lock_kept pool_idle 4 (on_pool (set_proxy px))"
  unfolding on_pool_def set_proxy_def lock_conns_def unlock_conns_def task_zoom_bind task_zoom_await task_zoom_update
  apply (rule update_ends, simp add: pool_idle_def upd_pool_def, simp)
  apply (rule await_ends[OF pool_idle_stable], simp add: pool_idle_def, simp)
  apply (rule free_update_ends, simp)
  using ends_update by simp

lemma log_ends: "0 < n \<Longrightarrow> ends lock_kept pool_idle n (task_bind (update (app_log h)) (\<lambda>_. Ret x))"
  by (rule update_ends) (simp_all add: ends_Ret)

lemma note_ends:
  "1 < n \<Longrightarrow> ends lock_kept pool_idle n (task_bind (update (app_note c r)) (\<lambda>_. task_bind (update (app_log h)) (\<lambda>_. Ret x)))"
  by (rule update_ends) (simp_all add: log_ends)

lemma noop_ends:
  "1 < n \<Longrightarrow> ends lock_kept pool_idle n (task_bind (update (app_log h)) (\<lambda>_.
     task_bind (update (\<lambda>a. app_note c r (a\<lparr>ap_cfg := c\<rparr>))) (\<lambda>_. Ret x)))"
  by (rule update_ends, simp_all, rule update_ends, simp_all add: ends_Ret)

lemma finish_ends:
  "ends lock_kept (\<lambda>_. True) 3 (task_bind (update f) (\<lambda>_. task_bind (update g) (\<lambda>_. task_bind (update h) (\<lambda>_. Ret x))))"
  by (rule free_update_ends, simp)+ (rule ends_Ret)

lemma pool_then_ends:
  "ends lock_kept pool_idle 7 (task_bind (if c then on_pool (set_proxy px) else Ret ()) (\<lambda>_.
     task_bind (update f) (\<lambda>_. task_bind (update g) (\<lambda>_. task_bind (update h) (\<lambda>_. Ret x)))))"
proof -
  have "ends lock_kept pool_idle 4 (if c then on_pool (set_proxy px) else Ret ())"
    by (simp add: set_proxy_ends ends_Ret)
  then have "ends lock_kept pool_idle (4 + 3) (task_bind (if c then on_pool (set_proxy px) else Ret ()) (\<lambda>_.
     task_bind (update f) (\<lambda>_. task_bind (update g) (\<lambda>_. task_bind (update h) (\<lambda>_. Ret x)))))"
    by (rule ends_bind[where Q = "\<lambda>_ _. True"]) (simp_all add: rely_def finish_ends)
  then show ?thesis by (simp only: numeral_plus_numeral add_num_simps)
qed

lemma commit_ends: "ends lock_kept pool_idle 9 (commit_reload plan new)"
  unfolding commit_reload_def Let_def
  by (rule update_ends, simp, simp, rule update_ends, simp, simp) (simp add: pool_then_ends)

lemma reload_routes_ends: "ends lock_kept pool_idle 10 (reload_routes rc_reload plan new)"
  unfolding reload_routes_def on_routes_def
proof (rule turn[OF ends_atomic])
  show "rely lock_kept pool_idle (atomic (\<lambda>a. case rc_reload plan (ap_os a) of (r, os) \<Rightarrow> (r, a\<lparr>ap_os := os\<rparr>)))
      (\<lambda>_. pool_idle)"
    by (rule rely_atomic[OF pool_idle_stable]) (simp add: split_beta)
qed (auto simp: note_ends commit_ends split: sum.split)

lemma reload_to_ends: "ends lock_kept pool_idle 11 (reload_to rc_reload old new)"
  unfolding reload_to_def Let_def
proof (rule turn)
  show "ends lock_kept pool_idle 1 (if b then update (app_log h) else Ret ())" for b h
    by (cases b) (simp_all add: ends_Ret ends_update[unfolded One_nat_def])
  show "rely lock_kept pool_idle (if b then update (app_log h) else Ret ()) (\<lambda>_. pool_idle)" for b h
    by (auto intro: rely_update[OF pool_idle_stable] rely_Ret)
qed (auto simp: noop_ends reload_routes_ends ends_Ret split: sum.split)

lemma apply_reload_ends: "ends lock_kept pool_idle 13 (apply_reload rc_reload tm env)"
proof -
  have "ends lock_kept pool_idle 12 (task_bind (load ap_cfg) (\<lambda>old. reload_to rc_reload old new))" for new
    by (rule load_ends) (simp_all add: reload_to_ends)
  then show ?thesis unfolding apply_reload_def
    by (intro load_ends) (auto simp: log_ends split: sum.split)
qed


section \<open>Sessions\<close>

definition events_allowed :: "('w \<Rightarrow> 'w \<Rightarrow> bool) \<Rightarrow> 'w event list \<Rightarrow> bool" where
  "events_allowed R events \<longleftrightarrow>
     list_all (\<lambda>(es, sig). allowed_by R es \<and>
       (case sig of ReloadRequested during \<Rightarrow> allowed_by R during | _ \<Rightarrow> True)) events"

context reload_session
begin

lemma env_fold: "allowed_by env_step es \<Longrightarrow> session_ok a \<Longrightarrow> session_ok (fold (\<lambda>e. e) es a)"
proof (induction es arbitrary: a)
  case (Cons e es)
  then have "session_ok (e a)" using stable_inD[OF stable_session] by (simp add: allowed_by_def)
  then show ?case using Cons by (simp add: allowed_by_def)
qed simp

lemma loop_ok:
  assumes "events_allowed env_step events" and "session_ok a" and "main_loop rc_reload tm env events a = Some (r, a')"
  shows "r = Inr () \<and> session_ok a'"
  using assms
proof (induction events arbitrary: a)
  case (Cons ev events)
  obtain es sig where ev: "ev = (es, sig)" by fastforce
  let ?a = "fold (\<lambda>e. e) es a"
  have ok: "session_ok ?a" using Cons.prems ev by (intro env_fold) (simp_all add: events_allowed_def)
  show ?case
  proof (cases sig)
    case (ReloadRequested during)
    obtain q b where run: "run_among during (apply_reload rc_reload tm env) ?a = Some (q, b)"
      using Cons.prems(3) by (cases "run_among during (apply_reload rc_reload tm env) ?a") (auto simp: ev ReloadRequested)
    have "allowed_by env_step during" using Cons.prems(1) by (simp add: ev ReloadRequested events_allowed_def)
    from relyD[OF rely_apply_reload this ok run] have "q = Inr ()" "session_ok b" by auto
    then show ?thesis using Cons.IH[of b] Cons.prems run by (simp add: ev ReloadRequested events_allowed_def)
  qed (use Cons.prems ok session_log in \<open>auto simp: ev\<close>)
qed simp

lemma session_start:
  "settings_follow start a \<Longrightarrow> ap_cfg a = start \<Longrightarrow> ap_history a = [] \<Longrightarrow> intact start (ap_os a) \<Longrightarrow> session_ok a"
  by (simp add: session_ok_def in_force_def)

end

lemma pio_bind_okE:
  assumes "pio_bind m f s = (Inr (Inr y), t)"
  obtains x s' where "m s = (Inr (Inr x), s')" "f x s' = (Inr (Inr y), t)"
  using assms by (auto simp: pio_bind_def split: prod.splits sum.splits)

lemma pio_ok_iff:
  "pio_io m s = (Inr (Inr y), t) \<longleftrightarrow> m s = (Inr y, t)"
  "pio_panic r s = (Inr (Inr y), t) \<longleftrightarrow> r = Inr y \<and> t = s"
  by (cases "m s"; cases r; auto simp: pio_io_def pio_panic_def)+

lemma start_up_okE:
  assumes "start_up be su cfg tuning proxy w = (Inr (Inr (shared, pool)), v)"
  obtains blocks w' where "be_apply be w = (Inr (), w')" "v = w'\<lparr>rw_log := log_info ''routing configured automatically'' (rw_log w')\<rparr>"
    "bypass_routes cfg = Inr blocks" "shared = Shared_new proxy (RouteTable_new blocks)"
    "pool = DnsPool_new proxy (px_connect_timeout proxy) (udp_idle_timeout tuning)"
  using assms unfolding start_up_def install_handlers_def Let_def
  by (auto simp: pio_ok_iff io_simps rt_log_def elim!: pio_bind_okE)

lemma app_start_settings:
  assumes "start_up be su cfg tuning proxy w = (Inr (Inr (shared, pool)), v)"
    and "ProxyConfig_from_config cfg = Inr proxy" and "Config_validate cfg = Inr ()"
  shows "settings_follow cfg (app_start su cfg shared pool v)"
  using assms(1)
  by (rule start_up_okE) (use assms(2,3) in \<open>simp add: settings_follow_def app_start_def Shared_new_def DnsPool_new_def\<close>)

interpretation settings: reload_session rc_reload others "\<lambda>_ _. True" "\<lambda>_. True" cfg
  for rc_reload :: "ReloadPlan \<Rightarrow> (('m, 'k) os_world, unit) io" and cfg
  by unfold_locales simp_all

text \<open>
  C2. The running program refines its abstract view, in which a session is the list of the
  configurations it was given and the one in force is the last that took effect. Between reloads,
  whatever other tasks do and whatever fails, the current configuration is that one, it is a valid
  one, and the proxy used by the relays and by the DNS pool as well as the verdict on every address
  are those it asks for. A reload never panics.
\<close>

theorem settings_refine_session:
  assumes "start_up be su cfg tuning proxy w = (Inr (Inr (shared, pool)), v)"
    and "ProxyConfig_from_config cfg = Inr proxy" and "Config_validate cfg = Inr ()"
    and "events_allowed others events"
    and "main_loop (be_reload be) (su_toml su) (su_env su) events (app_start su cfg shared pool v) = Some (r, a)"
  shows "r = Inr () \<and> ap_cfg a = in_force cfg (ap_history a) \<and> settings_follow (in_force cfg (ap_history a)) a"
proof -
  have "settings.session_ok cfg (app_start su cfg shared pool v)"
    by (rule settings.session_start) (use app_start_settings[OF assms(1-3)] in \<open>simp_all add: app_start_def\<close>)
  from settings.loop_ok[OF assms(4) this assms(5)] show ?thesis by (simp add: settings.session_ok_def)
qed

section \<open>Runs that succeed\<close>

lemma pio_kernel_okE:
  assumes "pio_kernel m w = (Inr (Inr x), w')"
  obtains k where "m (rw_kernel w) = (Inr (Inr x), k)" "w' = w\<lparr>rw_kernel := k\<rparr>"
  using assms by (cases "m (rw_kernel w)") (auto simp: pio_kernel_def)

lemma pio_logE:
  assumes "pio_io (rt_log h) w = (Inr (Inr x), w')"
  obtains "w' = w\<lparr>rw_log := h (rw_log w)\<rparr>"
  using assms by (auto simp: pio_ok_iff rt_log_def io_simps)

lemma pio_liftE:
  assumes "pio_io (io_lift r) w = (Inr (Inr x), w')"
  obtains "w' = w"
  using assms by (auto simp: pio_ok_iff io_simps)

lemma run_okE:
  assumes run: "run be su cfg events w = Some res" and "rr_exit res = Inr (Inr ())"
  obtains tuning proxy rm w' shared pool v a where "prepare be su cfg w = (Inr (Inr (tuning, proxy, rm)), w')"
    "start_up be su cfg tuning proxy (with_self rm w') = (Inr (Inr (shared, pool)), v)"
    "main_loop (be_reload be) (su_toml su) (su_env su) events (app_start su cfg shared pool v) = Some (Inr (), a)"
    "rr_world res = with_self () (snd (be_teardown be (ap_os a)))" "rr_history res = ap_history a"
proof -
  obtain tuning proxy rm w' where prep: "prepare be su cfg w = (Inr (Inr (tuning, proxy, rm)), w')"
    using assms unfolding run_def by (auto split: prod.splits sum.splits)
  obtain shared pool v where up: "start_up be su cfg tuning proxy (with_self rm w') = (Inr (Inr (shared, pool)), v)"
    using assms unfolding run_def prep by (auto split: prod.splits sum.splits)
  show thesis using that[OF prep up] assms by (auto simp: run_def prep up split: option.splits sum.splits)
qed

lemma prepare_okE:
  assumes "prepare be su cfg w = (Inr (Inr (tuning, proxy, rm)), w')"
  obtains name capture k where "ProxyConfig_from_config cfg = Inr proxy"
    "be_new_route_controller be cfg (sock_ip (px_addr proxy)) name capture k = (Inr (Inr rm), rw_kernel w')"
  using assms unfolding prepare_def
  by (elim pio_bind_okE pio_kernel_okE pio_logE pio_liftE) (auto simp: pio_ok_iff io_apply)

section \<open>Routes that follow the configuration\<close>

text \<open>
  A route controller whose settings are kept in its own object. For each of them the routes follow
  the configuration in force as long as no update of the routes has failed.
\<close>

locale managed_routes = route_controller rc_apply rc_reload rc_teardown active proxy_ip bypassed dns_target
  for rc_apply :: "(('m, 'k) os_world, unit) io" and rc_reload rc_teardown active proxy_ip bypassed dns_target +
  assumes self_law: "rw_self s = rw_self t \<Longrightarrow> active s = active t \<and> proxy_ip s = proxy_ip t \<and>
      bypassed s = bypassed t \<and> dns_target s = dns_target t"
begin

lemma follows_self: "rw_self s = rw_self t \<Longrightarrow> follows cfg s = follows cfg t"
  using self_law[of s t] by (simp add: follows_def)

end

sublocale managed_routes \<subseteq> session: reload_session rc_reload others follows "\<lambda>_. True" cfg for cfg
proof (unfold_locales, goal_cases)
  case (2 a a' cfg)
  then show ?case using follows_self[of "ap_os a" "ap_os a'" cfg] by (simp add: others_def)
next
  case (3 cfg os l)
  then show ?case using follows_self[of os "os\<lparr>rw_log := l\<rparr>" cfg] by simp
qed (auto intro: noop_follows reload_follows)

context managed_routes
begin

lemma start_up_follows:
  assumes "start_up be su cfg tuning proxy w = (Inr (Inr (shared, pool)), v)" and "be_apply be = rc_apply"
    and "proxy_socket_addr cfg = Inr a" and "sock_ip a = proxy_ip w"
    and "bypass_routes cfg = Inr (bypassed w)" and "dns_addr cfg = Inr (dns_target w)"
  shows "follows cfg v"
  using assms(1)
proof (rule start_up_okE)
  fix w' assume "be_apply be w = (Inr (), w')"
    and v: "v = w'\<lparr>rw_log := log_info ''routing configured automatically'' (rw_log w')\<rparr>"
  then have "follows cfg w'" using apply_follows[OF _ assms(3-6)] assms(2) by simp
  then show ?thesis using follows_self[of w' v cfg] v by simp
qed

lemma routes_follow_session:
  assumes "settings_follow cfg a" "ap_cfg a = cfg" "ap_history a = []" "follows cfg (ap_os a)"
    and "events_allowed others events" and "main_loop rc_reload tm env events a = Some (r, a')"
    and "\<forall>(c, res) \<in> set (ap_history a'). \<forall>e. res \<noteq> RouteUpdateFailed e"
  shows "follows (in_force cfg (ap_history a')) (ap_os a')"
  using session.loop_ok[OF assms(5) session.session_start[OF assms(1-4)] assms(6)] assms(7)
  by (simp add: session.session_ok_def session.smooth_def)

end

end
