(* ===== verification/Linux_Run.thy ===== *)
theory Linux_Run
  imports Linux_System App_Run
begin

text \<open>
  The program on a Linux host: the Linux backend put into the run of \<open>App_Run\<close>, and that a run
  leaves the host as it found it.
\<close>

section \<open>The backend\<close>

definition linux_backend :: "'k netlink \<Rightarrow> (TunBuilder \<Rightarrow> ('k, unit) io) \<Rightarrow> (RouteManager, 'k) backend" where
  "linux_backend nl try_build =
     \<lparr>be_detect_link = (\<lambda>k. (detect_link nl k, k)),
      be_create_tun = create_tun try_build,
      be_new_route_controller = (\<lambda>cfg proxy_ip name capture k. (new_route_controller nl cfg proxy_ip name capture k, k)),
      be_apply = RouteManager_apply nl,
      be_reload = RouteManager_reload nl,
      be_teardown = RouteManager_teardown nl\<rparr>"

interpretation linux_managed: managed_routes "RouteManager_apply nl" "RouteManager_reload nl"
  "RouteManager_teardown nl" "\<lambda>w. rm_applied (rw_self w)" "\<lambda>w. rm_proxy_ip (rw_self w)"
  "\<lambda>w. rm_bypass (rw_self w)" "\<lambda>w. rm_dns_server (rw_self w)" for nl :: "'k netlink"
  by unfold_locales simp

section \<open>The resolver settings under the route manager\<close>

definition dns_settled :: "bytes \<Rightarrow> 'k rt_world \<Rightarrow> bool" where
  "dns_settled orig w \<longleftrightarrow>
     resolv_settled orig \<lparr>dw_self = rm_dns (rw_self w), dw_fs = rw_fs w, dw_log = rw_log w\<rparr>"

lemma settled_any_log: "resolv_settled orig (d\<lparr>dw_log := l\<rparr>) = resolv_settled orig d"
  by (simp add: resolv_settled_def)

lemma dns_settled_self:
  "rm_dns (h (rw_self w)) = rm_dns (rw_self w) \<Longrightarrow> dns_settled orig (w\<lparr>rw_self := h (rw_self w)\<rparr>) = dns_settled orig w"
  by (simp add: dns_settled_def)

lemma settled_steps [io_keep]:
  "keeps (dns_settled orig) (on_kernel m)"
  "keeps (dns_settled orig) (rt_log h)"
  "(\<And>m. rm_dns (u m) = rm_dns m) \<Longrightarrow> keeps (dns_settled orig) (rt_self u)"
  unfolding on_kernel_def rt_log_def rt_self_def
  by (intro io_keep; simp add: dns_settled_def resolv_settled_def)+

lemma settled_dns [io_keep]:
  "keeps (dns_settled orig) (on_dns (ResolvConf_apply srv))"
  "keeps (dns_settled orig) (on_dns (ResolvConf_reload srv))"
  "keeps (dns_settled orig) (on_dns ResolvConf_restore)"
proof -
  have lift: "keeps (dns_settled orig) (on_dns d)"
    if step: "\<And>w. resolv_settled orig w \<Longrightarrow> \<exists>t. d w = (Inr (), t) \<and> resolv_settled orig t" for d
    unfolding on_dns_def
  proof (rule keeps_zoom)
    fix s :: "'k rt_world" assume "dns_settled orig s"
    then obtain t where "d \<lparr>dw_self = rm_dns (rw_self s), dw_fs = rw_fs s, dw_log = rw_log s\<rparr> = (Inr (), t)"
      "resolv_settled orig t" using step by (auto simp: dns_settled_def)
    then show "dns_settled orig (s\<lparr>rw_self := (rw_self s)\<lparr>rm_dns := dw_self (snd (d \<lparr>dw_self = rm_dns (rw_self s),
        dw_fs = rw_fs s, dw_log = rw_log s\<rparr>))\<rparr>, rw_fs := dw_fs (snd (d \<lparr>dw_self = rm_dns (rw_self s),
        dw_fs = rw_fs s, dw_log = rw_log s\<rparr>)), rw_log := dw_log (snd (d \<lparr>dw_self = rm_dns (rw_self s),
        dw_fs = rw_fs s, dw_log = rw_log s\<rparr>))\<rparr>)"
      by (simp add: dns_settled_def resolv_settled_def)
  qed
  show "keeps (dns_settled orig) (on_dns (ResolvConf_apply srv))"
    by (rule lift) (use apply_settled in blast)
  show "keeps (dns_settled orig) (on_dns (ResolvConf_reload srv))"
    by (rule lift) (use reload_settled in blast)
  show "keeps (dns_settled orig) (on_dns ResolvConf_restore)"
    by (rule lift) (use restore_settled in blast)
qed

lemma settled_requests [io_keep]:
  "keeps (dns_settled orig) (add_via_gateway nl dst p gw oif)"
  "keeps (dns_settled orig) (add_via_tun nl dst p)"
  "keeps (dns_settled orig) (del_or_warn nl label dst p oif g)"
  "keeps (dns_settled orig) (del_via_gateway nl label dst p)"
  "keeps (dns_settled orig) (reload_add_bypass nl blk)"
  "keeps (dns_settled orig) (add_bypass nl blk)"
  "keeps (dns_settled orig) (pin_proxy nl)"
  "keeps (dns_settled orig) (move_proxy nl old_ip new_ip)"
proof -
  show add: "keeps (dns_settled orig) (add_via_gateway nl dst p gw oif)" for dst p gw oif
    by (cases dst; cases gw) (auto simp: add_via_gateway_def intro!: io_keep)
  show del: "keeps (dns_settled orig) (del_or_warn nl label dst p oif g)" for label dst p oif g
    unfolding del_or_warn_def del_route_def by (intro io_keep)
  show "keeps (dns_settled orig) (add_via_tun nl dst p)"
    unfolding add_via_tun_def by (intro io_keep)
  show gw: "keeps (dns_settled orig) (del_via_gateway nl label dst p)" for label dst p
    unfolding del_via_gateway_def by (intro io_keep del)
  show "keeps (dns_settled orig) (reload_add_bypass nl blk)"
    unfolding reload_add_bypass_def by (intro io_keep add)
  show "keeps (dns_settled orig) (add_bypass nl blk)"
    unfolding add_bypass_def by (intro io_keep add)
  show "keeps (dns_settled orig) (pin_proxy nl)"
    unfolding pin_proxy_def by (intro io_keep add)
  show "keeps (dns_settled orig) (move_proxy nl old_ip new_ip)"
    unfolding move_proxy_def by (intro io_keep add gw) simp
qed

lemma settled_apply: "keeps (dns_settled orig) (RouteManager_apply nl)"
  unfolding RouteManager_apply_def read_gateways_def install_routes_def split_def by (intro io_keep) simp_all

lemma settled_reload: "keeps (dns_settled orig) (RouteManager_reload nl plan)"
  unfolding RouteManager_reload_def reload_steps_def split_def by (intro io_keep) simp_all

text \<open>Teardown puts the original file back.\<close>

lemma restored_file:
  "triple (dns_settled orig) (on_dns ResolvConf_restore) (\<lambda>w. fs_files (rw_fs w) RESOLV_CONF_PATH = Some orig)"
  unfolding triple_def
proof (intro allI impI)
  fix w :: "'k rt_world" and x t
  let ?d = "\<lparr>dw_self = rm_dns (rw_self w), dw_fs = rw_fs w, dw_log = rw_log w\<rparr>"
  assume "dns_settled orig w" and run: "on_dns ResolvConf_restore w = (Inr x, t)"
  then obtain d where d: "ResolvConf_restore ?d = (Inr (), d)" "resolv_settled orig d" "rc_current (dw_self d) = None"
    using restore_settled[of orig ?d] by (auto simp: dns_settled_def)
  then have "rw_fs t = dw_fs d" using run by (auto simp: on_dns_def io_zoom_apply)
  then show "fs_files (rw_fs t) RESOLV_CONF_PATH = Some orig" using settled_view[OF d(2)] d(3) by simp
qed

lemma teardown_restores_file:
  assumes "dns_settled orig w" and "rm_applied (rw_self w)" and "RouteManager_teardown nl w = (Inr (), t)"
  shows "fs_files (rw_fs t) RESOLV_CONF_PATH = Some orig"
proof -
  have steps: "teardown_steps nl (rw_self w) (w\<lparr>rw_self := (rw_self w)\<lparr>rm_applied := False\<rparr>\<rparr>) = (Inr (), t)"
    using assms(2,3) by (simp add: RouteManager_teardown_def io_bind_apply io_apply rt_self_def)
  have "triple (dns_settled orig) (teardown_steps nl self) (\<lambda>w. fs_files (rw_fs w) RESOLV_CONF_PATH = Some orig)" for self
    unfolding teardown_steps_def split_def
    apply (rule triple_bind[OF triple_keeps], intro io_keep)
    apply (rule triple_bind[OF triple_keeps], intro io_keep)
    apply (rule triple_bind[OF triple_keeps], intro io_keep)
    apply (rule triple_bind[OF triple_keeps], intro io_keep)
    apply (rule triple_bind[OF triple_keeps], intro io_keep)
    apply (rule restored_file)
    done
  from tripleD[OF this _ steps] show ?thesis using assms(1) by (simp add: dns_settled_def)
qed

section \<open>The host during a session\<close>

text \<open>
  \<open>linux_intact nl fib base orig cfg w\<close>: the manager does what \<open>cfg\<close> says, the table holds the routes
  \<open>base\<close> and otherwise only the manager's, none of \<open>base\<close> has the destination of one of its routes,
  and the resolver file can be put back. \<open>linux_admits base cfg\<close>: the blocks of \<open>cfg\<close> have no bits
  beyond their prefix, and no route in \<open>base\<close> has the destination of a route \<open>cfg\<close> asks for.
\<close>

definition own_blocks :: "IpAddr \<Rightarrow> CidrList \<Rightarrow> (IpAddr \<times> u8) set" where
  "own_blocks proxy blocks = insert (proxy, host_prefix proxy) (set blocks \<union> set split_blocks)"

definition linux_intact :: "'k netlink \<Rightarrow> ('k \<Rightarrow> route set) \<Rightarrow> route set \<Rightarrow> bytes \<Rightarrow> Config \<Rightarrow> 'k rt_world \<Rightarrow> bool" where
  "linux_intact nl fib base orig cfg w \<longleftrightarrow> netlink_ok nl fib \<and>
     linux_routes.follows cfg w \<and> within base (rw_self w) (fib (rw_kernel w)) \<and>
     free_of base (own_blocks (rm_proxy_ip (rw_self w)) (rm_bypass (rw_self w))) \<and> dns_settled orig w"

definition linux_admits :: "route set \<Rightarrow> Config \<Rightarrow> bool" where
  "linux_admits base cfg \<longleftrightarrow> (\<exists>a bs. proxy_socket_addr cfg = Inr a \<and> bypass_routes cfg = Inr bs \<and>
     list_all aligned bs \<and> free_of base (own_blocks (sock_ip a) bs))"

text \<open>The other tasks, and whoever edits the configuration file, leave routes and resolver settings alone.\<close>

definition linux_env :: "('k \<Rightarrow> route set) \<Rightarrow> (RouteManager, 'k) app \<Rightarrow> (RouteManager, 'k) app \<Rightarrow> bool" where
  "linux_env fib a a' \<longleftrightarrow> others a a' \<and> fib (rw_kernel (ap_os a')) = fib (rw_kernel (ap_os a)) \<and>
     fs_files (rw_fs (ap_os a')) RESOLV_CONF_PATH = fs_files (rw_fs (ap_os a)) RESOLV_CONF_PATH \<and>
     (fs_healthy (rw_fs (ap_os a)) \<longrightarrow> fs_healthy (rw_fs (ap_os a')))"

lemma follows_settings:
  assumes "linux_routes.follows cfg w" and "proxy_socket_addr cfg = Inr a" and "bypass_routes cfg = Inr bs"
  shows "rm_applied (rw_self w)" "sock_ip a = rm_proxy_ip (rw_self w)" "set bs = set (rm_bypass (rw_self w))"
  using assms by (auto simp: linux_routes.follows_def)

lemma computed_plan_fits:
  assumes "linux_routes.follows old w" and "ReloadPlan_compute old new = Inr plan" and "linux_admits base new"
    and "free_of base (own_blocks (rm_proxy_ip (rw_self w)) (rm_bypass (rw_self w)))"
  shows "plan_fits (rm_proxy_ip (rw_self w)) (rm_bypass (rw_self w)) plan"
    and "free_of base (insert (pinned (rw_self w)) (plan_blocks plan))"
    and "list_all aligned (pl_bypass_add plan)"
proof -
  obtain ob nb oa na px od nd where acc: "bypass_routes old = Inr ob" "bypass_routes new = Inr nb"
    "proxy_socket_addr old = Inr oa" "proxy_socket_addr new = Inr na"
    and plan: "plan = \<lparr>pl_proxy = px, pl_route_table = RouteTable_new nb, pl_new_bypass = nb,
       pl_bypass_add = fst (diff_cidrs ob nb), pl_bypass_remove = snd (diff_cidrs ob nb),
       pl_dns = nd, pl_dns_changed = (od \<noteq> nd),
       pl_proxy_route_change =
         (if sock_ip oa \<noteq> sock_ip na then Some (sock_ip oa, sock_ip na) else None),
       pl_proxy_changed = (oa \<noteq> na \<or> username old \<noteq> username new \<or> password old \<noteq> password new)\<rparr>"
    using assms(2) by (rule ReloadPlan_computeE) blast
  note s = follows_settings[OF assms(1) acc(3,1)]
  have n: "list_all aligned nb" "free_of base (own_blocks (sock_ip na) nb)"
    using assms(3) acc(2,4) by (auto simp: linux_admits_def)
  have diff: "set (fst (diff_cidrs ob nb)) = set nb - set ob" "set (snd (diff_cidrs ob nb)) = set ob - set nb"
    by (auto simp: diff_cidrs_def)
  show "plan_fits (rm_proxy_ip (rw_self w)) (rm_bypass (rw_self w)) plan"
    using s n(1) diff by (auto simp: plan_fits_def plan)
  show "free_of base (insert (pinned (rw_self w)) (plan_blocks plan))"
    using s n(2) diff assms(4) by (auto simp: plan plan_blocks_def free_of_def own_blocks_def pinned_def)
  show "list_all aligned (pl_bypass_add plan)"
    using n(1) diff by (auto simp: plan list_all_iff)
qed

lemma intact_free:
  assumes "linux_routes.follows cfg w" and "linux_admits base cfg"
  shows "free_of base (own_blocks (rm_proxy_ip (rw_self w)) (rm_bypass (rw_self w)))"
proof -
  obtain a bs where "proxy_socket_addr cfg = Inr a" "bypass_routes cfg = Inr bs" "free_of base (own_blocks (sock_ip a) bs)"
    using assms(2) by (auto simp: linux_admits_def)
  then show ?thesis using follows_settings[OF assms(1)] by (auto simp: own_blocks_def)
qed

lemma intact_after_reload:
  assumes "linux_intact nl fib base orig old w" and plan: "ReloadPlan_compute old new = Inr plan"
    and "linux_admits base new" and run: "RouteManager_reload nl plan w = (Inr (), t)"
  shows "linux_intact nl fib base orig new t"
proof -
  have w: "netlink_ok nl fib" "linux_routes.follows old w" "within base (rw_self w) (fib (rw_kernel w))"
    "free_of base (own_blocks (rm_proxy_ip (rw_self w)) (rm_bypass (rw_self w)))" "dns_settled orig w"
    using assms(1) by (simp_all add: linux_intact_def)
  note fits = computed_plan_fits[OF w(2) plan assms(3) w(4)]
  have up: "rm_applied (rw_self w)" using w(2) by (simp add: linux_routes.follows_def)
  note after = reload_run[OF w(1) fits(3) up run]
  have "linux_routes.follows new t" by (rule linux_routes.reload_follows[OF w(2) plan run])
  moreover have "within base (rw_self t) (fib (rw_kernel t))"
    using reload_within[OF w(3) fits(1,2)] within_frame[OF after(2)] after(1) by simp
  moreover have "dns_settled orig t" by (rule keepsD[OF settled_reload w(5) run])
  ultimately show ?thesis using w(1) intact_free assms(3) by (simp add: linux_intact_def)
qed

interpretation linux_host: reload_session "RouteManager_reload nl" "linux_env fib" "linux_intact nl fib base orig"
  "linux_admits base" cfg for nl :: "'k netlink" and fib base orig cfg
proof (unfold_locales, goal_cases)
  case (1 a a')
  then show ?case by (simp add: linux_env_def)
next
  case (2 a a' cfg)
  then have "rw_self (ap_os a') = rw_self (ap_os a)" "dns_settled orig (ap_os a) \<Longrightarrow> dns_settled orig (ap_os a')"
    by (simp_all add: linux_env_def others_def dns_settled_def resolv_settled_def)
  then show ?case using 2 linux_managed.follows_self[of "ap_os a'" "ap_os a" cfg]
    by (simp add: linux_intact_def linux_env_def)
next
  case (3 cfg os l)
  then show ?case using linux_managed.follows_self[of "os\<lparr>rw_log := l\<rparr>" os cfg]
    by (simp add: linux_intact_def dns_settled_def resolv_settled_def)
next
  case (4 old os new plan)
  then have "linux_routes.follows new os" using linux_routes.noop_follows by (auto simp: linux_intact_def)
  then show ?case using 4 by (simp add: linux_intact_def)
next
  case (5 old os new plan os')
  show ?case by (rule intact_after_reload[OF 5])
qed

section \<open>The whole run\<close>

definition tuned :: "'k netlink \<Rightarrow> surroundings \<Rightarrow> (unit, 'k) os_world \<Rightarrow> Tuning" where
  "tuned nl su w = Tuning_compute (probe (detect_link nl (rw_kernel w)) (rw_fs w) (su_rlimit su))"

lemma prepare_linuxE:
  assumes "prepare (linux_backend nl try_build) su cfg w = (Inr (Inr (tuning, proxy, rm)), w')"
  obtains device where "tuning = tuned nl su w" "ProxyConfig_from_config cfg = Inr proxy"
    "create_tun try_build cfg (tn_mtu tuning) (rw_kernel w) = (Inr (Inr device), rw_kernel w')"
    "new_route_controller nl cfg (sock_ip (px_addr proxy)) (tun_device_name device) (capture_ipv6 tuning) (rw_kernel w') =
       Inr (Inr rm)"
    "rw_fs w' = rw_fs w"
  using assms unfolding prepare_def
  by (elim pio_bind_okE pio_kernel_okE pio_logE pio_liftE)
    (auto simp: pio_ok_iff io_apply linux_backend_def tuned_def)

lemma new_controller_fields:
  assumes "new_route_controller nl cfg ip name capture k = Inr (Inr rm)"
  shows "rm_proxy_ip rm = ip" "bypass_routes cfg = Inr (rm_bypass rm)" "dns_addr cfg = Inr (rm_dns_server rm)"
    "rm_dns rm = ResolvConf_system"
  using assms
  by (auto simp: new_route_controller_def RouteManager_new_def bind_panic_Inr_iff bind_res_Inr_iff split: sum.splits)

text \<open>The host once the routes are up.\<close>

lemma start_up_intact:
  assumes ok: "netlink_ok nl fib" and valid: "Config_validate cfg = Inr ()"
    and prep: "prepare (linux_backend nl try_build) su cfg w = (Inr (Inr (tuning, proxy, rm)), w')"
    and fresh: "fs_healthy (rw_fs w)" "fs_files (rw_fs w) RESOLV_CONF_PATH = Some orig"
    and up: "start_up (linux_backend nl try_build) su cfg tuning proxy (with_self rm w') = (Inr (Inr (shared, pool)), v)"
    and admits: "linux_admits (fib (rw_kernel w')) cfg"
  shows "settings_follow cfg (app_start su cfg shared pool v)"
    and "linux_intact nl fib (fib (rw_kernel w')) orig cfg v"
proof -
  obtain device :: TunDevice where p: "ProxyConfig_from_config cfg = Inr proxy" "rw_fs w' = rw_fs w"
    "new_route_controller nl cfg (sock_ip (px_addr proxy)) (tun_device_name device) (capture_ipv6 tuning) (rw_kernel w') =
       Inr (Inr rm)"
    using prep by (rule prepare_linuxE) blast
  show "settings_follow cfg (app_start su cfg shared pool v)" by (rule app_start_settings[OF up p(1) valid])
  note rm = new_controller_fields[OF p(3)]
  obtain a where a: "proxy_socket_addr cfg = Inr a" "sock_ip a = sock_ip (px_addr proxy)"
    using p(1) by (auto simp: ProxyConfig_from_config_def bind_panic_Inr_iff)
  have follows: "linux_routes.follows cfg v"
    by (rule linux_managed.start_up_follows[OF up _ a(1)]) (use a rm in \<open>simp_all add: linux_backend_def with_self_def\<close>)
  have settled: "dns_settled orig (with_self rm w')"
    using fresh_dns_settled[OF fresh] by (simp add: dns_settled_def with_self_def rm(4) p(2))
  have blocks: "list_all aligned (rm_bypass rm)" "free_of (fib (rw_kernel w')) (own_blocks (rm_proxy_ip rm) (rm_bypass rm))"
    using admits a rm(1,2) by (auto simp: linux_admits_def)
  show "linux_intact nl fib (fib (rw_kernel w')) orig cfg v"
    using up
  proof (rule start_up_okE)
    fix t assume t: "be_apply (linux_backend nl try_build) (with_self rm w') = (Inr (), t)"
      and v: "v = t\<lparr>rw_log := log_info ''routing configured automatically'' (rw_log t)\<rparr>"
    then have run: "RouteManager_apply nl (with_self rm w') = (Inr (), t)" by (simp add: linux_backend_def)
    have "within (fib (rw_kernel w')) (rw_self t) (fib (rw_kernel t))"
      using apply_within[OF ok _ run] blocks by (simp add: with_self_def own_blocks_def pinned_def)
    moreover have "dns_settled orig v"
      using keepsD[OF settled_apply settled run] by (simp add: v dns_settled_def resolv_settled_def)
    ultimately show ?thesis using ok follows intact_free[OF follows admits] by (simp add: linux_intact_def v)
  qed
qed

lemma teardown_leaves_host:
  assumes "linux_intact nl fib base orig cfg w" and "RouteManager_teardown nl w = (r, t)"
  shows "fib (rw_kernel t) = base" "fs_files (rw_fs t) RESOLV_CONF_PATH = Some orig"
proof -
  have "r = Inr ()" using teardown_inactive[of nl w] assms(2) by auto
  note run = assms(2)[unfolded this]
  have w: "netlink_ok nl fib" "within base (rw_self w) (fib (rw_kernel w))" "dns_settled orig w" "rm_applied (rw_self w)"
    "free_of base (insert (pinned (rw_self w)) (set (rm_bypass (rw_self w)) \<union> set split_blocks))"
    using assms(1) by (simp_all add: linux_intact_def own_blocks_def pinned_def linux_routes.follows_def)
  show "fib (rw_kernel t) = base" by (rule teardown_restores_base[OF w(1,4,2,5) run])
  show "fs_files (rw_fs t) RESOLV_CONF_PATH = Some orig" by (rule teardown_restores_file[OF w(3,4) run])
qed


section \<open>Start-up that fails late\<close>

lemma start_up_after_apply:
  assumes "be_apply be w = (Inr (), t)" and "start_up be su cfg tuning proxy w = (r, v)"
  shows "rw_kernel v = rw_kernel t" "rw_fs v = rw_fs t" "rw_self v = rw_self t"
  using assms unfolding start_up_def install_handlers_def Let_def
  by (auto simp: pio_bind_def pio_io_def pio_panic_def rt_log_def io_apply split: prod.splits sum.splits)


end
