(* ===== verification/Linux_Examples.thy ===== *)
theory Linux_Examples
  imports Linux_Run
begin

text \<open>
  A small Linux host on which the program starts, reloads and stops, evaluated step by step: the
  hypotheses of the properties of runs hold there.
\<close>

section \<open>A run\<close>

text \<open>
  A host with a default route and a resolver file. The program starts with the override of the
  resolver switched off, is told to reload, reads the default configuration, which switches it on,
  and is told to stop.
\<close>

definition example_surroundings :: surroundings where
  "example_surroundings =
     \<lparr>su_env = (\<lambda>_. None),
      su_toml = \<lparr>toml_from_str = (\<lambda>_. Inr Config_default), toml_to_string_pretty = (\<lambda>_. Inl [''not used''])\<rparr>,
      su_rlimit = \<lparr>rl_current = None, rl_maximum = None, rl_settable = False\<rparr>,
      su_connect = (\<lambda>_. Some (Inr ())), su_netstack = Inr (), su_tcp_listener = Some (), su_udp_socket = Some (),
      su_sigint = Inr (), su_sigterm = Inr (), su_sighup = Inr (),
      su_net = (\<lambda>_. \<lparr>socks5_connect = (\<lambda>_ _ _. NoAnswer), set_nodelay = (\<lambda>_ s. (None, s)),
        set_recv_buffer_size = (\<lambda>_ s. (None, s)), set_send_buffer_size = (\<lambda>_ s. (None, s))\<rparr>)\<rparr>"

abbreviation example_host :: "(unit, route list) os_world" where
  "example_host \<equiv> \<lparr>rw_self = (), rw_kernel = [Route (V4 0) 0 (Some (V4 0x0a090901)) 2],
     rw_fs = (host_fs [] (Some [1, 2]))\<lparr>fs_files := [RESOLV_CONF_PATH \<mapsto> [1, 2], system_config_path \<mapsto> []]\<rparr>,
     rw_log = Logger_new False\<rparr>"

abbreviation example_linux :: "(RouteManager, route list) backend" where
  "example_linux \<equiv> linux_backend (example_netlink []) (\<lambda>_. io_return ())"

abbreviation example_local_proxy :: ProxyConfig where
  "example_local_proxy \<equiv> \<lparr>px_addr = SockV4 0x7f000001 1080, px_username = None, px_password = None,
     px_connect_timeout = DEFAULT_CONNECT_TIMEOUT, px_tcp_nodelay = True\<rparr>"

abbreviation example_rm :: RouteManager where
  "example_rm \<equiv> (example_manager [])\<lparr>rm_proxy_ip := V4 0x7f000001\<rparr>"

lemma example_accessors:
  "ProxyConfig_from_config cfg_no_dns = Inr example_local_proxy"
  "ProxyConfig_from_config Config_default = Inr example_local_proxy"
  "dns_addr cfg_no_dns = Inr None" "dns_addr Config_default = Inr (Some (V4 0x01010101))"
  "bypass_routes cfg_no_dns = Inr []" "bypass_routes Config_default = Inr []"
  "proxy_socket_addr cfg_no_dns = Inr (SockV4 0x7f000001 1080)"
  "proxy_socket_addr Config_default = Inr (SockV4 0x7f000001 1080)"
  "metrics_socket_addr cfg_no_dns = Inr None" "tun_ipv4 cfg_no_dns = Inr 0x0a000001"
  by (simp_all add: ProxyConfig_from_config_def dns_addr_def bypass_routes_def metrics_socket_addr_def tun_ipv4_def
      proxy_socket_addr_def Config_default_def default_override_dns_def default_dns_server_def
      default_bypass_cidrs_def default_parses)

lemma tun_literals: "parse_ipv4 TUN_PEER_ADDR = Inr 0x0a000002" "parse_ipv4 TUN_NETMASK = Inr 0xffffff00"
proof -
  have "show_ipv4 0x0a000002 = TUN_PEER_ADDR" "show_ipv4 0xffffff00 = TUN_NETMASK"
    unfolding TUN_PEER_ADDR_def TUN_NETMASK_def by code_simp+
  then show "parse_ipv4 TUN_PEER_ADDR = Inr 0x0a000002" "parse_ipv4 TUN_NETMASK = Inr 0xffffff00"
    by (metis parse_ipv4_show)+
qed

lemma example_capture: "capture_ipv6 (tuned (example_netlink []) example_surroundings example_host) = False"
  by (simp add: tuned_def Tuning_compute_def Let_def probe_def detect_link_def detect_link_inner_def nl_connect_def
      gather_def example_netlink_def read_link_mtu_def)

lemma example_prepare:
  "\<exists>l. prepare example_linux example_surroundings cfg_no_dns example_host =
     (Inr (Inr (tuned (example_netlink []) example_surroundings example_host, example_local_proxy, example_rm)),
      example_host\<lparr>rw_log := l\<rparr>)"
  using example_capture
  by (simp add: prepare_def pio_bind_def pio_kernel_def pio_io_def pio_panic_def rt_log_def io_apply
      linux_backend_def tuned_def example_accessors probe_proxy_def create_tun_def tun_literals
      new_route_controller_def nl_connect_def RouteManager_new_def resolve_link_index_def io_context_def expect_def
      example_netlink_def[of "[]"] example_surroundings_def)

lemma example_start_up:
  "\<exists>l. start_up example_linux example_surroundings cfg_no_dns tn example_local_proxy
       (with_self example_rm (example_host\<lparr>rw_log := l0\<rparr>)) =
     (Inr (Inr (Shared_new example_local_proxy (RouteTable_new []),
        DnsPool_new example_local_proxy DEFAULT_CONNECT_TIMEOUT (udp_idle_timeout tn))),
      \<lparr>rw_self = example_rm\<lparr>rm_v4_gateway := Some (0x0a090901, 2), rm_applied := True\<rparr>,
       rw_kernel = [Route (V4 0x80000000) 1 None 7, Route (V4 0) 1 None 7,
         Route (V4 0x7f000001) 32 (Some (V4 0x0a090901)) 2, Route (V4 0) 0 (Some (V4 0x0a090901)) 2],
       rw_fs = rw_fs example_host, rw_log = l\<rparr>)"
  by (simp add: start_up_def install_handlers_def pio_bind_def pio_io_def pio_panic_def io_apply linux_backend_def example_accessors
      with_self_def example_run ShutdownSignal_new_def ReloadSignal_new_def example_surroundings_def Let_def)

lemma example_plan_default:
  "\<exists>plan. ReloadPlan_compute cfg_no_dns Config_default = Inr plan \<and> pl_proxy plan = example_local_proxy \<and>
     pl_route_table plan = RouteTable_new [] \<and> pl_new_bypass plan = [] \<and> pl_bypass_add plan = [] \<and> pl_bypass_remove plan = [] \<and>
     pl_dns plan = Some (V4 0x01010101) \<and> pl_dns_changed plan \<and> pl_proxy_route_change plan = None \<and> \<not> pl_proxy_changed plan"
  by (simp add: ReloadPlan_compute_def example_accessors diff_cidrs_def)

lemma example_file: "reload_config (su_toml example_surroundings) (su_env example_surroundings) (rw_fs example_host) = Inr Config_default"
  using Config_default_valid
  by (simp add: reload_config_def existing_config_path_def fs_exists_def read_config_def fs_read_to_string_def
      fs_read_def example_surroundings_def)

lemma example_update:
  assumes "pl_proxy_route_change plan = None" "pl_bypass_add plan = []" "pl_bypass_remove plan = []" "pl_dns_changed plan"
    and "pl_dns plan = Some d" and "rw_fs w = rw_fs example_host" and "rm_applied (rw_self w)" and "rm_dns (rw_self w) = ResolvConf_system"
  shows "\<exists>t. RouteManager_reload (example_netlink []) plan w = (Inr (), t)"
  using assms
  by (simp add: RouteManager_reload_def reload_steps_def io_simps rt_self_def on_dns_def ResolvConf_reload_def
      resolv_defs ResolvConf_system_def ResolvConf_new_def fs_read_def fs_write_def fs_exists_def)

lemma example_reload:
  assumes "ap_cfg a = cfg_no_dns" "ap_history a = []" "rw_fs (ap_os a) = rw_fs example_host"
    "rm_applied (rw_self (ap_os a))" "rm_dns (rw_self (ap_os a)) = ResolvConf_system"
  shows "\<exists>a'. run_among (replicate 13 id) (apply_reload (RouteManager_reload (example_netlink []))
      (su_toml example_surroundings) (su_env example_surroundings)) a = Some (Inr (), a') \<and>
    ap_history a' = [(Config_default, Reloaded)]"
proof -
  obtain plan where plan: "ReloadPlan_compute cfg_no_dns Config_default = Inr plan"
    "pl_bypass_add plan = []" "pl_bypass_remove plan = []" "pl_dns plan = Some (V4 0x01010101)" "pl_dns_changed plan"
    "pl_proxy_route_change plan = None" "\<not> pl_proxy_changed plan"
    using example_plan_default by blast
  obtain t where t: "RouteManager_reload (example_netlink []) plan (ap_os a) = (Inr (), t)"
    using example_update[of plan "V4 0x01010101" "ap_os a"] plan assms by blast
  have "\<not> is_noop plan" "immutable_changes cfg_no_dns Config_default = []"
    using plan by (simp_all add: is_noop_def immutable_changes_def)
  then show ?thesis
    using plan t assms example_file
    by (simp add: numeral_eq_Suc apply_reload_def reload_to_def reload_routes_def commit_reload_def
        on_routes_def task_bind_load task_bind_update task_bind_atomic)
qed

lemma example_linux_run:
  "\<exists>res. run example_linux example_surroundings cfg_no_dns
       [([], ReloadRequested (replicate 13 id)), ([], ShutdownRequested)] example_host = Some res \<and>
     rr_exit res = Inr (Inr ()) \<and> rr_history res = [(Config_default, Reloaded)]"
proof -
  let ?tn = "tuned (example_netlink []) example_surroundings example_host"
  obtain l0 where prep: "prepare example_linux example_surroundings cfg_no_dns example_host =
     (Inr (Inr (?tn, example_local_proxy, example_rm)), example_host\<lparr>rw_log := l0\<rparr>)"
    using example_prepare by blast
  obtain l where up: "start_up example_linux example_surroundings cfg_no_dns ?tn example_local_proxy
       (with_self example_rm (example_host\<lparr>rw_log := l0\<rparr>)) =
     (Inr (Inr (Shared_new example_local_proxy (RouteTable_new []),
        DnsPool_new example_local_proxy DEFAULT_CONNECT_TIMEOUT (udp_idle_timeout ?tn))),
      \<lparr>rw_self = example_rm\<lparr>rm_v4_gateway := Some (0x0a090901, 2), rm_applied := True\<rparr>,
       rw_kernel = [Route (V4 0x80000000) 1 None 7, Route (V4 0) 1 None 7,
         Route (V4 0x7f000001) 32 (Some (V4 0x0a090901)) 2, Route (V4 0) 0 (Some (V4 0x0a090901)) 2],
       rw_fs = rw_fs example_host, rw_log = l\<rparr>)" (is "_ = (Inr (Inr (?sh, ?pool)), ?v)")
    using example_start_up by blast
  obtain a where a: "run_among (replicate 13 id) (apply_reload (RouteManager_reload (example_netlink []))
      (su_toml example_surroundings) (su_env example_surroundings)) (app_start example_surroundings cfg_no_dns ?sh ?pool ?v) =
        Some (Inr (), a)" "ap_history a = [(Config_default, Reloaded)]"
    using example_reload[of "app_start example_surroundings cfg_no_dns ?sh ?pool ?v"] by (auto simp: app_start_def)
  have be: "be_reload example_linux = RouteManager_reload (example_netlink [])" by (simp add: linux_backend_def)
  show ?thesis unfolding run_def prep up prod.case sum.case be main_loop.simps fold_simps Let_def signal.case a(1) option.case
    using a(2) by simp
qed


abbreviation example_app :: "Logger \<Rightarrow> (RouteManager, route list) app" where
  "example_app l \<equiv> app_start example_surroundings cfg_no_dns (Shared_new example_local_proxy (RouteTable_new []))
     (DnsPool_new example_local_proxy DEFAULT_CONNECT_TIMEOUT 60)
     \<lparr>rw_self = example_rm\<lparr>rm_v4_gateway := Some (0x0a090901, 2), rm_applied := True\<rparr>,
      rw_kernel = [Route (V4 0x80000000) 1 None 7, Route (V4 0) 1 None 7,
        Route (V4 0x7f000001) 32 (Some (V4 0x0a090901)) 2, Route (V4 0) 0 (Some (V4 0x0a090901)) 2],
      rw_fs = rw_fs example_host, rw_log = l\<rparr>"


theorem settings_refine_session_witness:
  "\<exists>l a. main_loop (be_reload example_linux) (su_toml example_surroundings) (su_env example_surroundings)
       [([], ReloadRequested (replicate 13 id)), ([], ShutdownRequested)] (example_app l) = Some (Inr (), a) \<and>
     settings_follow Config_default a"
proof -
  let ?events = "[([], ReloadRequested (replicate 13 id)), ([], ShutdownRequested)] :: (RouteManager, route list) app event list"
  let ?tn = "tuned (example_netlink []) example_surroundings example_host"
  have idle: "udp_idle_timeout ?tn = 60" by (simp add: tuned_def Tuning_compute_def Let_def UDP_IDLE_TIMEOUT_def)
  obtain l where up: "start_up example_linux example_surroundings cfg_no_dns ?tn example_local_proxy
       (with_self example_rm (example_host\<lparr>rw_log := Logger_new False\<rparr>)) =
     (Inr (Inr (Shared_new example_local_proxy (RouteTable_new []),
        DnsPool_new example_local_proxy DEFAULT_CONNECT_TIMEOUT 60)), ap_os (example_app l))"
    using example_start_up[of ?tn "Logger_new False"] unfolding idle by (auto simp: app_start_def)
  obtain a where a: "run_among (replicate 13 id) (apply_reload (RouteManager_reload (example_netlink []))
      (su_toml example_surroundings) (su_env example_surroundings)) (example_app l) = Some (Inr (), a)"
      "ap_history a = [(Config_default, Reloaded)]"
    using example_reload[of "example_app l"] by (auto simp: app_start_def)
  have loop: "main_loop (be_reload example_linux) (su_toml example_surroundings) (su_env example_surroundings) ?events
      (example_app l) = Some (Inr (), app_log (log_info ''shutting down'') a)"
    using a(1) by (simp add: linux_backend_def)
  have "events_allowed others ?events" by (simp add: events_allowed_def allowed_by_def others_def)
  from settings_refine_session[OF up example_accessors(1) cfg_no_dns_valid this, of "Inr ()" "app_log (log_info ''shutting down'') a"]
  have "settings_follow Config_default (app_log (log_info ''shutting down'') a)"
    using loop a(2) by (simp add: app_start_def in_force_def)
  then show ?thesis using loop by blast
qed

abbreviation no_sighup :: surroundings where
  "no_sighup \<equiv> example_surroundings\<lparr>su_sighup := Inl [''refused'']\<rparr>"


end
