(* ===== verification/Tcp.thy ===== *)
theory Tcp
  imports Socks Reload Rust_Env Stats Logging
begin

text \<open>
  The TCP side of \<^verbatim>\<open>src/lib.rs\<close>: the task that accepts connections from the stack and
  waits for a permit before it starts a relay, the relays, and the bridge between the TUN device and
  the stack. What runs between two suspension points is one operation; any relay may take the next
  turn. A stream through the proxy is opened by the \<open>tcp_connect\<close> of the SOCKS5 client, whose
  environment may answer differently each time.
\<close>

section \<open>The state\<close>

datatype relay_phase = RelaySpawned | RelayConnecting | RelayCopying | RelayDone

record relay =
  rl_src :: SocketAddr
  rl_dst :: SocketAddr
  rl_proxy :: ProxyConfig
  rl_routes :: RouteTable
  rl_phase :: relay_phase

datatype acceptor = Accepting | WaitingForPermit SocketAddr SocketAddr | AcceptorGone

record tcp_world =
  tw_acceptor :: acceptor
  tw_permits :: nat
  tw_relays :: "relay list"
  tw_shared :: Shared
  tw_stats :: stats
  tw_log :: Logger

definition tcp_init :: "nat \<Rightarrow> Shared \<Rightarrow> Logger \<Rightarrow> tcp_world" where
  "tcp_init max_tcp_connections shared log =
     \<lparr>tw_acceptor = Accepting, tw_permits = max_tcp_connections, tw_relays = [], tw_shared = shared,
      tw_stats = stats_init, tw_log = log\<rparr>"

definition tcp_count :: "(stats \<Rightarrow> stats) \<Rightarrow> tcp_world \<Rightarrow> tcp_world" where
  "tcp_count f w = w\<lparr>tw_stats := f (tw_stats w)\<rparr>"

definition tcp_debug :: "(unit \<Rightarrow> string) \<Rightarrow> tcp_world \<Rightarrow> tcp_world" where
  "tcp_debug m w = w\<lparr>tw_log := log_debug m (tw_log w)\<rparr>"

definition relay_goes :: "nat \<Rightarrow> relay_phase \<Rightarrow> tcp_world \<Rightarrow> tcp_world" where
  "relay_goes i ph w = w\<lparr>tw_relays := (tw_relays w)[i := (tw_relays w ! i)\<lparr>rl_phase := ph\<rparr>]\<rparr>"

section \<open>Accepting\<close>

text \<open>
  The acceptor takes one connection at a time and holds it until a permit is free; the settings are
  loaded once the permit is there. The semaphore is never closed, so acquiring a permit does not fail.
\<close>

definition tcp_incoming :: "SocketAddr \<Rightarrow> SocketAddr \<Rightarrow> tcp_world \<Rightarrow> tcp_world" where
  "tcp_incoming src dst w = w\<lparr>tw_acceptor := WaitingForPermit src dst\<rparr>"

definition tcp_spawn :: "SocketAddr \<Rightarrow> SocketAddr \<Rightarrow> tcp_world \<Rightarrow> tcp_world" where
  "tcp_spawn src dst w =
     w\<lparr>tw_permits := tw_permits w - 1,
       tw_relays := tw_relays w @
         [\<lparr>rl_src = src, rl_dst = dst, rl_proxy = sh_proxy (tw_shared w),
           rl_routes = sh_routes (tw_shared w), rl_phase = RelaySpawned\<rparr>],
       tw_acceptor := Accepting\<rparr>"

definition tcp_listener_closed :: "tcp_world \<Rightarrow> tcp_world" where
  "tcp_listener_closed w =
     w\<lparr>tw_acceptor := AcceptorGone,
       tw_log := log_warn ''TCP listener closed unexpectedly'' (tw_log w)\<rparr>"

section \<open>Relaying\<close>

definition is_handshake_failure :: "error \<Rightarrow> bool" where
  "is_handshake_failure err =
     (let text = to_lowercase (display_chain err) in
      str_contains text ''socks'' \<or> str_contains text ''authentication'' \<or>
      str_contains text ''handshake'')"

definition relay_label :: "relay \<Rightarrow> string" where
  "relay_label r = ''tcp '' @ show_socket_addr (rl_src r) @ '' -> '' @ show_socket_addr (rl_dst r)"

definition relay_begin :: "nat \<Rightarrow> tcp_world \<Rightarrow> tcp_world" where
  "relay_begin i w =
     (let r = tw_relays w ! i in
      relay_goes i RelayConnecting
        (tcp_debug (\<lambda>_. relay_label r)
          (tcp_count (case RouteTable_decide (rl_routes r) (sock_ip (rl_dst r)) of
                        Direct \<Rightarrow> stats_inc ROUTE_DIRECT
                      | Proxy \<Rightarrow> stats_inc ROUTE_PROXY)
            (tcp_count (GaugeGuard_new TCP_ACTIVE)
              (tcp_count (stats_inc TCP_OPENED) w)))))"

text \<open>Leaving the function drops the guard of the gauge; the task then drops its permit.\<close>

definition relay_leave :: "nat \<Rightarrow> tcp_world \<Rightarrow> tcp_world" where
  "relay_leave i w =
     (let w = tcp_count (GaugeGuard_drop TCP_ACTIVE) w in
      relay_goes i RelayDone (w\<lparr>tw_permits := tw_permits w + 1\<rparr>))"

definition relay_connected :: "'s socket_env \<Rightarrow> nat \<Rightarrow> tcp_world \<Rightarrow> tcp_world" where
  "relay_connected env i w =
     (let r = tw_relays w ! i in
      case tcp_connect env (rl_proxy r) (rl_dst r) of
        Inr _ \<Rightarrow> relay_goes i RelayCopying w
      | Inl e \<Rightarrow>
          (let w = tcp_count (stats_inc TCP_CLOSED) w;
               w = tcp_count (stats_inc TCP_ERRORS) w;
               w = tcp_count (stats_inc CONN_FAILURES) w;
               w = (if is_handshake_failure e then tcp_count (stats_inc SOCKS_HANDSHAKE_FAILURES) w else w);
               w = tcp_debug (\<lambda>_. relay_label r @ '' connect failed: '' @ display_error e) w
           in relay_leave i w))"

definition relay_copied :: "string + u64 \<times> u64 \<Rightarrow> nat \<Rightarrow> tcp_world \<Rightarrow> tcp_world" where
  "relay_copied copied i w =
     (let r = tw_relays w ! i;
          w = tcp_count (stats_inc TCP_CLOSED) w
      in case (case copied of Inl m \<Rightarrow> Inl [''relay I/O error'', m] | Inr n \<Rightarrow> Inr n) of
           Inr (tx, rx) \<Rightarrow>
             (let w = tcp_count (stats_add BYTES_TX tx) w;
                  w = tcp_count (stats_add BYTES_RX rx) w;
                  w = tcp_count (record_traffic (sock_ip (rl_dst r)) (tx + rx)) w
              in relay_leave i w)
         | Inl e \<Rightarrow>
             (let w = tcp_count (stats_inc TCP_ERRORS) w;
                  w = tcp_debug (\<lambda>_. relay_label r @ '' ended: '' @ display_error e) w
              in relay_leave i w))"

section \<open>The bridge\<close>

text \<open>
  Each direction is a loop over what its source yields. An item is paired with whether the other side
  accepts it; the value is what was passed on. A read fills a buffer of \<open>mtu\<close> bytes.
\<close>

fun bridge_downlink :: "((string + bytes) \<times> bool) list \<Rightarrow> bytes list" where
  "bridge_downlink [] = []"
| "bridge_downlink ((Inl _, _) # _) = []"
| "bridge_downlink ((Inr pkt, accepted) # items) = (if accepted then pkt # bridge_downlink items else [])"

fun bridge_uplink :: "nat \<Rightarrow> ((string + bytes) \<times> bool) list \<Rightarrow> bytes list" where
  "bridge_uplink mtu [] = []"
| "bridge_uplink mtu ((Inl _, _) # _) = []"
| "bridge_uplink mtu ((Inr pkt, accepted) # reads) =
     (if take mtu pkt = [] then []
      else if accepted then take mtu pkt # bridge_uplink mtu reads else [])"

section \<open>Steps\<close>

definition tcp_counters :: "Counter set" where
  "tcp_counters = {TCP_OPENED, TCP_CLOSED, TCP_ACTIVE, ROUTE_DIRECT, ROUTE_PROXY}"

text \<open>
  Beside the operations above, the other tasks of the process may replace the shared settings, log,
  and move the counters that are not the TCP side's own.
\<close>

inductive tcp_step :: "tcp_world \<Rightarrow> tcp_world \<Rightarrow> bool" where
  incoming: "tw_acceptor w = Accepting \<Longrightarrow> tcp_step w (tcp_incoming src dst w)"
| spawn: "tw_acceptor w = WaitingForPermit src dst \<Longrightarrow> 0 < tw_permits w \<Longrightarrow> tcp_step w (tcp_spawn src dst w)"
| closed: "tw_acceptor w = Accepting \<Longrightarrow> tcp_step w (tcp_listener_closed w)"
| begins: "i < length (tw_relays w) \<Longrightarrow> rl_phase (tw_relays w ! i) = RelaySpawned \<Longrightarrow>
    tcp_step w (relay_begin i w)"
| connected: "i < length (tw_relays w) \<Longrightarrow> rl_phase (tw_relays w ! i) = RelayConnecting \<Longrightarrow>
    tcp_step w (relay_connected (env :: nat socket_env) i w)"
| copied: "i < length (tw_relays w) \<Longrightarrow> rl_phase (tw_relays w ! i) = RelayCopying \<Longrightarrow>
    tcp_step w (relay_copied n i w)"
| others: "(\<And>c. c \<in> tcp_counters \<Longrightarrow> st c = tw_stats w c) \<Longrightarrow>
    tcp_step w (w\<lparr>tw_shared := sh, tw_stats := st, tw_log := l\<rparr>)"

inductive tcp_reach :: "tcp_world \<Rightarrow> tcp_world \<Rightarrow> bool" for w\<^sub>0 where
  start: "tcp_reach w\<^sub>0 w\<^sub>0"
| "step": "tcp_reach w\<^sub>0 w \<Longrightarrow> tcp_step w w' \<Longrightarrow> tcp_reach w\<^sub>0 w'"

section \<open>Permits and counters\<close>

definition in_phases :: "relay_phase set \<Rightarrow> tcp_world \<Rightarrow> nat" where
  "in_phases P w = length (filter (\<lambda>r. rl_phase r \<in> P) (tw_relays w))"

text \<open>Summaries of the operations: how the phases and the TCP counters move.\<close>

definition tcp_moves :: "relay_phase \<Rightarrow> relay_phase \<Rightarrow> u64 \<Rightarrow> u64 \<Rightarrow> u64 \<Rightarrow> nat \<Rightarrow> nat \<Rightarrow> tcp_world \<Rightarrow> tcp_world \<Rightarrow> bool" where
  "tcp_moves p q opened closed active freed i w w' \<longleftrightarrow>
     i < length (tw_relays w) \<and> rl_phase (tw_relays w ! i) = p \<and>
     tw_relays w' = (tw_relays w)[i := (tw_relays w ! i)\<lparr>rl_phase := q\<rparr>] \<and>
     tw_permits w' = tw_permits w + freed \<and>
     tw_stats w' TCP_OPENED = tw_stats w TCP_OPENED + opened \<and>
     tw_stats w' TCP_CLOSED = tw_stats w TCP_CLOSED + closed \<and>
     tw_stats w' TCP_ACTIVE = tw_stats w TCP_ACTIVE + active \<and>
     tw_stats w' ROUTE_DIRECT + tw_stats w' ROUTE_PROXY = tw_stats w ROUTE_DIRECT + tw_stats w ROUTE_PROXY + opened"

lemmas relay_ops = tcp_moves_def tcp_count_def tcp_debug_def relay_goes_def relay_leave_def Let_def stats_defs

lemma relay_begin_moves:
  assumes "i < length (tw_relays w)" and "rl_phase (tw_relays w ! i) = RelaySpawned"
  shows "tcp_moves RelaySpawned RelayConnecting 1 0 1 0 i w (relay_begin i w)"
  using assms by (auto simp: relay_begin_def relay_ops split: RouteDecision.split)

lemma relay_connected_moves:
  assumes "i < length (tw_relays w)" and "rl_phase (tw_relays w ! i) = RelayConnecting"
  shows "tcp_moves RelayConnecting RelayCopying 0 0 0 0 i w (relay_connected env i w) \<or>
    tcp_moves RelayConnecting RelayDone 0 1 (- 1) 1 i w (relay_connected env i w)"
  using assms by (auto simp: relay_connected_def relay_ops split: sum.split)

lemma relay_copied_moves:
  assumes "i < length (tw_relays w)" and "rl_phase (tw_relays w ! i) = RelayCopying"
  shows "tcp_moves RelayCopying RelayDone 0 1 (- 1) 1 i w (relay_copied n i w)"
  using assms by (auto simp: relay_copied_def relay_ops split: sum.split prod.split IpAddr.split)

lemma tcp_moves_phases:
  assumes "tcp_moves p q opened closed active freed i w w'"
  shows "in_phases P w' + (if p \<in> P then 1 else 0) = in_phases P w + (if q \<in> P then 1 else 0)"
  using assms length_filter_update[of i "tw_relays w" "\<lambda>r. rl_phase r \<in> P" "(tw_relays w ! i)\<lparr>rl_phase := q\<rparr>"]
  by (simp add: tcp_moves_def in_phases_def)

definition tcp_ok :: "nat \<Rightarrow> tcp_world \<Rightarrow> bool" where
  "tcp_ok n w \<longleftrightarrow>
     tw_permits w + in_phases (- {RelayDone}) w = n \<and>
     tw_stats w TCP_OPENED = of_nat (in_phases (- {RelaySpawned}) w) \<and>
     tw_stats w TCP_CLOSED = of_nat (in_phases {RelayDone} w) \<and>
     tw_stats w TCP_ACTIVE = of_nat (in_phases {RelayConnecting, RelayCopying} w) \<and>
     tw_stats w ROUTE_DIRECT + tw_stats w ROUTE_PROXY = tw_stats w TCP_OPENED"

lemma tcp_ok_init: "tcp_ok n (tcp_init n sh l)"
  by (simp add: tcp_ok_def tcp_init_def in_phases_def stats_init_def)

lemma tcp_ok_moves:
  assumes "tcp_ok n w" and moves: "tcp_moves p q opened closed active freed i w w'"
    and "(p, q, opened, closed, active, freed) \<in>
      {(RelaySpawned, RelayConnecting, 1, 0, 1, 0), (RelayConnecting, RelayCopying, 0, 0, 0, 0),
       (RelayConnecting, RelayDone, 0, 1, - 1, 1), (RelayCopying, RelayDone, 0, 1, - 1, 1)}"
  shows "tcp_ok n w'"
  using assms(1,3) moves[unfolded tcp_moves_def]
    tcp_moves_phases[OF moves, of "- {RelayDone}"] tcp_moves_phases[OF moves, of "- {RelaySpawned}"]
    tcp_moves_phases[OF moves, of "{RelayDone}"] tcp_moves_phases[OF moves, of "{RelayConnecting, RelayCopying}"]
  by (auto simp: tcp_ok_def algebra_simps simp flip: of_nat_Suc)

lemma tcp_ok_step:
  assumes "tcp_step w w'" and "tcp_ok n w"
  shows "tcp_ok n w'"
  using assms
proof (cases rule: tcp_step.cases)
  case (begins i)
  show ?thesis unfolding begins(1)
    by (rule tcp_ok_moves[OF assms(2) relay_begin_moves]) (simp_all add: begins)
next
  case (connected i env)
  from relay_connected_moves[OF connected(2,3), of env] show ?thesis
    unfolding connected(1) by (auto elim!: tcp_ok_moves[OF assms(2)])
next
  case (copied i m)
  show ?thesis unfolding copied(1)
    by (rule tcp_ok_moves[OF assms(2) relay_copied_moves]) (simp_all add: copied)
qed (auto simp: tcp_ok_def in_phases_def tcp_incoming_def tcp_spawn_def tcp_listener_closed_def tcp_counters_def)

lemma tcp_ok_reach: "tcp_reach (tcp_init n sh l) w \<Longrightarrow> tcp_ok n w"
  by (induction rule: tcp_reach.induct) (auto intro: tcp_ok_init tcp_ok_step)

lemma begun_phases:
  "in_phases (- {RelaySpawned}) w = in_phases {RelayDone} w + in_phases {RelayConnecting, RelayCopying} w"
proof -
  have "length (filter (\<lambda>r. rl_phase r \<in> - {RelaySpawned}) rs) =
    length (filter (\<lambda>r. rl_phase r \<in> {RelayDone}) rs) +
    length (filter (\<lambda>r. rl_phase r \<in> {RelayConnecting, RelayCopying}) rs)" for rs :: "relay list"
  proof (induction rs)
    case (Cons r rs)
    then show ?case by (cases "rl_phase r") simp_all
  qed simp
  then show ?thesis by (simp only: in_phases_def)
qed

text \<open>
  C11. Every TCP relay that has started and not ended holds one permit of the semaphore: at every
  moment the free permits and the running relays add up to the limit of the tuning, so at most that
  many connections are relayed at once and no permit is lost on any path out of a relay.
\<close>

theorem tcp_relays_bounded:
  assumes "tcp_reach (tcp_init max_tcp_connections shared log) w"
  shows "tw_permits w + length (filter (\<lambda>r. rl_phase r \<noteq> RelayDone) (tw_relays w)) = max_tcp_connections"
  using tcp_ok_reach[OF assms] by (simp add: tcp_ok_def in_phases_def)

text \<open>
  C12. The TCP counters agree with the relays, whatever the order of events and the outcome of each
  connection: the gauge shows the connections that are being opened or copied, every opened connection
  is either closed or active, and each was counted once as direct or proxied.
\<close>

theorem tcp_counters_agree:
  assumes "tcp_reach (tcp_init max_tcp_connections shared log) w"
  shows "tw_stats w TCP_ACTIVE =
      of_nat (length (filter (\<lambda>r. rl_phase r \<in> {RelayConnecting, RelayCopying}) (tw_relays w))) \<and>
    tw_stats w TCP_OPENED = tw_stats w TCP_CLOSED + tw_stats w TCP_ACTIVE \<and>
    tw_stats w ROUTE_DIRECT + tw_stats w ROUTE_PROXY = tw_stats w TCP_OPENED"
  using tcp_ok_reach[OF assms] begun_phases[of w] by (simp add: tcp_ok_def in_phases_def)

section \<open>Failed connections\<close>

lemma lower_letters:
  "ascii_lower CHR ''S'' = CHR ''s''" "ascii_lower CHR ''O'' = CHR ''o''"
  "ascii_lower CHR ''C'' = CHR ''c''" "ascii_lower CHR ''K'' = CHR ''k''"
  by code_simp+

lemma lower_socks:
  "\<exists>t. to_lowercase (CHR ''S'' # CHR ''O'' # CHR ''C'' # CHR ''K'' # CHR ''S'' # s) =
     CHR ''s'' # CHR ''o'' # CHR ''c'' # CHR ''k'' # CHR ''s'' # t"
  by (simp add: to_lowercase.simps[of "CHR ''S'' # _"] to_lowercase.simps[of "CHR ''O'' # _"]
      to_lowercase.simps[of "CHR ''C'' # _"] to_lowercase.simps[of "CHR ''K'' # _"] lower_letters)

lemma display_chain_head: "\<exists>rest. display_chain (c # cs) = c @ rest"
  by (cases cs) auto

lemma socks_error_is_handshake:
  assumes "e = (CHR ''S'' # CHR ''O'' # CHR ''C'' # CHR ''K'' # CHR ''S'' # s) # cs"
  shows "is_handshake_failure e"
proof -
  obtain rest where "display_chain e = CHR ''S'' # CHR ''O'' # CHR ''C'' # CHR ''K'' # CHR ''S'' # s @ rest"
    using display_chain_head[of "CHR ''S'' # CHR ''O'' # CHR ''C'' # CHR ''K'' # CHR ''S'' # s" cs]
    unfolding assms by auto
  then obtain t where "to_lowercase (display_chain e) = CHR ''s'' # CHR ''o'' # CHR ''c'' # CHR ''k'' # CHR ''s'' # t"
    using lower_socks by metis
  then show ?thesis by (simp add: is_handshake_failure_def)
qed

text \<open>
  C39. Whenever the SOCKS5 client gives up a connection because no stream was established, the relay
  counts a SOCKS handshake failure: also when the proxy could not be reached at all or did not answer
  in time, since the client's own context names SOCKS5 and the test looks for that word.
\<close>

theorem every_connect_failure_is_handshake:
  assumes "tcp_connect env proxy dst = Inl e"
    and "\<And>user_pass s. socks5_connect env (px_addr proxy) dst user_pass \<noteq> Established s"
  shows "is_handshake_failure e"
  using assms unfolding tcp_connect_def
  by (auto simp: bind_res_def split: option.splits socks5_result.splits intro: socks_error_is_handshake)

section \<open>Examples\<close>

definition example_proxy :: ProxyConfig where
  "example_proxy = \<lparr>px_addr = socket_addr (V4 0x0A000001) 1080, px_username = None, px_password = None,
     px_connect_timeout = 5, px_tcp_nodelay = True\<rparr>"

definition unreachable_env :: "nat socket_env" where
  "unreachable_env = \<lparr>socks5_connect = \<lambda>_ _ _. Rejected [''connection refused''],
     set_nodelay = \<lambda>_ s. (None, s), set_recv_buffer_size = \<lambda>_ s. (None, s),
     set_send_buffer_size = \<lambda>_ s. (None, s)\<rparr>"

definition example_client :: SocketAddr where
  "example_client = socket_addr (V4 0x0A010002) 40000"

definition example_server :: SocketAddr where
  "example_server = socket_addr (V4 0x5DB8D822) 443"

definition example_tcp :: tcp_world where
  "example_tcp = tcp_init 2 (Shared_new example_proxy RouteTable_default) (Logger_new False)"

definition accepted_tcp :: "tcp_world \<Rightarrow> tcp_world" where
  "accepted_tcp w = tcp_spawn example_client example_server (tcp_incoming example_client example_server w)"

text \<open>Two connections are accepted; the first fails to connect, the second is being opened.\<close>

definition example_tcp_run :: tcp_world where
  "example_tcp_run =
     relay_begin 1 (relay_connected unreachable_env 0 (relay_begin 0 (accepted_tcp (accepted_tcp example_tcp))))"

lemmas tcp_example = example_tcp_run_def accepted_tcp_def example_tcp_def tcp_init_def tcp_incoming_def
  tcp_spawn_def relay_begin_def relay_connected_def relay_leave_def relay_goes_def tcp_count_def
  tcp_debug_def Let_def unreachable_env_def tcp_connect_def example_proxy_def Shared_new_def
  bind_res_def Logger_new_def log_debug_def

lemma accepted_tcp_reach:
  assumes "tcp_reach w\<^sub>0 w" and "tw_acceptor w = Accepting" and "0 < tw_permits w"
  shows "tcp_reach w\<^sub>0 (accepted_tcp w)"
proof -
  have "tcp_reach w\<^sub>0 (tcp_incoming example_client example_server w)"
    by (rule tcp_reach.step[OF assms(1) tcp_step.incoming[OF assms(2)]])
  then show ?thesis unfolding accepted_tcp_def
    by (rule tcp_reach.step[OF _ tcp_step.spawn]) (simp_all add: tcp_incoming_def assms(3))
qed

lemma example_tcp_reach: "tcp_reach example_tcp example_tcp_run"
proof -
  let ?w = "accepted_tcp (accepted_tcp example_tcp)"
  have "tcp_reach example_tcp ?w"
    by (rule accepted_tcp_reach[OF accepted_tcp_reach[OF tcp_reach.start]]) (simp_all add: tcp_example)
  then have "tcp_reach example_tcp (relay_begin 0 ?w)"
    by (rule tcp_reach.step[OF _ tcp_step.begins]) (simp_all add: tcp_example)
  then have "tcp_reach example_tcp (relay_connected unreachable_env 0 (relay_begin 0 ?w))"
    by (rule tcp_reach.step[OF _ tcp_step.connected]) (simp_all add: tcp_example)
  then show ?thesis unfolding example_tcp_run_def
    by (rule tcp_reach.step[OF _ tcp_step.begins]) (simp_all add: tcp_example)
qed

theorem tcp_relays_bounded_witness:
  "tw_permits example_tcp_run + length (filter (\<lambda>r. rl_phase r \<noteq> RelayDone) (tw_relays example_tcp_run)) = 2"
  using tcp_relays_bounded example_tcp_reach unfolding example_tcp_def by blast

theorem tcp_counters_agree_witness:
  "tw_stats example_tcp_run TCP_ACTIVE = 1 \<and> tw_stats example_tcp_run TCP_OPENED = 1 + tw_stats example_tcp_run TCP_CLOSED"
  using tcp_counters_agree[OF example_tcp_reach[unfolded example_tcp_def]] by (simp add: tcp_example)

theorem every_connect_failure_is_handshake_witness:
  "is_handshake_failure [''SOCKS5 connect failed'', ''connection refused'']"
  by (rule every_connect_failure_is_handshake[of unreachable_env example_proxy example_server])
    (simp_all add: unreachable_env_def tcp_connect_def example_proxy_def bind_res_def)

end
