(* ===== verification/Metrics.thy ===== *)
theory Metrics
  imports Rust_Env Stats Logging
begin

text \<open>
  \<^verbatim>\<open>src/metrics.rs\<close>: the metrics endpoint. Each counter is loaded exactly once while a page is
  rendered, so the values seen are a function of the counter even when other tasks count meanwhile:
  \<open>render\<close> takes that function. The socket is a parameter: the outcomes of \<^verbatim>\<open>bind\<close> and of
  the calls of \<^verbatim>\<open>accept\<close> and \<^verbatim>\<open>read\<close>.
\<close>

definition metric :: "string \<Rightarrow> string \<Rightarrow> string \<Rightarrow> string \<Rightarrow> u64 \<Rightarrow> string" where
  "metric out name help kind v =
     (let out = out @ ''# HELP '';
          out = out @ name;
          out = out @ '' '';
          out = out @ help;
          out = out @ [LF];
          out = out @ ''# TYPE '';
          out = out @ name;
          out = out @ '' '';
          out = out @ kind;
          out = out @ [LF];
          out = out @ name;
          out = out @ '' '';
          out = out @ show_word v
      in out @ [LF])"

definition render_counters :: "(string \<times> string \<times> Counter) list" where
  "render_counters =
     [(''cortado_tcp_opened_total'', ''TCP connections opened'', TCP_OPENED),
      (''cortado_tcp_closed_total'', ''TCP connections closed'', TCP_CLOSED),
      (''cortado_tcp_errors_total'', ''TCP relay errors'', TCP_ERRORS),
      (''cortado_udp_packets_total'', ''UDP packets ingested'', UDP_PACKETS),
      (''cortado_udp_errors_total'', ''UDP relay errors'', UDP_ERRORS),
      (''cortado_bytes_tx_total'', ''Bytes sent to proxy'', BYTES_TX),
      (''cortado_bytes_rx_total'', ''Bytes received from proxy'', BYTES_RX),
      (''cortado_bytes_ipv4_total'', ''Bytes relayed for IPv4 destinations'', BYTES_V4),
      (''cortado_bytes_ipv6_total'', ''Bytes relayed for IPv6 destinations'', BYTES_V6),
      (''cortado_dns_requests_total'', ''DNS requests handled'', DNS_REQUESTS),
      (''cortado_dns_failures_total'', ''DNS requests that failed'', DNS_FAILURES),
      (''cortado_dns_pool_hits_total'', ''DNS queries served by a reused connection'', DNS_POOL_HITS),
      (''cortado_dns_pool_misses_total'', ''DNS queries that opened a new connection'', DNS_POOL_MISSES),
      (''cortado_route_direct_total'', ''Flows classified as direct'', ROUTE_DIRECT),
      (''cortado_route_proxy_total'', ''Flows classified as proxied'', ROUTE_PROXY),
      (''cortado_conn_failures_total'', ''Outbound connection failures'', CONN_FAILURES),
      (''cortado_socks_handshake_failures_total'', ''SOCKS5 handshake failures'', SOCKS_HANDSHAKE_FAILURES)]"

definition render_gauges :: "(string \<times> string \<times> Counter) list" where
  "render_gauges =
     [(''cortado_tcp_sessions_active'', ''Active TCP sessions'', TCP_ACTIVE),
      (''cortado_udp_sessions_active'', ''Active UDP sessions'', UDP_ACTIVE)]"

definition render :: "stats \<Rightarrow> string" where
  "render st =
     (let out = fold (\<lambda>(name, help, counter) out. metric out name help ''counter'' (stats_get st counter))
            render_counters [];
          out = metric out ''cortado_config_reloads_total'' ''Configuration reloads applied'' ''counter''
            (stats_get st CONFIG_RELOADS)
      in fold (\<lambda>(name, help, gauge) out. metric out name help ''gauge'' (stats_get st gauge))
           render_gauges out)"

text \<open>
  A client is answered whatever it sent and even when reading from it failed; the value is what is
  written before the stream is shut down.
\<close>

definition handle_client :: "string + bytes \<Rightarrow> stats \<Rightarrow> bytes" where
  "handle_client request st =
     (let body = render st;
          response = ''HTTP/1.1 200 OK'' @ [CR, LF] @ ''Content-Type: text/plain; version=0.0.4'' @ [CR, LF] @
            ''Content-Length: '' @ show_nat (length body) @ [CR, LF] @ ''Connection: close'' @ [CR, LF, CR, LF] @ body
      in as_bytes response)"

text \<open>The accept loop has no exit; the model runs it over the outcomes so far, and returns the clients served.\<close>

fun serve_loop :: "(string + 'c) list \<Rightarrow> Logger \<Rightarrow> Logger \<times> 'c list" where
  "serve_loop [] log = (log, [])"
| "serve_loop (Inr stream # accepts) log = map_prod id ((#) stream) (serve_loop accepts log)"
| "serve_loop (Inl e # accepts) log = serve_loop accepts (log_warn (''metrics accept error: '' @ e) log)"

definition serve :: "SocketAddr \<Rightarrow> string + unit \<Rightarrow> (string + 'c) list \<Rightarrow> Logger \<Rightarrow> Logger \<times> 'c list" where
  "serve addr bind accepts log =
     (case bind of
        Inl e \<Rightarrow> (log_error (''failed to bind metrics endpoint '' @ show_socket_addr addr @ '': '' @ e) log, [])
      | Inr _ \<Rightarrow> serve_loop accepts (log_info (''metrics endpoint listening on '' @ show_socket_addr addr) log))"

section \<open>What a scraper reads\<close>

text \<open>
  A scraper skips the comment lines and reads a name, a blank and a number from each other line.
\<close>

definition sample :: "string \<Rightarrow> (string \<times> nat) option" where
  "sample line =
     (if take 1 line = ''#'' then None
      else case parse_uint (2 ^ 64) (drop 1 (dropWhile (\<lambda>c. c \<noteq> CHR '' '') line)) of
             Inl _ \<Rightarrow> None
           | Inr n \<Rightarrow> Some (takeWhile (\<lambda>c. c \<noteq> CHR '' '') line, n))"

definition scrape :: "string \<Rightarrow> (string \<times> nat) list" where
  "scrape page = List.map_filter sample (str_lines page)"

definition plain :: "string \<Rightarrow> bool" where
  "plain s \<longleftrightarrow> (\<forall>c \<in> set s. c \<noteq> LF \<and> c \<noteq> CR)"

definition metric_name :: "string \<Rightarrow> bool" where
  "metric_name s \<longleftrightarrow> plain s \<and> CHR '' '' \<notin> set s \<and> take 1 s \<noteq> ''#''"

lemma str_lines_line:
  assumes "plain line"
  shows "str_lines (line @ LF # rest) = line # str_lines rest"
proof -
  have no_lf: "\<And>c. c \<in> set line \<Longrightarrow> c \<noteq> LF" and no_cr: "line \<noteq> [] \<Longrightarrow> last line \<noteq> CR"
    using assms last_in_set[of line] by (auto simp: plain_def)
  have "takeWhile (\<lambda>c. c \<noteq> LF) (line @ LF # rest) = line"
    using no_lf by (simp add: takeWhile_append2)
  moreover have "dropWhile (\<lambda>c. c \<noteq> LF) (line @ LF # rest) = LF # rest"
    using no_lf by (simp add: dropWhile_append2)
  ultimately show ?thesis
    using no_cr by (subst str_lines.simps) (auto simp: Let_def)
qed

lemma plain_append [simp]: "plain (s @ t) \<longleftrightarrow> plain s \<and> plain t"
  by (auto simp: plain_def)

lemma plain_Cons [simp]: "plain (c # s) \<longleftrightarrow> c \<noteq> LF \<and> c \<noteq> CR \<and> plain s"
  by (auto simp: plain_def)

lemma show_word_chars:
  assumes "c \<in> set (show_word (v :: u64))"
  shows "c \<noteq> LF" and "c \<noteq> CR" and "c \<noteq> CHR '' ''"
proof -
  have "is_digit_of 10 c" using assms show_radix_digits[of 10 c "unat v"] by (simp add: show_nat_def)
  moreover have "\<not> is_digit_of 10 LF" "\<not> is_digit_of 10 CR" "\<not> is_digit_of 10 CHR '' ''"
    by (simp_all add: to_digit_def LF_def CR_def)
  ultimately show "c \<noteq> LF" and "c \<noteq> CR" and "c \<noteq> CHR '' ''" by auto
qed

lemma sample_line:
  assumes "metric_name name"
  shows "sample (name @ CHR '' '' # show_word (v :: u64)) = Some (name, unat v)"
proof -
  have name: "\<And>c. c \<in> set name \<Longrightarrow> c \<noteq> CHR '' ''" "take 1 name \<noteq> ''#''"
    using assms by (auto simp: metric_name_def)
  have "takeWhile (\<lambda>c. c \<noteq> CHR '' '') (name @ CHR '' '' # show_word v) = name"
    using name(1) by (simp add: takeWhile_append2)
  moreover have "dropWhile (\<lambda>c. c \<noteq> CHR '' '') (name @ CHR '' '' # show_word v) = CHR '' '' # show_word v"
    using name(1) by (simp add: dropWhile_append2)
  moreover have "take 1 (name @ CHR '' '' # show_word v) \<noteq> ''#''"
    using name(2) by (cases name) simp_all
  moreover have "unat v < 2 ^ 64" using unat_word_less[of v] by simp
  ultimately show ?thesis by (simp add: sample_def parse_uint_show)
qed

lemma plain_line: "plain name \<Longrightarrow> plain (name @ CHR '' '' # show_word (v :: u64))"
proof -
  have "plain (show_word v)" unfolding plain_def using show_word_chars(1,2) by blast
  moreover have "CHR '' '' \<noteq> LF" "CHR '' '' \<noteq> CR" by (simp_all add: LF_def CR_def)
  ultimately show "plain name \<Longrightarrow> plain (name @ CHR '' '' # show_word v)" by simp
qed

lemma scrape_metric:
  assumes "metric_name name" and "plain descr" and "plain kind"
  shows "scrape (metric [] name descr kind v @ rest) = (name, unat v) # scrape rest"
proof -
  have name: "plain name" using assms(1) by (simp add: metric_name_def)
  have descr: "plain (''# HELP '' @ name @ '' '' @ descr)" and kind: "plain (''# TYPE '' @ name @ '' '' @ kind)"
    using name assms(2,3) by (simp_all add: LF_def CR_def)
  have comments: "sample (''# HELP '' @ name @ '' '' @ descr) = None" "sample (''# TYPE '' @ name @ '' '' @ kind) = None"
    by (simp_all add: sample_def)
  have "metric [] name descr kind v @ rest =
    (''# HELP '' @ name @ '' '' @ descr) @ LF # (''# TYPE '' @ name @ '' '' @ kind) @ LF #
    (name @ CHR '' '' # show_word v) @ LF # rest"
    by (simp add: metric_def Let_def)
  then have "str_lines (metric [] name descr kind v @ rest) =
    (''# HELP '' @ name @ '' '' @ descr) # (''# TYPE '' @ name @ '' '' @ kind) #
    (name @ CHR '' '' # show_word v) # str_lines rest"
    by (simp only: str_lines_line[OF descr] str_lines_line[OF kind] str_lines_line[OF plain_line[OF name]])
  then show ?thesis
    by (simp add: scrape_def List.map_filter_simps comments[simplified] sample_line[OF assms(1)])
qed

lemma metric_append: "metric out name descr kind v = out @ metric [] name descr kind v"
  by (simp add: metric_def Let_def)

lemma fold_metric:
  "fold (\<lambda>(name, descr, c) out. metric out name descr kind (stats_get st c)) ms out =
     out @ concat (map (\<lambda>(name, descr, c). metric [] name descr kind (stats_get st c)) ms)"
proof (induction ms arbitrary: out)
  case (Cons m ms)
  obtain name descr c where m: "m = (name, descr, c)" by (cases m)
  have "fold (\<lambda>(name, descr, c) out. metric out name descr kind (stats_get st c)) ms
      (metric out name descr kind (stats_get st c)) =
    metric out name descr kind (stats_get st c) @
    concat (map (\<lambda>(name, descr, c). metric [] name descr kind (stats_get st c)) ms)"
    by (rule Cons)
  then show ?case by (simp add: m metric_append[of out name])
qed simp

lemma scrape_metrics:
  assumes "list_all (\<lambda>(name, descr, c). metric_name name \<and> plain descr) ms" and "plain kind"
  shows "scrape (concat (map (\<lambda>(name, descr, c). metric [] name descr kind (stats_get st c)) ms) @ rest) =
     map (\<lambda>(name, descr, c). (name, unat (st c))) ms @ scrape rest"
  using assms by (induction ms) (auto simp: scrape_metric stats_get_def)

lemma render_tables:
  "list_all (\<lambda>(name, descr, c). metric_name name \<and> plain descr) render_counters"
  "list_all (\<lambda>(name, descr, c). metric_name name \<and> plain descr) render_gauges"
  by code_simp+

definition metrics :: "(string \<times> string \<times> Counter) list" where
  "metrics = render_counters @
     (''cortado_config_reloads_total'', ''Configuration reloads applied'', CONFIG_RELOADS) # render_gauges"

lemma scrape_render: "scrape (render st) = map (\<lambda>(name, descr, c). (name, unat (st c))) metrics"
proof -
  have kinds: "plain ''counter''" "plain ''gauge''" by code_simp+
  have reloads: "metric_name ''cortado_config_reloads_total''" "plain ''Configuration reloads applied''"
    by code_simp+
  have "render st =
    concat (map (\<lambda>(name, descr, c). metric [] name descr ''counter'' (stats_get st c)) render_counters) @
    metric [] ''cortado_config_reloads_total'' ''Configuration reloads applied'' ''counter'' (stats_get st CONFIG_RELOADS) @
    concat (map (\<lambda>(name, descr, c). metric [] name descr ''gauge'' (stats_get st c)) render_gauges) @ []"
    unfolding render_def Let_def fold_metric
    by (subst metric_append) (simp only: append_Nil append_Nil2 append_assoc)
  then show ?thesis
    by (simp only: scrape_metrics[OF render_tables(1) kinds(1)] scrape_metrics[OF render_tables(2) kinds(2)]
        scrape_metric[OF reloads kinds(1)])
      (simp add: metrics_def scrape_def str_lines.simps List.map_filter_simps stats_get_def)
qed

lemma metric_counters:
  "map (snd \<circ> snd) metrics =
     [TCP_OPENED, TCP_CLOSED, TCP_ERRORS, UDP_PACKETS, UDP_ERRORS, BYTES_TX, BYTES_RX, BYTES_V4, BYTES_V6,
      DNS_REQUESTS, DNS_FAILURES, DNS_POOL_HITS, DNS_POOL_MISSES, ROUTE_DIRECT, ROUTE_PROXY, CONN_FAILURES,
      SOCKS_HANDSHAKE_FAILURES, CONFIG_RELOADS, TCP_ACTIVE, UDP_ACTIVE]"
  by (simp add: metrics_def render_counters_def render_gauges_def)

lemma every_counter_rendered: "c \<in> (snd \<circ> snd) ` set metrics"
  using metric_counters[THEN arg_cong, where f = set] by (cases c) (simp_all only: set_map set_simps insert_iff, simp_all)

text \<open>
  C29. A page of metrics reads back as the counters it was made from: skipping the comment lines, a
  scraper finds one sample for every counter and gauge of the process, under pairwise different
  names, with the value the counter had when it was loaded.
\<close>

theorem render_reads_back:
  "scrape (render st) = map (\<lambda>(name, descr, c). (name, unat (st c))) metrics \<and>
   distinct (map fst metrics) \<and> (snd \<circ> snd) ` set metrics = UNIV"
proof -
  have "distinct (map fst metrics)" by code_simp
  then show ?thesis using scrape_render every_counter_rendered by blast
qed

end
