(* ===== verification/Commands.thy ===== *)
theory Commands
  imports Platform Rust_Env
begin

text \<open>
  What the backends that configure the host with its own programs share: running a program for its
  output or for its exit status, a call on a part of the controller, and how a routing table develops
  under the routes such a controller adds and deletes.
\<close>

section \<open>Running programs\<close>

text \<open>\<^verbatim>\<open>.output().ok()?\<close> and the lossy text of what was printed.\<close>

definition cmd_text :: "'k shell \<Rightarrow> string \<Rightarrow> string list \<Rightarrow> ('k, string option) io" where
  "cmd_text sh prog args =
     io_bind (io_catch (sh prog args)) (\<lambda>r.
     io_return (case r of Inl _ \<Rightarrow> None | Inr out \<Rightarrow> Some (from_utf8_lossy (co_stdout out))))"

text \<open>
  \<^verbatim>\<open>.status().context(..)?\<close> and \<^verbatim>\<open>bail!\<close> unless the program succeeded, and
  \<^verbatim>\<open>let _ = .. .status()\<close>.
\<close>

definition cmd_checked :: "'k shell \<Rightarrow> string \<Rightarrow> string list \<Rightarrow> string \<Rightarrow> string \<Rightarrow> ('k, unit) io" where
  "cmd_checked sh prog args not_run failed =
     io_bind (io_context not_run (sh prog args)) (\<lambda>out.
     if co_success out then io_return () else io_bail [failed @ '' exited with '' @ co_status out])"

definition cmd_quiet :: "'k shell \<Rightarrow> string \<Rightarrow> string list \<Rightarrow> ('k, unit) io" where
  "cmd_quiet sh prog args = io_bind (io_catch (sh prog args)) (\<lambda>_. io_return ())"

definition parse_u32 :: "string \<Rightarrow> u32 option" where
  "parse_u32 s = (case parse_uint (2 ^ 32) s of Inr n \<Rightarrow> Some (of_nat n) | Inl _ \<Rightarrow> None)"

text \<open>A call on a field of the controller.\<close>

definition on_field :: "('m \<Rightarrow> 'd) \<Rightarrow> ('d \<Rightarrow> 'm \<Rightarrow> 'm) \<Rightarrow> (('d, 'k) os_world, 'a) io \<Rightarrow> (('m, 'k) os_world, 'a) io" where
  "on_field get put m =
     (\<lambda>w. case m (with_self (get (rw_self w)) w) of (r, v) \<Rightarrow> (r, with_self (put (rw_self v) (rw_self w)) v))"

lemma cmd_snd:
  "snd (cmd_text sh prog args k) = snd (sh prog args k)"
  "snd (cmd_checked sh prog args not_run failed k) = snd (sh prog args k)"
  "snd (cmd_quiet sh prog args k) = snd (sh prog args k)"
  by (auto simp: cmd_text_def cmd_checked_def cmd_quiet_def io_simps split: prod.splits sum.splits)

lemma cmd_total [io_total]: "infallible (cmd_text sh prog args)" "infallible (cmd_quiet sh prog args)"
  unfolding cmd_text_def cmd_quiet_def by (intro io_total)+

lemma os_total [io_total]:
  "infallible m \<Longrightarrow> infallible (on_kernel m)" "infallible (rt_log h)" "infallible (rt_self f)"
  unfolding on_kernel_def rt_log_def rt_self_def by (intro io_total; assumption)+

lemma on_field_total [io_total]:
  assumes "infallible m"
  shows "infallible (on_field get put m)"
  unfolding infallible_def
proof
  fix w
  obtain x v where "m (with_self (get (rw_self w)) w) = (Inr x, v)" using assms by (rule infallibleE)
  then show "\<exists>x t. on_field get put m w = (Inr x, t)" by (simp add: on_field_def)
qed

lemma on_kernel_keeps:
  "(\<And>w. I w \<Longrightarrow> I (w\<lparr>rw_kernel := snd (m (rw_kernel w))\<rparr>)) \<Longrightarrow> keeps I (on_kernel m)"
  unfolding on_kernel_def by (rule keeps_zoom) simp

section \<open>Routes that a controller adds and deletes\<close>

text \<open>
  \<open>table_ops add del tbl\<close>: adding a route adds it or leaves the table alone, deleting one takes it
  out. \<open>holds tbl base X\<close>: the table has the routes \<open>base\<close>, and otherwise only routes in \<open>X\<close>.
\<close>

definition table_ops :: "('e \<Rightarrow> ('k, unit) io) \<Rightarrow> ('e \<Rightarrow> ('k, unit) io) \<Rightarrow> ('k \<Rightarrow> 'e set) \<Rightarrow> bool" where
  "table_ops add del tbl \<longleftrightarrow>
     (\<forall>e k. tbl (snd (add e k)) = tbl k \<or> tbl (snd (add e k)) = insert e (tbl k)) \<and>
     (\<forall>e k. tbl (snd (del e k)) = tbl k - {e})"

definition holds :: "('k \<Rightarrow> 'e set) \<Rightarrow> 'e set \<Rightarrow> 'e set \<Rightarrow> ('m, 'k) os_world \<Rightarrow> bool" where
  "holds tbl base X w \<longleftrightarrow> base \<subseteq> tbl (rw_kernel w) \<and> tbl (rw_kernel w) \<subseteq> base \<union> X"

lemma holds_mono: "holds tbl base X w \<Longrightarrow> X \<subseteq> Y \<Longrightarrow> holds tbl base Y w"
  by (auto simp: holds_def)

lemma holds_others [simp]:
  "holds tbl base X (w\<lparr>rw_self := m\<rparr>) = holds tbl base X w"
  "holds tbl base X (w\<lparr>rw_log := l\<rparr>) = holds tbl base X w"
  "holds tbl base X (w\<lparr>rw_fs := f\<rparr>) = holds tbl base X w"
  "holds tbl base X (with_self n w) = holds tbl base X w"
  by (simp_all add: holds_def with_self_def)

lemma holds_steps [io_keep]:
  "keeps (holds tbl base X) (rt_log h)" "keeps (holds tbl base X) (rt_self f)"
  by (simp_all add: rt_log_def rt_self_def keeps_modify)

lemma holds_unrelated:
  "(\<And>k. tbl (snd (m k)) = tbl k) \<Longrightarrow> keeps (holds tbl base X) (on_kernel m)"
  by (rule on_kernel_keeps) (simp add: holds_def)

lemma holds_field:
  fixes get :: "'m \<Rightarrow> 'd" and tbl :: "'k \<Rightarrow> 'e set"
  assumes "\<And>w. tbl (rw_kernel (snd (m w))) = tbl (rw_kernel w)"
  shows "keeps (holds tbl base X) (on_field get put m)"
  unfolding keeps_def
proof (intro allI impI)
  fix w :: "('m, 'k) os_world" assume "holds tbl base X w"
  moreover have "tbl (rw_kernel (snd (on_field get put m w))) = tbl (rw_kernel w)"
    using assms[of "with_self (get (rw_self w)) w"] by (simp add: on_field_def with_self_def split_beta)
  ultimately show "holds tbl base X (snd (on_field get put m w))" by (simp add: holds_def)
qed

lemma holds_add:
  assumes "table_ops add del tbl" and "e \<in> X"
  shows "keeps (holds tbl base X) (on_kernel (add e))"
proof (rule on_kernel_keeps)
  fix w assume "holds tbl base X w"
  moreover have "tbl (snd (add e (rw_kernel w))) = tbl (rw_kernel w) \<or>
    tbl (snd (add e (rw_kernel w))) = insert e (tbl (rw_kernel w))"
    using assms(1) by (simp add: table_ops_def)
  ultimately show "holds tbl base X (w\<lparr>rw_kernel := snd (add e (rw_kernel w))\<rparr>)"
    using assms(2) by (auto simp: holds_def)
qed

lemma holds_del:
  assumes "table_ops add del tbl" and "e \<notin> base"
  shows "triple (holds tbl base X) (on_kernel (del e)) (holds tbl base (X - {e}))"
  unfolding triple_def
proof (intro allI impI)
  fix w x t assume w: "holds tbl base X w" and "on_kernel (del e) w = (Inr x, t)"
  then have "rw_kernel t = snd (del e (rw_kernel w))"
    by (auto simp: on_kernel_def io_zoom_apply split: prod.splits)
  moreover have "tbl (snd (del e (rw_kernel w))) = tbl (rw_kernel w) - {e}"
    using assms(1) by (simp add: table_ops_def)
  ultimately show "holds tbl base (X - {e}) t" using w assms(2) by (auto simp: holds_def)
qed

text \<open>Deleting the route of each item that has one.\<close>

lemma holds_del_each:
  assumes "table_ops add del tbl" and "\<And>x e. x \<in> set xs \<Longrightarrow> f x = Some e \<Longrightarrow> e \<notin> base"
  shows "triple (holds tbl base X :: ('m, 'k) os_world \<Rightarrow> bool)
    (io_for xs (\<lambda>x. case f x of Some e \<Rightarrow> on_kernel (del e) | None \<Rightarrow> io_return ()))
    (holds tbl base (X - {e. \<exists>x \<in> set xs. f x = Some e}))"
  using assms(2)
proof (induction xs arbitrary: X)
  case Nil
  then show ?case by (simp add: triple_def io_simps)
next
  case (Cons x xs)
  let ?rest = "{e. \<exists>y \<in> set xs. f y = Some e}"
  have rest: "triple (holds tbl base Y :: ('m, 'k) os_world \<Rightarrow> bool)
      (io_for xs (\<lambda>x. case f x of Some e \<Rightarrow> on_kernel (del e) | None \<Rightarrow> io_return ())) (holds tbl base (Y - ?rest))" for Y
    by (rule Cons.IH) (use Cons.prems in auto)
  show ?case
  proof (cases "f x")
    case None
    then have "X - {e. \<exists>y \<in> set (x # xs). f y = Some e} = X - ?rest" by auto
    then show ?thesis using None rest[of X] by (simp add: triple_def io_simps)
  next
    case (Some e)
    then have "X - {e. \<exists>y \<in> set (x # xs). f y = Some e} = X - {e} - ?rest" by auto
    moreover have "triple (holds tbl base X :: ('m, 'k) os_world \<Rightarrow> bool) (on_kernel (del e)) (holds tbl base (X - {e}))"
      by (rule holds_del[OF assms(1)]) (use Cons.prems Some in auto)
    ultimately show ?thesis using Some triple_bind[OF _ rest] by simp
  qed
qed

lemma holds_del_list:
  assumes "table_ops add del tbl" and "g ` set xs \<inter> base = {}"
  shows "triple (holds tbl base X) (io_for xs (\<lambda>x. on_kernel (del (g x)))) (holds tbl base (X - g ` set xs))"
proof -
  have "{e. \<exists>x \<in> set xs. Some (g x) = Some e} = g ` set xs" by auto
  then show ?thesis using holds_del_each[OF assms(1), of xs "\<lambda>x. Some (g x)" base X] assms(2) by auto
qed

end
