(* ===== verification/Macos_System.thy ===== *)
theory Macos_System
  imports Commands Config_Files
begin

text \<open>
  The macOS backend: \<^verbatim>\<open>src/platform/macos\<close>. The link is looked up in what
  \<^verbatim>\<open>route\<close> and \<^verbatim>\<open>ifconfig\<close> print, \<^verbatim>\<open>networksetup\<close> sets the resolver,
  and \<^verbatim>\<open>route\<close> the routes; the programs are the parameter \<open>sh\<close>.
\<close>

section \<open>The default link\<close>

fun interface_line :: "string list \<Rightarrow> string option" where
  "interface_line [] = None"
| "interface_line (line # lines) =
     (case strip_prefix ''interface:'' (str_trim line) of
        Some iface \<Rightarrow> Some (str_trim iface)
      | None \<Rightarrow> interface_line lines)"

definition default_interface :: "'k shell \<Rightarrow> ('k, string option) io" where
  "default_interface sh =
     io_bind (cmd_text sh ''/sbin/route'' [''-n'', ''get'', ''-inet'', ''default'']) (\<lambda>text.
     io_return (case text of None \<Rightarrow> None | Some text \<Rightarrow> interface_line (str_lines text)))"

fun mtu_token :: "string list \<Rightarrow> u32 option" where
  "mtu_token [] = None"
| "mtu_token (token # tokens) =
     (if token = ''mtu'' then (case tokens of [] \<Rightarrow> None | mtu # _ \<Rightarrow> parse_u32 mtu) else mtu_token tokens)"

definition interface_mtu :: "'k shell \<Rightarrow> string \<Rightarrow> ('k, u32 option) io" where
  "interface_mtu sh iface =
     io_bind (cmd_text sh ''/sbin/ifconfig'' [iface]) (\<lambda>text.
     io_return (case text of None \<Rightarrow> None | Some text \<Rightarrow> mtu_token (split_whitespace text)))"

definition has_default_gateway :: "'k shell \<Rightarrow> string \<Rightarrow> ('k, bool) io" where
  "has_default_gateway sh family =
     io_bind (cmd_text sh ''/sbin/route'' [''-n'', ''get'', family, ''default'']) (\<lambda>text.
     io_return (case text of
        None \<Rightarrow> False
      | Some text \<Rightarrow> list_ex (\<lambda>line. strip_prefix ''gateway:'' (str_trim line) \<noteq> None) (str_lines text)))"

definition macos_detect_link :: "'k shell \<Rightarrow> ('k, LinkInfo) io" where
  "macos_detect_link sh =
     io_bind (default_interface sh) (\<lambda>iface.
     io_bind (case iface of Some iface \<Rightarrow> interface_mtu sh iface | None \<Rightarrow> io_return None) (\<lambda>mtu.
     io_bind (has_default_gateway sh ''-inet6'') (\<lambda>v6.
     io_return \<lparr>li_mtu = mtu, li_has_ipv6_gateway = v6\<rparr>)))"

section \<open>The resolver\<close>

record NetworkSetupDns =
  ns_service :: string
  ns_current :: "IpAddr option"
  ns_original :: "string list option"

definition NETWORKSETUP :: string where
  "NETWORKSETUP = ''/usr/sbin/networksetup''"

fun service_line :: "string list \<Rightarrow> string option" where
  "service_line [] = None"
| "service_line (line # lines) =
     (case strip_prefix ''('' (str_trim line) of
        None \<Rightarrow> service_line lines
      | Some rest \<Rightarrow>
          (case drop 1 (split_str '')'' [] rest) of
             [] \<Rightarrow> service_line lines
           | name # _ \<Rightarrow> if str_trim name \<noteq> [] then Some (str_trim name) else service_line lines))"

fun service_block :: "string list \<Rightarrow> string option" where
  "service_block [] = None"
| "service_block (block # blocks) =
     (if str_contains block ''Device:''
      then (case service_line (str_lines block) of Some name \<Rightarrow> Some name | None \<Rightarrow> service_block blocks)
      else service_block blocks)"

definition primary_service :: "'k shell \<Rightarrow> ('k, string) io" where
  "primary_service sh =
     io_bind (io_context ''failed to run networksetup'' (sh NETWORKSETUP [''-listnetworkserviceorder''])) (\<lambda>out.
     case service_block (split_str [LF, LF] [] (from_utf8_lossy (co_stdout out))) of
       Some name \<Rightarrow> io_return name
     | None \<Rightarrow> io_bail [''could not determine primary network service''])"

definition server_lines :: "string \<Rightarrow> string list" where
  "server_lines text =
     (if str_contains text ''There aren't any'' then []
      else filter (\<lambda>l. l \<noteq> []) (map str_trim (str_lines text)))"

definition get_servers :: "'k shell \<Rightarrow> string \<Rightarrow> ('k, string list) io" where
  "get_servers sh service =
     io_bind (cmd_text sh NETWORKSETUP [''-getdnsservers'', service]) (\<lambda>text.
     io_return (case text of None \<Rightarrow> [] | Some text \<Rightarrow> server_lines text))"

definition set_servers :: "'k shell \<Rightarrow> string \<Rightarrow> string list \<Rightarrow> ('k, unit) io" where
  "set_servers sh service servers =
     cmd_checked sh NETWORKSETUP
       ([''-setdnsservers'', service] @ (if servers = [] then [''Empty''] else servers))
       ''failed to run networksetup -setdnsservers'' ''networksetup -setdnsservers''"

definition discover :: "'k shell \<Rightarrow> ('k, NetworkSetupDns) io" where
  "discover sh =
     io_bind (primary_service sh) (\<lambda>service.
     io_return \<lparr>ns_service = service, ns_current = None, ns_original = None\<rparr>)"

type_synonym 'k nsd_world = "(NetworkSetupDns, 'k) os_world"

definition nsd_ensure_backup :: "'k shell \<Rightarrow> ('k nsd_world, unit) io" where
  "nsd_ensure_backup sh =
     io_bind (io_gets rw_self) (\<lambda>self.
     if ns_original self = None
     then io_bind (on_kernel (get_servers sh (ns_service self))) (\<lambda>servers.
          rt_self (\<lambda>d. d\<lparr>ns_original := Some servers\<rparr>))
     else io_return ())"

definition nsd_apply :: "'k shell \<Rightarrow> IpAddr option \<Rightarrow> ('k nsd_world, unit) io" where
  "nsd_apply sh server =
     (case server of
        None \<Rightarrow> io_return ()
      | Some dns \<Rightarrow>
          io_bind (nsd_ensure_backup sh) (\<lambda>_.
          io_bind (io_gets (ns_service \<circ> rw_self)) (\<lambda>service.
          io_bind (on_kernel (set_servers sh service [show_ip dns])) (\<lambda>_.
          io_bind (rt_self (\<lambda>d. d\<lparr>ns_current := Some dns\<rparr>)) (\<lambda>_.
          rt_log (log_info (''DNS set to '' @ show_ip dns @ '' on '' @ service)))))))"

definition nsd_reload :: "'k shell \<Rightarrow> IpAddr option \<Rightarrow> ('k nsd_world, unit) io" where
  "nsd_reload sh server =
     io_bind (io_gets rw_self) (\<lambda>self.
     if server = ns_current self then io_return ()
     else
       io_bind
         (case server of
            Some dns \<Rightarrow>
              io_bind (nsd_ensure_backup sh) (\<lambda>_.
              io_bind (on_kernel (set_servers sh (ns_service self) [show_ip dns])) (\<lambda>_.
              rt_log (log_info (''DNS set to '' @ show_ip dns @ '' on '' @ ns_service self @ '' (reload)''))))
          | None \<Rightarrow>
              (case ns_original self of
                 Some orig \<Rightarrow>
                   io_bind (on_kernel (set_servers sh (ns_service self) orig)) (\<lambda>_.
                   rt_log (log_info ''DNS override disabled (reload)''))
               | None \<Rightarrow> io_return ())) (\<lambda>_.
       rt_self (\<lambda>d. d\<lparr>ns_current := server\<rparr>)))"

definition nsd_restore :: "'k shell \<Rightarrow> ('k nsd_world, unit) io" where
  "nsd_restore sh =
     io_bind (io_gets rw_self) (\<lambda>self.
     if ns_current self = None then io_return ()
     else
       io_bind
         (case ns_original self of
            Some orig \<Rightarrow>
              io_bind (rt_self (\<lambda>d. d\<lparr>ns_original := None\<rparr>)) (\<lambda>_.
              io_bind (io_catch (on_kernel (set_servers sh (ns_service self) orig))) (\<lambda>r.
              case r of
                Inl e \<Rightarrow> rt_log (log_warn (''failed to restore DNS: '' @ display_error e))
              | Inr _ \<Rightarrow> rt_log (log_info ''DNS restored'')))
          | None \<Rightarrow> io_return ()) (\<lambda>_.
       rt_self (\<lambda>d. d\<lparr>ns_current := None\<rparr>)))"

section \<open>The routes\<close>

definition macos_V4_SPLIT :: "string list" where
  "macos_V4_SPLIT = [''0.0.0.0/1'', ''128.0.0.0/1'']"

definition macos_V6_SPLIT :: "string list" where
  "macos_V6_SPLIT = [''::/1'', ''8000::/1'']"

definition macos_host_prefix :: "IpAddr \<Rightarrow> u8" where
  "macos_host_prefix addr = (if is_ipv4 addr then 32 else 128)"

definition ROUTE :: string where
  "ROUTE = ''/sbin/route''"

definition route :: "'k shell \<Rightarrow> string list \<Rightarrow> ('k, unit) io" where
  "route sh args = cmd_checked sh ROUTE args ''failed to run route'' (''route '' @ debug_strs args)"

definition route_quiet :: "'k shell \<Rightarrow> string list \<Rightarrow> ('k, unit) io" where
  "route_quiet sh args = cmd_quiet sh ROUTE args"

fun gateway_line :: "string list \<Rightarrow> IpAddr option" where
  "gateway_line [] = None"
| "gateway_line (line # lines) =
     (case strip_prefix ''gateway:'' (str_trim line) of
        None \<Rightarrow> gateway_line lines
      | Some gw \<Rightarrow> (case parse_ip (str_trim gw) of Inr ip \<Rightarrow> Some ip | Inl _ \<Rightarrow> gateway_line lines))"

definition macos_default_gateway :: "'k shell \<Rightarrow> string \<Rightarrow> ('k, IpAddr option) io" where
  "macos_default_gateway sh family =
     io_bind (cmd_text sh ROUTE [''-n'', ''get'', family, ''default'']) (\<lambda>text.
     io_return (case text of None \<Rightarrow> None | Some text \<Rightarrow> gateway_line (str_lines text)))"

record MacosRoutes =
  mr_proxy_ip :: IpAddr
  mr_tun_name :: string
  mr_bypass :: CidrList
  mr_capture_ipv6 :: bool
  mr_v4_gateway :: "IpAddr option"
  mr_v6_gateway :: "IpAddr option"
  mr_dns :: NetworkSetupDns
  mr_dns_server :: "IpAddr option"
  mr_applied :: bool

type_synonym 'k macos_world = "(MacosRoutes, 'k) os_world"

text \<open>
  The fields are evaluated in the order of the source: the accessors of the configuration panic on a
  value that was not validated.
\<close>

definition MacosRoutes_new :: "'k shell \<Rightarrow> Config \<Rightarrow> IpAddr \<Rightarrow> string \<Rightarrow> bool \<Rightarrow> 'k \<Rightarrow> MacosRoutes result may_panic \<times> 'k" where
  "MacosRoutes_new sh cfg ip tun capture k =
     (case bypass_routes cfg of
        Inl p \<Rightarrow> (Inl p, k)
      | Inr bypass \<Rightarrow>
          (case discover sh k of
             (Inl e, k') \<Rightarrow> (Inr (Inl e), k')
           | (Inr dns, k') \<Rightarrow>
               (case dns_addr cfg of
                  Inl p \<Rightarrow> (Inl p, k')
                | Inr server \<Rightarrow>
                    (Inr (Inr \<lparr>mr_proxy_ip = ip, mr_tun_name = tun, mr_bypass = bypass,
                       mr_capture_ipv6 = capture, mr_v4_gateway = None, mr_v6_gateway = None,
                       mr_dns = dns, mr_dns_server = server, mr_applied = False\<rparr>), k'))))"

definition macos_gateway_for :: "MacosRoutes \<Rightarrow> IpAddr \<Rightarrow> IpAddr option" where
  "macos_gateway_for self addr = (case addr of V4 _ \<Rightarrow> mr_v4_gateway self | V6 _ \<Rightarrow> mr_v6_gateway self)"

text \<open>The arguments that name a route: through a gateway, and into the tunnel.\<close>

definition inet :: "IpAddr \<Rightarrow> string" where
  "inet dst = (if is_ipv4 dst then ''-inet'' else ''-inet6'')"

definition via_gateway :: "IpAddr \<Rightarrow> u8 \<Rightarrow> IpAddr \<Rightarrow> string list" where
  "via_gateway dst prefix gw = [inet dst, ''-net'', show_ip dst @ ''/'' @ show_word prefix, show_ip gw]"

definition via_tun :: "string \<Rightarrow> string \<Rightarrow> string \<Rightarrow> string list" where
  "via_tun family net tun = [family, ''-net'', net, ''-interface'', tun]"

definition add_host_via_gateway :: "'k shell \<Rightarrow> IpAddr \<Rightarrow> u8 \<Rightarrow> IpAddr \<Rightarrow> ('k, unit) io" where
  "add_host_via_gateway sh dst prefix gw = route sh (''add'' # via_gateway dst prefix gw)"

definition on_nsd :: "('k nsd_world, 'a) io \<Rightarrow> ('k macos_world, 'a) io" where
  "on_nsd = on_field mr_dns (\<lambda>d m. m\<lparr>mr_dns := d\<rparr>)"

definition macos_add_bypass :: "'k shell \<Rightarrow> MacosRoutes \<Rightarrow> IpAddr \<times> u8 \<Rightarrow> ('k macos_world, unit) io" where
  "macos_add_bypass sh self =
     (\<lambda>(dst, prefix).
        case macos_gateway_for self dst of
          Some g \<Rightarrow>
            io_bind (on_kernel (add_host_via_gateway sh dst prefix g)) (\<lambda>_.
            rt_log (log_info (''bypass route '' @ show_ip dst @ ''/'' @ show_word prefix @ '' via '' @ show_ip g @ '' added'')))
        | None \<Rightarrow>
            rt_log (log_warn (''skipping bypass '' @ show_ip dst @ ''/'' @ show_word prefix @ '': no gateway'')))"

definition macos_install :: "'k shell \<Rightarrow> MacosRoutes \<Rightarrow> ('k macos_world, unit) io" where
  "macos_install sh self =
     io_bind (io_lift (context_opt (''no default gateway for proxy '' @ show_ip (mr_proxy_ip self))
                (macos_gateway_for self (mr_proxy_ip self)))) (\<lambda>gw.
     io_bind (io_context ''failed to pin proxy host route''
                (on_kernel (add_host_via_gateway sh (mr_proxy_ip self) (macos_host_prefix (mr_proxy_ip self)) gw))) (\<lambda>_.
     io_bind (rt_log (log_info (''proxy host route '' @ show_ip (mr_proxy_ip self) @ '' via '' @ show_ip gw @ '' added''))) (\<lambda>_.
     io_bind (io_for (mr_bypass self) (macos_add_bypass sh self)) (\<lambda>_.
     io_bind (io_for macos_V4_SPLIT (\<lambda>net. on_kernel (route sh (''add'' # via_tun ''-inet'' net (mr_tun_name self))))) (\<lambda>_.
     io_bind (rt_log (log_info ''IPv4 split-default routes into tun added'')) (\<lambda>_.
     if mr_capture_ipv6 self \<and> (mr_v6_gateway self \<noteq> None \<or> is_ipv6 (mr_proxy_ip self))
     then
       io_bind (io_for macos_V6_SPLIT (\<lambda>net. on_kernel (route sh (''add'' # via_tun ''-inet6'' net (mr_tun_name self))))) (\<lambda>_.
       rt_log (log_info ''IPv6 split-default routes into tun added''))
     else io_return ()))))))"

definition MacosRoutes_apply :: "'k shell \<Rightarrow> ('k macos_world, unit) io" where
  "MacosRoutes_apply sh =
     io_bind (on_kernel (macos_default_gateway sh ''-inet'')) (\<lambda>v4.
     io_bind (rt_self (\<lambda>m. m\<lparr>mr_v4_gateway := v4\<rparr>)) (\<lambda>_.
     io_bind (on_kernel (macos_default_gateway sh ''-inet6'')) (\<lambda>v6.
     io_bind (rt_self (\<lambda>m. m\<lparr>mr_v6_gateway := v6\<rparr>)) (\<lambda>_.
     io_bind (io_gets rw_self) (\<lambda>self.
     io_bind (macos_install sh self) (\<lambda>_.
     io_bind (on_nsd (nsd_apply sh (mr_dns_server self))) (\<lambda>_.
     rt_self (\<lambda>m. m\<lparr>mr_applied := True\<rparr>))))))))"

text \<open>Deleting the route of a block through its gateway, if there is one.\<close>

definition macos_delete :: "'k shell \<Rightarrow> MacosRoutes \<Rightarrow> IpAddr \<times> u8 \<Rightarrow> ('k macos_world, unit) io" where
  "macos_delete sh self =
     (\<lambda>(dst, prefix).
        case macos_gateway_for self dst of
          Some gw \<Rightarrow> on_kernel (route_quiet sh (''delete'' # via_gateway dst prefix gw))
        | None \<Rightarrow> io_return ())"

definition macos_move_proxy :: "'k shell \<Rightarrow> MacosRoutes \<Rightarrow> IpAddr \<Rightarrow> IpAddr \<Rightarrow> ('k macos_world, unit) io" where
  "macos_move_proxy sh self old_ip new_ip =
     io_bind (macos_delete sh self (old_ip, macos_host_prefix old_ip)) (\<lambda>_.
     io_bind (io_lift (context_opt (''no gateway for new proxy '' @ show_ip new_ip) (macos_gateway_for self new_ip))) (\<lambda>gw.
     io_bind (on_kernel (add_host_via_gateway sh new_ip (macos_host_prefix new_ip) gw)) (\<lambda>_.
     io_bind (rt_self (\<lambda>m. m\<lparr>mr_proxy_ip := new_ip\<rparr>)) (\<lambda>_.
     rt_log (log_info (''proxy host route moved to '' @ show_ip new_ip @ '' via '' @ show_ip gw))))))"

definition macos_reload_add :: "'k shell \<Rightarrow> MacosRoutes \<Rightarrow> IpAddr \<times> u8 \<Rightarrow> ('k macos_world, unit) io" where
  "macos_reload_add sh self =
     (\<lambda>(dst, prefix).
        case macos_gateway_for self dst of
          Some gw \<Rightarrow>
            io_bind (on_kernel (add_host_via_gateway sh dst prefix gw)) (\<lambda>_.
            rt_log (log_info (''bypass route '' @ show_ip dst @ ''/'' @ show_word prefix @ '' via '' @ show_ip gw @
              '' added (reload)'')))
        | None \<Rightarrow> io_return ())"

text \<open>The gateways do not change after \<open>apply\<close>, so they may be read once at the start.\<close>

definition macos_reload_steps :: "'k shell \<Rightarrow> MacosRoutes \<Rightarrow> ReloadPlan \<Rightarrow> ('k macos_world, unit) io" where
  "macos_reload_steps sh self plan =
     io_bind (case pl_proxy_route_change plan of
                Some (old_ip, new_ip) \<Rightarrow> macos_move_proxy sh self old_ip new_ip
              | None \<Rightarrow> io_return ()) (\<lambda>_.
     io_bind (io_for (pl_bypass_remove plan) (macos_delete sh self)) (\<lambda>_.
     io_bind (io_for (pl_bypass_add plan) (macos_reload_add sh self)) (\<lambda>_.
     io_bind (rt_self (\<lambda>m. m\<lparr>mr_bypass := pl_new_bypass plan\<rparr>)) (\<lambda>_.
     if pl_dns_changed plan
     then
       io_bind (on_nsd (nsd_reload sh (pl_dns plan))) (\<lambda>_.
       rt_self (\<lambda>m. m\<lparr>mr_dns_server := pl_dns plan\<rparr>))
     else io_return ()))))"

definition MacosRoutes_reload :: "'k shell \<Rightarrow> ReloadPlan \<Rightarrow> ('k macos_world, unit) io" where
  "MacosRoutes_reload sh plan =
     io_bind (io_gets rw_self) (\<lambda>self.
     if mr_applied self then macos_reload_steps sh self plan else io_return ())"

definition macos_teardown_steps :: "'k shell \<Rightarrow> MacosRoutes \<Rightarrow> ('k macos_world, unit) io" where
  "macos_teardown_steps sh self =
     io_bind (macos_delete sh self (mr_proxy_ip self, macos_host_prefix (mr_proxy_ip self))) (\<lambda>_.
     io_bind (io_for (mr_bypass self) (macos_delete sh self)) (\<lambda>_.
     io_bind (io_for macos_V4_SPLIT (\<lambda>net.
       on_kernel (route_quiet sh (''delete'' # via_tun ''-inet'' net (mr_tun_name self))))) (\<lambda>_.
     io_bind (if mr_capture_ipv6 self
              then io_for macos_V6_SPLIT (\<lambda>net.
                     on_kernel (route_quiet sh (''delete'' # via_tun ''-inet6'' net (mr_tun_name self))))
              else io_return ()) (\<lambda>_.
     io_bind (rt_log (log_info ''routes removed'')) (\<lambda>_.
     on_nsd (nsd_restore sh))))))"

definition MacosRoutes_teardown :: "'k shell \<Rightarrow> ('k macos_world, unit) io" where
  "MacosRoutes_teardown sh =
     io_bind (io_gets rw_self) (\<lambda>self.
     if mr_applied self
     then io_bind (rt_self (\<lambda>m. m\<lparr>mr_applied := False\<rparr>)) (\<lambda>_. macos_teardown_steps sh self)
     else io_return ())"

end
