(* ===== verification/Macos_Session.thy ===== *)
theory Macos_Session
  imports Macos_System App_Run
begin

text \<open>
  The macOS backend in a session. The contracts of \<^verbatim>\<open>DnsConfigurator\<close> and
  \<^verbatim>\<open>RouteController\<close> are interpreted on it, and a run of the program puts the routes and the
  resolver settings of the host back.
\<close>

section \<open>What the programs do\<close>

text \<open>
  The documented behaviour of \<^verbatim>\<open>route\<close> and \<^verbatim>\<open>networksetup\<close>. \<open>tbl\<close> are the routes of
  the host, each as the arguments that name it, \<open>servers\<close> the resolvers of each network service.
\<close>

definition succeeded :: "cmd_output result \<Rightarrow> bool" where
  "succeeded r = (case r of Inr out \<Rightarrow> co_success out | Inl _ \<Rightarrow> False)"

definition route_ok :: "'k shell \<Rightarrow> ('k \<Rightarrow> string list set) \<Rightarrow> bool" where
  "route_ok sh tbl \<longleftrightarrow>
     (\<forall>e k. tbl (snd (sh ROUTE (''add'' # e) k)) =
        (if succeeded (fst (sh ROUTE (''add'' # e) k)) then insert e (tbl k) else tbl k)) \<and>
     (\<forall>e k. tbl (snd (sh ROUTE (''delete'' # e) k)) = tbl k - {e}) \<and>
     (\<forall>prog args k. \<not> (prog = ROUTE \<and> (\<exists>e. args = ''add'' # e \<or> args = ''delete'' # e)) \<longrightarrow>
        tbl (snd (sh prog args k)) = tbl k)"

definition printed_servers :: "string list \<Rightarrow> bytes \<Rightarrow> bool" where
  "printed_servers xs out \<longleftrightarrow>
     (if xs = [] then str_contains (from_utf8_lossy out) ''There aren't any''
      else out = as_bytes (concat (map (\<lambda>s. s @ [LF]) xs)))"

definition networksetup_ok :: "'k shell \<Rightarrow> ('k \<Rightarrow> string \<Rightarrow> string list) \<Rightarrow> bool" where
  "networksetup_ok sh servers \<longleftrightarrow>
     (\<forall>service xs k. succeeded (fst (sh NETWORKSETUP (''-setdnsservers'' # service # xs) k)) \<and>
        servers (snd (sh NETWORKSETUP (''-setdnsservers'' # service # xs) k)) =
          (servers k)(service := (if xs = [''Empty''] then [] else xs))) \<and>
     (\<forall>service k. \<exists>out. fst (sh NETWORKSETUP [''-getdnsservers'', service] k) = Inr out \<and>
        printed_servers (servers k service) (co_stdout out)) \<and>
     (\<forall>prog args k. \<not> (prog = NETWORKSETUP \<and> (\<exists>service xs. args = ''-setdnsservers'' # service # xs)) \<longrightarrow>
        servers (snd (sh prog args k)) = servers k)"

section \<open>Reading the servers back\<close>

definition printable :: "char \<Rightarrow> bool" where
  "printable c \<longleftrightarrow> 33 \<le> (of_char c :: nat) \<and> (of_char c :: nat) < 127"

definition server_name :: "string \<Rightarrow> bool" where
  "server_name s \<longleftrightarrow> s \<noteq> [] \<and> list_all printable s"

lemma ws_len_printable: "printable c \<Longrightarrow> ws_len (c # s) = 0"
  by (auto simp: printable_def ws_len_def WHITE_SPACE_def upt_rec)

lemma trim_printable: "list_all printable s \<Longrightarrow> str_trim s = s"
proof -
  have start: "trim_start t = t" if "list_all printable t" for t
    using that by (cases t) (simp_all add: trim_start.simps ws_len_printable)
  have "trim_end t = t" if "list_all printable t" for t
    using that
  proof (induction t)
    case (Cons c t)
    then show ?case using start[of "c # t"] by simp
  qed simp
  then show "list_all printable s \<Longrightarrow> str_trim s = s" using start by (simp add: str_trim_def)
qed

lemma str_lines_printed:
  assumes "list_all server_name xs"
  shows "str_lines (concat (map (\<lambda>s. s @ [LF]) xs)) = xs"
  using assms
proof (induction xs)
  case Nil
  then show ?case by (simp add: str_lines.simps)
next
  case (Cons x xs)
  have "c \<noteq> LF \<and> c \<noteq> CR" if "c \<in> set x" for c
    using Cons.prems that by (auto simp: server_name_def list_all_iff printable_def LF_def CR_def)
  then have "takeWhile (\<lambda>c. c \<noteq> LF) (x @ LF # r) = x" "dropWhile (\<lambda>c. c \<noteq> LF) (x @ LF # r) = LF # r"
    "last x \<noteq> CR" for r
    using Cons.prems last_in_set[of x]
    by (auto simp: takeWhile_append2 dropWhile_append2 server_name_def)
  then have "str_lines (x @ LF # r) = x # str_lines r" for r
    by (subst str_lines.simps) (simp add: Let_def)
  then show ?case using Cons by simp
qed

lemma str_contains_set: "str_contains s p \<Longrightarrow> set p \<subseteq> set s"
proof (induction s)
  case (Cons c s)
  have "set p \<subseteq> set s" if "strip_prefix p s = Some t" for p s t
    using that by (induction p s rule: strip_prefix.induct) (auto split: if_splits)
  from this[of p "c # s"] show ?case using Cons by auto
qed simp

lemma no_blank_no_phrase: "CHR '' '' \<notin> set s \<Longrightarrow> \<not> str_contains s ''There aren't any''"
  using str_contains_set[of s "''There aren't any''"] by auto

lemma ascii_valid: "(\<And>b. b \<in> set bs \<Longrightarrow> b < 0x80) \<Longrightarrow> utf8_valid bs"
  by (induction bs) (simp_all add: utf8_head_def)

lemma server_lines_printed:
  assumes "printed_servers xs out" and "list_all server_name xs"
  shows "server_lines (from_utf8_lossy out) = xs"
proof (cases "xs = []")
  case True
  then show ?thesis using assms(1) by (simp add: printed_servers_def server_lines_def)
next
  case False
  let ?text = "concat (map (\<lambda>s. s @ [LF]) xs)"
  have out: "out = as_bytes ?text" using assms(1) False by (simp add: printed_servers_def)
  have chars: "c = LF \<or> printable c" if "c \<in> set ?text" for c
    using assms(2) that by (auto simp: list_all_iff server_name_def split: if_splits)
  have "b < 0x80" if b: "b \<in> set out" for b
  proof -
    obtain c where "c \<in> set ?text" "b = of_char c" using b by (auto simp: out as_bytes_def)
    moreover then have "(of_char c :: nat) < 128" using chars[of c] by (auto simp: printable_def LF_def)
    moreover have "unat (of_nat (of_char c) :: u8) = of_char c" by (simp add: unsigned_of_nat take_bit_eq_mod)
    ultimately show ?thesis unfolding of_nat_of_char by (simp add: word_less_nat_alt)
  qed
  then have "from_utf8_lossy out = ?text"
    using ascii_valid[of out] by (simp add: from_utf8_lossy_def utf8_lossy_valid out)
  moreover have "\<not> (CHR '' '' = LF \<or> printable CHR '' '')" by (simp add: printable_def LF_def)
  then have "CHR '' '' \<notin> set ?text" using chars by blast
  moreover have "filter (\<lambda>l. l \<noteq> []) (map str_trim xs) = xs"
    using assms(2) by (induction xs) (simp_all add: server_name_def trim_printable)
  ultimately have "\<not> str_contains (from_utf8_lossy out) ''There aren't any''" using no_blank_no_phrase by simp
  then show ?thesis using \<open>from_utf8_lossy out = ?text\<close> \<open>filter (\<lambda>l. l \<noteq> []) (map str_trim xs) = xs\<close>
      str_lines_printed[OF assms(2)] by (simp only: server_lines_def if_False)
qed

definition address_char :: "char \<Rightarrow> bool" where
  "address_char c \<longleftrightarrow> is_digit_of 16 c \<or> c = CHR ''.'' \<or> c = CHR '':''"

lemma show_number_chars: "list_all address_char (show_nat n)" "list_all address_char (show_hex n)"
proof -
  have "is_digit_of 16 c" if "is_digit_of 10 c" for c
    using that by (auto simp: to_digit_def Let_def split: if_splits)
  then show "list_all address_char (show_nat n)" "list_all address_char (show_hex n)"
    using show_radix_digits[of 10 _ n] show_radix_digits[of 16 _ n]
    by (auto simp: list_all_iff show_nat_def show_hex_def address_char_def)
qed

lemma address_chars [simp]: "address_char CHR ''.''" "address_char CHR '':''" "address_char CHR ''f''"
  by (simp_all add: address_char_def to_digit_def)

lemma show_segments_chars: "list_all address_char (show_segments gs)"
  by (induction gs rule: show_segments.induct) (simp_all add: show_number_chars)

lemma show_ipv4_chars: "list_all address_char (show_ipv4 a)"
  by (auto simp: show_ipv4_def show_number_chars split: list.split)

lemma show_ip_chars: "list_all address_char (show_ip a)"
  by (cases a) (auto simp: show_ipv6_def Let_def show_segments_chars show_ipv4_chars split: prod.split)

lemma show_ip_not_Empty: "show_ip a \<noteq> ''Empty''"
proof
  assume "show_ip a = ''Empty''"
  then have "CHR ''p'' \<in> set (show_ip a)" by simp
  with show_ip_chars[of a] have "address_char CHR ''p''" unfolding list_all_iff by blast
  then show False by (simp add: address_char_def to_digit_def)
qed

section \<open>The resolver contract\<close>

lemma networksetup_okD:
  assumes "networksetup_ok sh servers"
  shows "succeeded (fst (sh NETWORKSETUP (''-setdnsservers'' # service # xs) k))"
    and "servers (snd (sh NETWORKSETUP (''-setdnsservers'' # service # xs) k)) =
      (servers k)(service := (if xs = [''Empty''] then [] else xs))"
    and "\<exists>out. fst (sh NETWORKSETUP [''-getdnsservers'', service] k) = Inr out \<and>
      printed_servers (servers k service) (co_stdout out)"
    and "prog \<noteq> NETWORKSETUP \<or> hd args \<noteq> ''-setdnsservers'' \<Longrightarrow> servers (snd (sh prog args k)) = servers k"
proof -
  note ok = assms[unfolded networksetup_ok_def]
  show "succeeded (fst (sh NETWORKSETUP (''-setdnsservers'' # service # xs) k))"
    "servers (snd (sh NETWORKSETUP (''-setdnsservers'' # service # xs) k)) =
      (servers k)(service := (if xs = [''Empty''] then [] else xs))"
    "\<exists>out. fst (sh NETWORKSETUP [''-getdnsservers'', service] k) = Inr out \<and>
      printed_servers (servers k service) (co_stdout out)"
    using ok by (simp_all only:)
  assume "prog \<noteq> NETWORKSETUP \<or> hd args \<noteq> ''-setdnsservers''"
  then have "\<not> (prog = NETWORKSETUP \<and> (\<exists>service xs. args = ''-setdnsservers'' # service # xs))"
    by (auto simp del: char.inject)
  then show "servers (snd (sh prog args k)) = servers k" using ok by (simp only: simp_thms)
qed

lemma get_servers_run:
  assumes "networksetup_ok sh servers" and "list_all server_name (servers k service)"
  shows "\<exists>k'. get_servers sh service k = (Inr (servers k service), k') \<and> servers k' = servers k"
proof -
  obtain out k' where run: "sh NETWORKSETUP [''-getdnsservers'', service] k = (Inr out, k')"
    and out: "printed_servers (servers k service) (co_stdout out)"
    using networksetup_okD(3)[OF assms(1), of service k] by (auto simp: prod_eq_iff)
  have "servers k' = servers k"
    using networksetup_okD(4)[OF assms(1), of NETWORKSETUP "[''-getdnsservers'', service]" k] run by simp
  then show ?thesis
    using server_lines_printed[OF out assms(2)] run by (simp add: get_servers_def cmd_text_def io_simps)
qed

lemma set_servers_run:
  assumes "networksetup_ok sh servers" and "xs \<noteq> [''Empty'']"
  shows "\<exists>k'. set_servers sh service xs k = (Inr (), k') \<and> servers k' = (servers k)(service := xs)"
proof -
  define args where "args = (if xs = [] then [''Empty''] else xs)"
  obtain r k' where run: "sh NETWORKSETUP (''-setdnsservers'' # service # args) k = (r, k')" by fastforce
  have "succeeded r" "servers k' = (servers k)(service := (if args = [''Empty''] then [] else args))"
    using networksetup_okD(1,2)[OF assms(1), of service args k] run by simp_all
  moreover have "(if args = [''Empty''] then [] else args) = xs" using assms(2) by (simp add: args_def)
  moreover have "set_servers sh service xs k = cmd_checked sh NETWORKSETUP (''-setdnsservers'' # service # args)
      ''failed to run networksetup -setdnsservers'' ''networksetup -setdnsservers'' k"
    by (simp add: set_servers_def args_def)
  ultimately show ?thesis using run
    by (auto simp: cmd_checked_def io_simps succeeded_def split: sum.splits)
qed

text \<open>
  Between calls, for a service that had the servers \<open>orig\<close>: either nothing was read yet and they are
  in place, or they are remembered and the service has what \<open>ns_current\<close> says.
\<close>

definition nsd_settled :: "'k shell \<Rightarrow> ('k \<Rightarrow> string \<Rightarrow> string list) \<Rightarrow> string \<Rightarrow> string list \<Rightarrow> 'k nsd_world \<Rightarrow> bool" where
  "nsd_settled sh servers service orig w \<longleftrightarrow>
     networksetup_ok sh servers \<and> list_all server_name orig \<and> orig \<noteq> [''Empty''] \<and> ns_service (rw_self w) = service \<and>
     (ns_original (rw_self w) = Some orig \<or> ns_original (rw_self w) = None \<and> ns_current (rw_self w) = None) \<and>
     servers (rw_kernel w) service = (case ns_current (rw_self w) of None \<Rightarrow> orig | Some d \<Rightarrow> [show_ip d])"

lemma nsd_backup_settled:
  assumes "nsd_settled sh servers service orig w"
  shows "\<exists>k. nsd_ensure_backup sh w = (Inr (), w\<lparr>rw_self := (rw_self w)\<lparr>ns_original := Some orig\<rparr>, rw_kernel := k\<rparr>) \<and>
    servers k = servers (rw_kernel w)"
proof (cases "ns_original (rw_self w)")
  case None
  then have now: "servers (rw_kernel w) service = orig" "list_all server_name orig" "ns_service (rw_self w) = service"
    "networksetup_ok sh servers"
    using assms by (simp_all add: nsd_settled_def)
  obtain k where "get_servers sh service (rw_kernel w) = (Inr orig, k)" "servers k = servers (rw_kernel w)"
    using get_servers_run[OF now(4), of "rw_kernel w" service] now by auto
  then show ?thesis using None now(3)
    by (intro exI[of _ k]) (simp add: nsd_ensure_backup_def io_simps on_kernel_def rt_self_def)
next
  case (Some c)
  then have "c = orig" using assms by (auto simp: nsd_settled_def)
  then show ?thesis using Some
    by (intro exI[of _ "rw_kernel w"]) (simp add: nsd_ensure_backup_def io_simps)
qed

text \<open>Pointing the service at a server, once the original is remembered.\<close>

lemma nsd_point_settled:
  assumes "nsd_settled sh servers service orig w"
  shows "\<exists>v k. nsd_ensure_backup sh w = (Inr (), v) \<and> set_servers sh service [show_ip d] (rw_kernel v) = (Inr (), k) \<and>
    rw_self v = (rw_self w)\<lparr>ns_original := Some orig\<rparr> \<and> servers k = (servers (rw_kernel w))(service := [show_ip d])"
proof -
  obtain k where k: "nsd_ensure_backup sh w = (Inr (), w\<lparr>rw_self := (rw_self w)\<lparr>ns_original := Some orig\<rparr>, rw_kernel := k\<rparr>)"
    "servers k = servers (rw_kernel w)"
    using nsd_backup_settled[OF assms] by blast
  have "networksetup_ok sh servers" using assms by (simp add: nsd_settled_def)
  then obtain k' where "set_servers sh service [show_ip d] k = (Inr (), k')" "servers k' = (servers k)(service := [show_ip d])"
    using set_servers_run[of sh servers "[show_ip d]" service k] show_ip_not_Empty by auto
  then show ?thesis using k by auto
qed

lemma nsd_apply_settled:
  assumes "nsd_settled sh servers service orig w"
  shows "\<exists>t. nsd_apply sh srv w = (Inr (), t) \<and> nsd_settled sh servers service orig t \<and>
    ns_current (rw_self t) = (case srv of None \<Rightarrow> ns_current (rw_self w) | Some d \<Rightarrow> Some d)"
proof (cases srv)
  case None
  then show ?thesis using assms by (simp add: nsd_apply_def io_simps)
next
  case (Some d)
  obtain v k where "nsd_ensure_backup sh w = (Inr (), v)" "set_servers sh service [show_ip d] (rw_kernel v) = (Inr (), k)"
    "rw_self v = (rw_self w)\<lparr>ns_original := Some orig\<rparr>" "servers k = (servers (rw_kernel w))(service := [show_ip d])"
    using nsd_point_settled[OF assms] by blast
  then show ?thesis using assms Some
    by (simp add: nsd_apply_def io_simps on_kernel_def rt_self_def rt_log_def nsd_settled_def)
qed

lemma nsd_reload_settled:
  assumes "nsd_settled sh servers service orig w"
  shows "\<exists>t. nsd_reload sh srv w = (Inr (), t) \<and> nsd_settled sh servers service orig t \<and> ns_current (rw_self t) = srv"
proof (cases "srv = ns_current (rw_self w)")
  case True
  then show ?thesis using assms by (simp add: nsd_reload_def io_simps)
next
  case change: False
  show ?thesis
  proof (cases srv)
    case (Some d)
    obtain v k where "nsd_ensure_backup sh w = (Inr (), v)" "set_servers sh service [show_ip d] (rw_kernel v) = (Inr (), k)"
      "rw_self v = (rw_self w)\<lparr>ns_original := Some orig\<rparr>" "servers k = (servers (rw_kernel w))(service := [show_ip d])"
      using nsd_point_settled[OF assms] by blast
    then show ?thesis using assms Some change
      by (simp add: nsd_reload_def io_simps on_kernel_def rt_self_def rt_log_def nsd_settled_def)
  next
    case None
    then have orig: "ns_original (rw_self w) = Some orig" "networksetup_ok sh servers" "orig \<noteq> [''Empty'']"
      using assms change by (auto simp: nsd_settled_def)
    obtain k where "set_servers sh service orig (rw_kernel w) = (Inr (), k)" "servers k = (servers (rw_kernel w))(service := orig)"
      using set_servers_run[OF orig(2,3)] by blast
    then show ?thesis using assms None change orig(1)
      by (simp add: nsd_reload_def io_simps on_kernel_def rt_self_def rt_log_def nsd_settled_def)
  qed
qed

lemma nsd_restore_settled:
  assumes "nsd_settled sh servers service orig w"
  shows "\<exists>t. nsd_restore sh w = (Inr (), t) \<and> nsd_settled sh servers service orig t \<and> ns_current (rw_self t) = None"
proof (cases "ns_current (rw_self w)")
  case None
  then show ?thesis using assms by (simp add: nsd_restore_def io_simps)
next
  case (Some d)
  then have orig: "ns_original (rw_self w) = Some orig" "networksetup_ok sh servers" "orig \<noteq> [''Empty'']"
    using assms by (auto simp: nsd_settled_def)
  obtain k where "set_servers sh service orig (rw_kernel w) = (Inr (), k)" "servers k = (servers (rw_kernel w))(service := orig)"
    using set_servers_run[OF orig(2,3)] by blast
  then show ?thesis using assms Some orig(1)
    by (simp add: nsd_restore_def io_simps on_kernel_def rt_self_def rt_log_def nsd_settled_def)
qed

lemma nsd_view:
  "nsd_settled sh servers service orig w \<Longrightarrow>
   servers (rw_kernel w) service = (case ns_current (rw_self w) of None \<Rightarrow> orig | Some d \<Rightarrow> [show_ip d])"
  by (simp add: nsd_settled_def)

interpretation nsd: dns_configurator "nsd_apply sh" "nsd_reload sh" "nsd_restore sh"
  "nsd_settled sh servers service orig" "\<lambda>w. ns_current (rw_self w)" "\<lambda>w. servers (rw_kernel w) service"
  "\<lambda>d. [show_ip d]" orig for sh servers service orig
  using nsd_apply_settled nsd_reload_settled nsd_restore_settled nsd_view by unfold_locales blast+

section \<open>The routes of the controller\<close>

definition block_route :: "MacosRoutes \<Rightarrow> IpAddr \<times> u8 \<Rightarrow> string list option" where
  "block_route self = (\<lambda>(dst, prefix). map_option (via_gateway dst prefix) (macos_gateway_for self dst))"

definition block_routes :: "MacosRoutes \<Rightarrow> (IpAddr \<times> u8) set \<Rightarrow> string list set" where
  "block_routes self B = {e. \<exists>b \<in> B. block_route self b = Some e}"

definition tun_routes :: "MacosRoutes \<Rightarrow> string list set" where
  "tun_routes self =
     (\<lambda>net. via_tun ''-inet'' net (mr_tun_name self)) ` set macos_V4_SPLIT \<union>
     (if mr_capture_ipv6 self then (\<lambda>net. via_tun ''-inet6'' net (mr_tun_name self)) ` set macos_V6_SPLIT else {})"

definition macos_pin :: "IpAddr \<Rightarrow> IpAddr \<times> u8" where
  "macos_pin ip = (ip, macos_host_prefix ip)"

definition own_routes :: "MacosRoutes \<Rightarrow> string list set" where
  "own_routes self = block_routes self (insert (macos_pin (mr_proxy_ip self)) (set (mr_bypass self))) \<union> tun_routes self"

lemma block_routes_insert:
  "block_routes self (insert b B) = set_option (block_route self b) \<union> block_routes self B"
  by (auto simp: block_routes_def)

lemma route_table_ops:
  assumes "route_ok sh tbl"
  shows "table_ops (\<lambda>e. route sh (''add'' # e)) (\<lambda>e. route_quiet sh (''delete'' # e)) tbl"
  using assms by (simp add: table_ops_def route_ok_def route_def route_quiet_def cmd_snd)

lemma route_ok_other:
  assumes "route_ok sh tbl" and "prog \<noteq> ROUTE \<or> hd args \<notin> {''add'', ''delete''}"
  shows "tbl (snd (sh prog args k)) = tbl k"
proof -
  have "\<not> (prog = ROUTE \<and> (\<exists>e. args = ''add'' # e \<or> args = ''delete'' # e))" using assms(2) by auto
  then show ?thesis using assms(1) unfolding route_ok_def by blast
qed

lemma macos_delete_block:
  "macos_delete sh self b = (case block_route self b of
     Some e \<Rightarrow> on_kernel (route_quiet sh (''delete'' # e)) | None \<Rightarrow> io_return ())"
  by (simp add: macos_delete_def block_route_def split: prod.split option.split)

lemma holds_delete:
  assumes "route_ok sh tbl" and "set_option (block_route self b) \<inter> base = {}"
  shows "triple (holds tbl base X) (macos_delete sh self b) (holds tbl base (X - set_option (block_route self b)))"
proof (cases "block_route self b")
  case None
  then show ?thesis by (simp add: macos_delete_block triple_def io_simps)
next
  case (Some e)
  then show ?thesis using holds_del[OF route_table_ops[OF assms(1)], of e base X] assms(2)
    by (simp add: macos_delete_block)
qed

lemma holds_delete_each:
  assumes "route_ok sh tbl" and "block_routes self (set bs) \<inter> base = {}"
  shows "triple (holds tbl base X) (io_for bs (macos_delete sh self)) (holds tbl base (X - block_routes self (set bs)))"
proof -
  have "macos_delete sh self = (\<lambda>b. case block_route self b of
     Some e \<Rightarrow> on_kernel (route_quiet sh (''delete'' # e)) | None \<Rightarrow> io_return ())"
    by (rule ext) (rule macos_delete_block)
  then show ?thesis
    using holds_del_each[OF route_table_ops[OF assms(1)], of bs "block_route self" base X] assms(2)
    by (auto simp: block_routes_def)
qed

lemma holds_add_route:
  "route_ok sh tbl \<Longrightarrow> e \<in> X \<Longrightarrow> keeps (holds tbl base X) (on_kernel (route sh (''add'' # e)))"
  using holds_add[OF route_table_ops] .

lemma holds_add_block:
  assumes "route_ok sh tbl" and "set_option (block_route self b) \<subseteq> X"
  shows "keeps (holds tbl base X) (macos_add_bypass sh self b)" "keeps (holds tbl base X) (macos_reload_add sh self b)"
  using assms
  by (auto simp: macos_add_bypass_def macos_reload_add_def block_route_def add_host_via_gateway_def
      split: prod.splits option.splits intro!: io_keep holds_add_route)

lemma holds_install:
  assumes "route_ok sh tbl"
  shows "keeps (holds tbl base (own_routes self)) (macos_install sh self)"
proof -
  have blocks: "set_option (block_route self b) \<subseteq> own_routes self"
    if "b \<in> insert (macos_pin (mr_proxy_ip self)) (set (mr_bypass self))" for b
    using that by (auto simp: own_routes_def block_routes_def)
  have pin: "via_gateway (mr_proxy_ip self) (macos_host_prefix (mr_proxy_ip self)) gw \<in> own_routes self"
    if "macos_gateway_for self (mr_proxy_ip self) = Some gw" for gw
    using blocks[of "macos_pin (mr_proxy_ip self)"] that by (simp add: block_route_def macos_pin_def)
  have v4: "via_tun ''-inet'' net (mr_tun_name self) \<in> own_routes self" if "net \<in> set macos_V4_SPLIT" for net
    using that by (auto simp: own_routes_def tun_routes_def)
  have v6: "via_tun ''-inet6'' net (mr_tun_name self) \<in> own_routes self"
    if "net \<in> set macos_V6_SPLIT" "mr_capture_ipv6 self" for net
    using that by (auto simp: own_routes_def tun_routes_def)
  have gw: "keeps (holds tbl base (own_routes self)) (io_bind (io_lift (context_opt c (macos_gateway_for self (mr_proxy_ip self)))) f)"
    if "\<And>g. macos_gateway_for self (mr_proxy_ip self) = Some g \<Longrightarrow> keeps (holds tbl base (own_routes self)) (f g)" for c f
    using that by (cases "macos_gateway_for self (mr_proxy_ip self)") (simp_all add: keeps_def io_simps)
  show ?thesis
    unfolding macos_install_def add_host_via_gateway_def
    apply (rule gw)
    apply (intro io_keep holds_add_block(1)[OF assms] blocks holds_add_route[OF assms] pin v4 v6)
    apply auto
    done
qed

section \<open>The controller contract\<close>

text \<open>What a controller keeps while it issues commands: everything but its resolver settings.\<close>

definition mr_frame :: "MacosRoutes \<Rightarrow> 'k macos_world \<Rightarrow> bool" where
  "mr_frame m w \<longleftrightarrow> (let n = rw_self w in
     mr_proxy_ip n = mr_proxy_ip m \<and> mr_tun_name n = mr_tun_name m \<and> mr_bypass n = mr_bypass m \<and>
     mr_capture_ipv6 n = mr_capture_ipv6 m \<and> mr_v4_gateway n = mr_v4_gateway m \<and> mr_v6_gateway n = mr_v6_gateway m \<and>
     mr_dns_server n = mr_dns_server m \<and> mr_applied n = mr_applied m)"

lemma mr_frame_steps [io_keep]:
  "keeps (mr_frame m) (rt_log h)" "keeps (mr_frame m) (on_kernel c)" "keeps (mr_frame m) (on_nsd n)"
  by (auto simp: mr_frame_def Let_def keeps_def rt_log_def on_kernel_def on_nsd_def on_field_def with_self_def io_simps
      split: prod.splits)

lemma mr_frame_parts [io_keep]:
  "keeps (mr_frame m) (macos_delete sh self b)" "keeps (mr_frame m) (macos_add_bypass sh self b)"
  "keeps (mr_frame m) (macos_reload_add sh self b)" "keeps (mr_frame m) (macos_install sh self)"
proof -
  show add: "keeps (mr_frame m) (macos_add_bypass sh self b)" for b
    unfolding macos_add_bypass_def by (cases b) (auto split: option.split intro!: io_keep)
  show "keeps (mr_frame m) (macos_delete sh self b)" "keeps (mr_frame m) (macos_reload_add sh self b)"
    unfolding macos_delete_def macos_reload_add_def by (cases b; auto split: option.split intro!: io_keep)+
  show "keeps (mr_frame m) (macos_install sh self)"
    unfolding macos_install_def by (intro io_keep add)
qed

lemma mr_frame_self: "mr_frame (rw_self w) w"
  by (simp add: mr_frame_def)

lemma macos_applyE:
  assumes "MacosRoutes_apply sh w = (Inr (), t)"
  obtains v4 v6 k\<^sub>1 k u v where "macos_default_gateway sh ''-inet'' (rw_kernel w) = (Inr v4, k\<^sub>1)"
    "macos_default_gateway sh ''-inet6'' k\<^sub>1 = (Inr v6, k)"
    "u = w\<lparr>rw_kernel := k, rw_self := (rw_self w)\<lparr>mr_v4_gateway := v4, mr_v6_gateway := v6\<rparr>\<rparr>"
    "io_bind (macos_install sh (rw_self u)) (\<lambda>_. on_nsd (nsd_apply sh (mr_dns_server (rw_self u)))) u = (Inr (), v)"
    "mr_frame (rw_self u) v"
    "t = v\<lparr>rw_self := (rw_self v)\<lparr>mr_applied := True\<rparr>\<rparr>"
proof -
  obtain v4 k\<^sub>1 where 1: "macos_default_gateway sh ''-inet'' (rw_kernel w) = (Inr v4, k\<^sub>1)"
    using assms unfolding MacosRoutes_apply_def
    by (elim io_bind_okE) (auto simp: on_kernel_def io_zoom_apply split: prod.splits)
  obtain v6 k where 2: "macos_default_gateway sh ''-inet6'' k\<^sub>1 = (Inr v6, k)"
    using assms 1 unfolding MacosRoutes_apply_def
    by (auto simp: io_simps on_kernel_def rt_self_def split: prod.splits sum.splits)
  define u where "u = w\<lparr>rw_kernel := k, rw_self := (rw_self w)\<lparr>mr_v4_gateway := v4, mr_v6_gateway := v6\<rparr>\<rparr>"
  have "io_bind (macos_install sh (rw_self u)) (\<lambda>_. io_bind (on_nsd (nsd_apply sh (mr_dns_server (rw_self u)))) (\<lambda>_.
      rt_self (\<lambda>m. m\<lparr>mr_applied := True\<rparr>))) u = (Inr (), t)"
    using assms 1 2
    by (auto simp: MacosRoutes_apply_def io_bind_apply io_apply on_kernel_def io_zoom_apply rt_self_def u_def
        split: prod.splits sum.splits)
  then obtain v where v: "io_bind (macos_install sh (rw_self u)) (\<lambda>_. on_nsd (nsd_apply sh (mr_dns_server (rw_self u)))) u = (Inr (), v)"
    "t = v\<lparr>rw_self := (rw_self v)\<lparr>mr_applied := True\<rparr>\<rparr>"
    by (auto simp: io_simps rt_self_def split: prod.splits sum.splits)
  have "keeps (mr_frame (rw_self u)) (io_bind (macos_install sh (rw_self u)) (\<lambda>_. on_nsd (nsd_apply sh (mr_dns_server (rw_self u)))))"
    by (intro io_keep)
  from keepsD[OF this mr_frame_self v(1)] show thesis by (rule that[OF 1 2 u_def v(1) _ v(2)])
qed

lemma macos_reloadE:
  assumes "MacosRoutes_reload sh plan w = (Inr (), t)" and "mr_applied (rw_self w)"
  obtains u v where
    "(case pl_proxy_route_change plan of
        Some (old_ip, new_ip) \<Rightarrow> macos_move_proxy sh (rw_self w) old_ip new_ip
      | None \<Rightarrow> io_return ()) w = (Inr (), u)"
    "io_bind (io_for (pl_bypass_remove plan) (macos_delete sh (rw_self w))) (\<lambda>_.
       io_for (pl_bypass_add plan) (macos_reload_add sh (rw_self w))) u = (Inr (), v)"
    "(if pl_dns_changed plan
      then io_bind (on_nsd (nsd_reload sh (pl_dns plan))) (\<lambda>_. rt_self (\<lambda>m. m\<lparr>mr_dns_server := pl_dns plan\<rparr>))
      else io_return ()) (v\<lparr>rw_self := (rw_self v)\<lparr>mr_bypass := pl_new_bypass plan\<rparr>\<rparr>) = (Inr (), t)"
proof -
  from assms have steps: "macos_reload_steps sh (rw_self w) plan w = (Inr (), t)"
    by (simp add: MacosRoutes_reload_def io_simps)
  then show thesis
    unfolding macos_reload_steps_def
    apply (elim io_bind_unitE)
    apply (rule that)
      apply assumption
     apply (simp add: io_bind_apply)
    apply (simp add: rt_self_def io_apply)
    done
qed

lemma macos_moveE:
  assumes "macos_move_proxy sh self old_ip new_ip w = (Inr (), u)"
  obtains a gw b where "macos_delete sh self (old_ip, macos_host_prefix old_ip) w = (Inr (), a)"
    "macos_gateway_for self new_ip = Some gw"
    "on_kernel (add_host_via_gateway sh new_ip (macos_host_prefix new_ip) gw) a = (Inr (), b)"
    "rw_self u = (rw_self b)\<lparr>mr_proxy_ip := new_ip\<rparr>" "rw_kernel u = rw_kernel b" "rw_fs u = rw_fs b"
  using assms unfolding macos_move_proxy_def
  by (elim io_bind_okE) (auto simp: io_apply rt_self_def rt_log_def)

lemma macos_move_frame:
  assumes "macos_move_proxy sh self old_ip new_ip w = (Inr (), u)"
  shows "mr_frame ((rw_self w)\<lparr>mr_proxy_ip := new_ip\<rparr>) u"
  using assms
proof (rule macos_moveE)
  fix a gw b
  assume "macos_delete sh self (old_ip, macos_host_prefix old_ip) w = (Inr (), a)"
    and "on_kernel (add_host_via_gateway sh new_ip (macos_host_prefix new_ip) gw) a = (Inr (), b)"
    and u: "rw_self u = (rw_self b)\<lparr>mr_proxy_ip := new_ip\<rparr>"
  then have "mr_frame (rw_self w) b"
    by (meson keepsD mr_frame_parts(1) mr_frame_self mr_frame_steps(2))
  then show ?thesis by (simp add: u mr_frame_def Let_def)
qed

text \<open>The controller after a reload.\<close>

lemma macos_reload_frame:
  assumes "MacosRoutes_reload sh plan w = (Inr (), t)" and "mr_applied (rw_self w)"
  shows "mr_frame ((rw_self w)\<lparr>
      mr_proxy_ip := (case pl_proxy_route_change plan of None \<Rightarrow> mr_proxy_ip (rw_self w) | Some (_, n) \<Rightarrow> n),
      mr_bypass := pl_new_bypass plan,
      mr_dns_server := (if pl_dns_changed plan then pl_dns plan else mr_dns_server (rw_self w))\<rparr>) t"
  using assms
proof (rule macos_reloadE)
  let ?ip = "case pl_proxy_route_change plan of None \<Rightarrow> mr_proxy_ip (rw_self w) | Some (_, n) \<Rightarrow> n"
  fix u v
  assume move: "(case pl_proxy_route_change plan of
        Some (old_ip, new_ip) \<Rightarrow> macos_move_proxy sh (rw_self w) old_ip new_ip
      | None \<Rightarrow> io_return ()) w = (Inr (), u)"
    and blocks: "io_bind (io_for (pl_bypass_remove plan) (macos_delete sh (rw_self w))) (\<lambda>_.
       io_for (pl_bypass_add plan) (macos_reload_add sh (rw_self w))) u = (Inr (), v)"
    and dns: "(if pl_dns_changed plan
      then io_bind (on_nsd (nsd_reload sh (pl_dns plan))) (\<lambda>_. rt_self (\<lambda>m. m\<lparr>mr_dns_server := pl_dns plan\<rparr>))
      else io_return ()) (v\<lparr>rw_self := (rw_self v)\<lparr>mr_bypass := pl_new_bypass plan\<rparr>\<rparr>) = (Inr (), t)"
  have "mr_frame ((rw_self w)\<lparr>mr_proxy_ip := ?ip\<rparr>) u"
    using move mr_frame_self[of w] macos_move_frame by (auto simp: io_apply split: option.splits)
  moreover have "keeps (mr_frame ((rw_self w)\<lparr>mr_proxy_ip := ?ip\<rparr>)) (io_bind (io_for (pl_bypass_remove plan) (macos_delete sh (rw_self w))) (\<lambda>_.
       io_for (pl_bypass_add plan) (macos_reload_add sh (rw_self w))))"
    by (intro io_keep)
  ultimately have "mr_frame ((rw_self w)\<lparr>mr_proxy_ip := ?ip\<rparr>) v" using blocks keepsD by fast
  then have v: "mr_frame ((rw_self w)\<lparr>mr_proxy_ip := ?ip, mr_bypass := pl_new_bypass plan\<rparr>)
      (v\<lparr>rw_self := (rw_self v)\<lparr>mr_bypass := pl_new_bypass plan\<rparr>\<rparr>)"
    by (simp add: mr_frame_def Let_def)
  show ?thesis
  proof (cases "pl_dns_changed plan")
    case True
    obtain x where x: "on_nsd (nsd_reload sh (pl_dns plan)) (v\<lparr>rw_self := (rw_self v)\<lparr>mr_bypass := pl_new_bypass plan\<rparr>\<rparr>) = (Inr (), x)"
      "t = x\<lparr>rw_self := (rw_self x)\<lparr>mr_dns_server := pl_dns plan\<rparr>\<rparr>"
      using dns True by (auto simp: io_apply rt_self_def elim!: io_bind_unitE)
    from keepsD[OF mr_frame_steps(3) v x(1)] show ?thesis using x(2) True by (simp add: mr_frame_def Let_def)
  qed (use dns v in \<open>simp add: io_apply mr_frame_def Let_def\<close>)
qed

lemma macos_teardown_total: "\<exists>t. MacosRoutes_teardown sh w = (Inr (), t) \<and> \<not> mr_applied (rw_self t)"
proof (cases "mr_applied (rw_self w)")
  case True
  let ?w = "w\<lparr>rw_self := (rw_self w)\<lparr>mr_applied := False\<rparr>\<rparr>"
  have "infallible (nsd_restore sh)"
    unfolding nsd_restore_def by (intro io_total)
  then have "infallible (macos_teardown_steps sh self)" for self
    unfolding macos_teardown_steps_def macos_delete_def route_quiet_def on_nsd_def
    by (intro io_total) (auto intro: io_total split: prod.split option.split)
  then have "infallible (macos_teardown_steps sh (rw_self w))" .
  then obtain x t where "macos_teardown_steps sh (rw_self w) ?w = (Inr x, t)" by (rule infallibleE)
  then have t: "macos_teardown_steps sh (rw_self w) ?w = (Inr (), t)" by simp
  have "keeps (mr_frame (rw_self ?w)) (macos_teardown_steps sh (rw_self w))"
    unfolding macos_teardown_steps_def by (intro io_keep)
  from keepsD[OF this mr_frame_self t] have "\<not> mr_applied (rw_self t)" by (simp add: mr_frame_def Let_def)
  then show ?thesis using True t by (simp add: MacosRoutes_teardown_def io_simps rt_self_def)
qed (simp add: MacosRoutes_teardown_def io_simps)

interpretation macos_managed: managed_routes "MacosRoutes_apply sh" "MacosRoutes_reload sh" "MacosRoutes_teardown sh"
  "\<lambda>w. mr_applied (rw_self w)" "\<lambda>w. mr_proxy_ip (rw_self w)" "\<lambda>w. mr_bypass (rw_self w)"
  "\<lambda>w. mr_dns_server (rw_self w)" for sh :: "'k shell"
proof (unfold_locales, goal_cases)
  case (1 s t)
  then show ?case by (rule macos_applyE) (simp add: mr_frame_def Let_def)
next
  case (2 s plan t)
  then show ?case using macos_reload_frame[OF 2(2,1)] by (simp add: mr_frame_def Let_def)
next
  case (3 s)
  show ?case by (rule macos_teardown_total)
qed simp

section \<open>The host during a session\<close>

lemma nsd_keeps_table:
  assumes "route_ok sh tbl"
  shows "keeps (\<lambda>w. tbl (rw_kernel w) = T) (nsd_apply sh srv)" "keeps (\<lambda>w. tbl (rw_kernel w) = T) (nsd_reload sh srv)"
    "keeps (\<lambda>w. tbl (rw_kernel w) = T) (nsd_restore sh)"
proof -
  have set_servers [io_keep]: "keeps (\<lambda>w. tbl (rw_kernel w) = T) (on_kernel (set_servers sh service xs))"
    for service xs
    by (rule on_kernel_keeps) (simp add: set_servers_def cmd_snd route_ok_other[OF assms] NETWORKSETUP_def ROUTE_def)
  have get_servers [io_keep]: "keeps (\<lambda>w. tbl (rw_kernel w) = T) (on_kernel (get_servers sh service))" for service
    by (rule on_kernel_keeps)
      (simp add: get_servers_def io_simps cmd_text_def split_beta route_ok_other[OF assms] NETWORKSETUP_def ROUTE_def split: sum.split)
  have other [io_keep]: "keeps (\<lambda>w. tbl (rw_kernel w) = T) (rt_log h)" "keeps (\<lambda>w. tbl (rw_kernel w) = T) (rt_self f)" for h f
    by (simp_all add: rt_log_def rt_self_def keeps_modify)
  show "keeps (\<lambda>w. tbl (rw_kernel w) = T) (nsd_apply sh srv)" "keeps (\<lambda>w. tbl (rw_kernel w) = T) (nsd_reload sh srv)"
    "keeps (\<lambda>w. tbl (rw_kernel w) = T) (nsd_restore sh)"
    unfolding nsd_apply_def nsd_reload_def nsd_restore_def nsd_ensure_backup_def by (intro io_keep)+
qed

lemma holds_nsd:
  assumes "route_ok sh tbl"
  shows "keeps (holds tbl base X) (on_nsd (nsd_apply sh srv))" "keeps (holds tbl base X) (on_nsd (nsd_reload sh srv))"
    "keeps (holds tbl base X) (on_nsd (nsd_restore sh))"
proof -
  have "tbl (rw_kernel (snd (m w))) = tbl (rw_kernel w)" if "\<And>T. keeps (\<lambda>w. tbl (rw_kernel w) = T) m" for m w
    using that[of "tbl (rw_kernel w)"] by (auto simp: keeps_def)
  note this[OF nsd_keeps_table(1)[OF assms]] this[OF nsd_keeps_table(2)[OF assms]] this[OF nsd_keeps_table(3)[OF assms]]
  then show "keeps (holds tbl base X) (on_nsd (nsd_apply sh srv))" "keeps (holds tbl base X) (on_nsd (nsd_reload sh srv))"
    "keeps (holds tbl base X) (on_nsd (nsd_restore sh))"
    unfolding on_nsd_def by (auto intro!: holds_field)
qed

text \<open>The resolver settings under the controller.\<close>

definition macos_dns :: "'k shell \<Rightarrow> ('k \<Rightarrow> string \<Rightarrow> string list) \<Rightarrow> string \<Rightarrow> string list \<Rightarrow> 'k macos_world \<Rightarrow> bool" where
  "macos_dns sh servers service orig w \<longleftrightarrow> nsd_settled sh servers service orig (with_self (mr_dns (rw_self w)) w)"

lemma macos_dns_cong:
  "mr_dns (rw_self w) = mr_dns (rw_self v) \<Longrightarrow> servers (rw_kernel w) = servers (rw_kernel v) \<Longrightarrow>
   macos_dns sh servers service orig w = macos_dns sh servers service orig v"
  by (simp add: macos_dns_def nsd_settled_def with_self_def)

lemma macos_dns_steps [io_keep]:
  "keeps (macos_dns sh servers service orig) (rt_log h)"
  "(\<And>m. mr_dns (f m) = mr_dns m) \<Longrightarrow> keeps (macos_dns sh servers service orig) (rt_self f)"
  by (auto simp: rt_log_def rt_self_def macos_dns_def nsd_settled_def with_self_def intro!: keeps_modify)

lemma macos_dns_route:
  assumes "networksetup_ok sh servers"
  shows "keeps (macos_dns sh servers service orig) (on_kernel (route sh args))"
    "keeps (macos_dns sh servers service orig) (on_kernel (route_quiet sh args))"
    "keeps (macos_dns sh servers service orig) (on_kernel (macos_default_gateway sh family))"
proof -
  have "servers (snd (sh ROUTE xs k)) = servers k" for xs k
    by (rule networksetup_okD(4)[OF assms]) (simp add: NETWORKSETUP_def ROUTE_def)
  then show "keeps (macos_dns sh servers service orig) (on_kernel (route sh args))"
    "keeps (macos_dns sh servers service orig) (on_kernel (route_quiet sh args))"
    "keeps (macos_dns sh servers service orig) (on_kernel (macos_default_gateway sh family))"
    by (intro on_kernel_keeps;
      simp add: macos_dns_def nsd_settled_def with_self_def route_def route_quiet_def macos_default_gateway_def
        cmd_snd io_simps cmd_text_def split_beta split: sum.split)+
qed

lemma macos_dns_calls:
  shows "keeps (macos_dns sh servers service orig) (on_nsd (nsd_apply sh srv))"
    "keeps (macos_dns sh servers service orig) (on_nsd (nsd_reload sh srv))"
    "keeps (macos_dns sh servers service orig) (on_nsd (nsd_restore sh))"
proof -
  have lift: "keeps (macos_dns sh servers service orig) (on_nsd m)"
    if "\<And>w. nsd_settled sh servers service orig w \<Longrightarrow> nsd_settled sh servers service orig (snd (m w))" for m
    unfolding keeps_def
  proof (intro allI impI)
    fix w assume "macos_dns sh servers service orig w"
    from that[OF this[unfolded macos_dns_def]] show "macos_dns sh servers service orig (snd (on_nsd m w))"
      by (auto simp: macos_dns_def on_nsd_def on_field_def with_self_def nsd_settled_def split: prod.splits)
  qed
  show "keeps (macos_dns sh servers service orig) (on_nsd (nsd_apply sh srv))"
    by (rule lift) (metis nsd_apply_settled snd_conv)
  show "keeps (macos_dns sh servers service orig) (on_nsd (nsd_reload sh srv))"
    by (rule lift) (metis nsd_reload_settled snd_conv)
  show "keeps (macos_dns sh servers service orig) (on_nsd (nsd_restore sh))"
    by (rule lift) (metis nsd_restore_settled snd_conv)
qed

lemma macos_dns_session:
  assumes "networksetup_ok sh servers"
  shows "keeps (macos_dns sh servers service orig) (MacosRoutes_apply sh)"
    "keeps (macos_dns sh servers service orig) (MacosRoutes_reload sh plan)"
proof -
  note [io_keep] = macos_dns_route[OF assms] macos_dns_calls
  have block [io_keep]: "keeps (macos_dns sh servers service orig) (macos_add_bypass sh self b)"
    "keeps (macos_dns sh servers service orig) (macos_reload_add sh self b)"
    "keeps (macos_dns sh servers service orig) (macos_delete sh self b)" for self b
    by (auto simp: macos_add_bypass_def macos_reload_add_def macos_delete_def add_host_via_gateway_def
        split: prod.split option.split intro!: io_keep)
  have move [io_keep]: "keeps (macos_dns sh servers service orig) (macos_move_proxy sh self old_ip new_ip)" for self old_ip new_ip
    unfolding macos_move_proxy_def add_host_via_gateway_def by (intro io_keep) simp
  have install [io_keep]: "keeps (macos_dns sh servers service orig) (macos_install sh self)" for self
    unfolding macos_install_def add_host_via_gateway_def by (intro io_keep)
  show "keeps (macos_dns sh servers service orig) (MacosRoutes_apply sh)"
    unfolding MacosRoutes_apply_def by (intro io_keep) simp_all
  show "keeps (macos_dns sh servers service orig) (MacosRoutes_reload sh plan)"
    unfolding MacosRoutes_reload_def macos_reload_steps_def by (intro io_keep) simp_all
qed

lemma holds_move:
  assumes "route_ok sh tbl" and "set_option (block_route self (macos_pin old_ip)) \<inter> base = {}"
  shows "triple (holds tbl base X) (macos_move_proxy sh self old_ip new_ip)
    (holds tbl base (X - set_option (block_route self (macos_pin old_ip)) \<union> set_option (block_route self (macos_pin new_ip))))"
proof -
  let ?Y = "X - set_option (block_route self (macos_pin old_ip)) \<union> set_option (block_route self (macos_pin new_ip))"
  have pin: "(old_ip, macos_host_prefix old_ip) = macos_pin old_ip" by (simp add: macos_pin_def)
  have del: "triple (holds tbl base X) (macos_delete sh self (macos_pin old_ip)) (holds tbl base ?Y)"
    using holds_delete[OF assms] by (rule triple_weaken) (erule holds_mono, blast)
  have add: "keeps (holds tbl base ?Y) (on_kernel (add_host_via_gateway sh new_ip (macos_host_prefix new_ip) gw))"
    if "macos_gateway_for self new_ip = Some gw" for gw
    unfolding add_host_via_gateway_def
    by (rule holds_add_route[OF assms(1)]) (simp add: macos_pin_def block_route_def that)
  have rest: "keeps (holds tbl base ?Y) (io_bind (io_lift (context_opt c (macos_gateway_for self new_ip))) f)"
    if "\<And>g. macos_gateway_for self new_ip = Some g \<Longrightarrow> keeps (holds tbl base ?Y) (f g)" for c f
    using that by (cases "macos_gateway_for self new_ip") (simp_all add: keeps_def io_simps)
  show ?thesis
    unfolding macos_move_proxy_def pin
    by (rule triple_bind[OF del], rule triple_keeps, rule rest) (intro io_keep add, assumption)
qed

lemma own_routes_settings:
  "own_routes (m\<lparr>mr_proxy_ip := ip, mr_bypass := bs, mr_dns_server := d\<rparr>) =
     block_routes m (insert (macos_pin ip) (set bs)) \<union> tun_routes m"
proof -
  let ?n = "m\<lparr>mr_proxy_ip := ip, mr_bypass := bs, mr_dns_server := d\<rparr>"
  have "macos_gateway_for ?n = macos_gateway_for m"
    by (auto simp: fun_eq_iff macos_gateway_for_def split: IpAddr.split)
  then have "block_route ?n = block_route m" by (simp add: block_route_def)
  then show ?thesis by (simp add: own_routes_def block_routes_def tun_routes_def)
qed

lemma own_routes_applied: "own_routes (m\<lparr>mr_applied := b\<rparr>) = own_routes m"
proof -
  have "macos_gateway_for (m\<lparr>mr_applied := b\<rparr>) = macos_gateway_for m"
    by (auto simp: fun_eq_iff macos_gateway_for_def split: IpAddr.split)
  then have "block_route (m\<lparr>mr_applied := b\<rparr>) = block_route m" by (simp add: block_route_def)
  then show ?thesis by (simp add: own_routes_def block_routes_def tun_routes_def)
qed

lemma own_routes_frame:
  assumes "mr_frame m w"
  shows "own_routes (rw_self w) = own_routes m"
proof -
  have "macos_gateway_for (rw_self w) = macos_gateway_for m"
    using assms by (auto simp: fun_eq_iff macos_gateway_for_def mr_frame_def Let_def split: IpAddr.split)
  then have "block_route (rw_self w) = block_route m" by (simp add: block_route_def)
  then show ?thesis using assms by (simp add: own_routes_def block_routes_def tun_routes_def mr_frame_def Let_def)
qed

text \<open>
  A plan made for the routes in place. \<open>free\<close> says that the host had none of them before.
\<close>

definition macos_plan_fits :: "MacosRoutes \<Rightarrow> ReloadPlan \<Rightarrow> bool" where
  "macos_plan_fits m plan \<longleftrightarrow>
     (\<forall>old_ip new_ip. pl_proxy_route_change plan = Some (old_ip, new_ip) \<longrightarrow> old_ip = mr_proxy_ip m) \<and>
     set (pl_bypass_remove plan) = set (mr_bypass m) - set (pl_new_bypass plan) \<and>
     set (pl_bypass_add plan) \<subseteq> set (pl_new_bypass plan)"

lemma macos_reload_holds:
  assumes ok: "route_ok sh tbl" and fits: "macos_plan_fits (rw_self w) plan" and free: "own_routes (rw_self w) \<inter> base = {}"
    and w: "holds tbl base (own_routes (rw_self w)) w" and up: "mr_applied (rw_self w)"
    and run: "MacosRoutes_reload sh plan w = (Inr (), t)"
  shows "holds tbl base (own_routes (rw_self t)) t"
  using run up
proof (rule macos_reloadE)
  let ?m = "rw_self w"
  let ?ip = "case pl_proxy_route_change plan of None \<Rightarrow> mr_proxy_ip ?m | Some (_, n) \<Rightarrow> n"
  let ?X = "case pl_proxy_route_change plan of None \<Rightarrow> own_routes ?m
    | Some (old_ip, new_ip) \<Rightarrow> own_routes ?m - set_option (block_route ?m (macos_pin old_ip)) \<union> set_option (block_route ?m (macos_pin new_ip))"
  let ?R = "block_routes ?m (set (pl_bypass_remove plan))" and ?A = "block_routes ?m (set (pl_bypass_add plan))"
  fix u v
  assume move: "(case pl_proxy_route_change plan of
        Some (old_ip, new_ip) \<Rightarrow> macos_move_proxy sh ?m old_ip new_ip
      | None \<Rightarrow> io_return ()) w = (Inr (), u)"
    and blocks: "io_bind (io_for (pl_bypass_remove plan) (macos_delete sh ?m)) (\<lambda>_.
       io_for (pl_bypass_add plan) (macos_reload_add sh ?m)) u = (Inr (), v)"
    and dns: "(if pl_dns_changed plan
      then io_bind (on_nsd (nsd_reload sh (pl_dns plan))) (\<lambda>_. rt_self (\<lambda>m. m\<lparr>mr_dns_server := pl_dns plan\<rparr>))
      else io_return ()) (v\<lparr>rw_self := (rw_self v)\<lparr>mr_bypass := pl_new_bypass plan\<rparr>\<rparr>) = (Inr (), t)"
  have pins: "set_option (block_route ?m (macos_pin (mr_proxy_ip ?m))) \<inter> base = {}" "?R \<inter> base = {}"
    using free fits by (auto simp: own_routes_def block_routes_def macos_plan_fits_def)
  have u: "holds tbl base ?X u"
    using move w tripleD[OF holds_move[OF ok], of _ _ base] pins(1) fits
    by (auto simp: io_apply macos_plan_fits_def split: option.splits)
  have adds: "keeps (holds tbl base (?X - ?R \<union> ?A)) (io_for (pl_bypass_add plan) (macos_reload_add sh ?m))"
    by (intro io_keep holds_add_block(2)[OF ok]) (auto simp: block_routes_def)
  have "triple (holds tbl base ?X) (io_for (pl_bypass_remove plan) (macos_delete sh ?m)) (holds tbl base (?X - ?R \<union> ?A))"
    using holds_delete_each[OF ok pins(2)] by (rule triple_weaken) (auto intro: holds_mono)
  from tripleD[OF triple_bind[OF this triple_keeps[OF adds]] u blocks]
  have "holds tbl base (?X - ?R \<union> ?A) (v\<lparr>rw_self := (rw_self v)\<lparr>mr_bypass := pl_new_bypass plan\<rparr>\<rparr>)" by simp
  moreover have "keeps (holds tbl base (?X - ?R \<union> ?A)) (if pl_dns_changed plan
      then io_bind (on_nsd (nsd_reload sh (pl_dns plan))) (\<lambda>_. rt_self (\<lambda>m. m\<lparr>mr_dns_server := pl_dns plan\<rparr>))
      else io_return ())"
    by (intro io_keep holds_nsd[OF ok])
  ultimately have t: "holds tbl base (?X - ?R \<union> ?A) t" using dns keepsD by fast
  have "?X - ?R \<union> ?A \<subseteq> block_routes ?m (insert (macos_pin ?ip) (set (pl_new_bypass plan))) \<union> tun_routes ?m"
    using fits by (auto simp: own_routes_def block_routes_def macos_plan_fits_def split: option.splits)
  also have "\<dots> = own_routes (rw_self t)"
    using own_routes_frame[OF macos_reload_frame[OF run up]] by (simp only: own_routes_settings)
  finally show ?thesis using t holds_mono by blast
qed

text \<open>The host after \<open>apply\<close>, and after \<open>teardown\<close>.\<close>

lemma macos_apply_holds:
  assumes ok: "route_ok sh tbl" and run: "MacosRoutes_apply sh w = (Inr (), t)"
  shows "holds tbl (tbl (rw_kernel w)) (own_routes (rw_self t)) t"
  using run
proof (rule macos_applyE)
  fix v4 v6 k\<^sub>1 k u v
  assume gw: "macos_default_gateway sh ''-inet'' (rw_kernel w) = (Inr v4, k\<^sub>1)"
    "macos_default_gateway sh ''-inet6'' k\<^sub>1 = (Inr v6, k)"
    and u: "u = w\<lparr>rw_kernel := k, rw_self := (rw_self w)\<lparr>mr_v4_gateway := v4, mr_v6_gateway := v6\<rparr>\<rparr>"
    and go: "io_bind (macos_install sh (rw_self u)) (\<lambda>_. on_nsd (nsd_apply sh (mr_dns_server (rw_self u)))) u = (Inr (), v)"
    and frame: "mr_frame (rw_self u) v" and t: "t = v\<lparr>rw_self := (rw_self v)\<lparr>mr_applied := True\<rparr>\<rparr>"
  have same: "tbl k' = tbl k''" if "macos_default_gateway sh family k'' = (r, k')" for family k'' r k'
    using that route_ok_other[OF ok, of ROUTE "[''-n'', ''get'', family, ''default'']" k'']
    by (auto simp: macos_default_gateway_def cmd_text_def io_simps split: prod.splits sum.splits)
  have start: "holds tbl (tbl (rw_kernel w)) (own_routes (rw_self u)) u"
    using same[OF gw(1)] same[OF gw(2)] by (simp add: u holds_def)
  have "keeps (holds tbl (tbl (rw_kernel w)) (own_routes (rw_self u)))
      (io_bind (macos_install sh (rw_self u)) (\<lambda>_. on_nsd (nsd_apply sh (mr_dns_server (rw_self u)))))"
    by (intro io_keep holds_install[OF ok] holds_nsd[OF ok])
  from keepsD[OF this start go] have "holds tbl (tbl (rw_kernel w)) (own_routes (rw_self u)) t" by (simp add: t)
  moreover have "own_routes (rw_self t) = own_routes (rw_self v)" by (simp add: t own_routes_applied)
  ultimately show ?thesis using own_routes_frame[OF frame] by simp
qed

lemma macos_teardown_restores:
  assumes ok: "route_ok sh tbl" and w: "holds tbl base (own_routes (rw_self w)) w" "own_routes (rw_self w) \<inter> base = {}"
    and up: "mr_applied (rw_self w)" and run: "MacosRoutes_teardown sh w = (Inr (), t)"
  shows "tbl (rw_kernel t) = base"
proof -
  let ?m = "rw_self w"
  let ?p = "set_option (block_route ?m (macos_pin (mr_proxy_ip ?m)))" and ?b = "block_routes ?m (set (mr_bypass ?m))"
  let ?v4 = "(\<lambda>net. via_tun ''-inet'' net (mr_tun_name ?m)) ` set macos_V4_SPLIT"
  let ?v6 = "if mr_capture_ipv6 ?m then (\<lambda>net. via_tun ''-inet6'' net (mr_tun_name ?m)) ` set macos_V6_SPLIT else {}"
  have own: "own_routes ?m = ?p \<union> ?b \<union> (?v4 \<union> ?v6)"
    by (auto simp: own_routes_def block_routes_insert tun_routes_def)
  have pin: "(mr_proxy_ip ?m, macos_host_prefix (mr_proxy_ip ?m)) = macos_pin (mr_proxy_ip ?m)" by (simp add: macos_pin_def)
  note ops = route_table_ops[OF ok]
  have free: "?p \<inter> base = {}" "?b \<inter> base = {}" "?v4 \<inter> base = {}" "?v6 \<inter> base = {}" using w(2) unfolding own by blast+
  have v6: "triple (holds tbl base (own_routes ?m - ?p - ?b - ?v4))
      (if mr_capture_ipv6 ?m
       then io_for macos_V6_SPLIT (\<lambda>net. on_kernel (route_quiet sh (''delete'' # via_tun ''-inet6'' net (mr_tun_name ?m))))
       else io_return ()) (holds tbl base (own_routes ?m - ?p - ?b - ?v4 - ?v6))"
    using free(4) by (auto simp: triple_def io_apply dest: tripleD[OF holds_del_list[OF ops]])
  have steps: "triple (holds tbl base (own_routes ?m)) (macos_teardown_steps sh ?m)
      (holds tbl base (own_routes ?m - ?p - ?b - ?v4 - ?v6))"
    unfolding macos_teardown_steps_def pin
    by (rule triple_bind[OF holds_delete[OF ok free(1)]], rule triple_bind[OF holds_delete_each[OF ok free(2)]],
        rule triple_bind[OF holds_del_list[OF ops free(3)]], rule triple_bind[OF v6])
      (intro triple_keeps io_keep holds_nsd[OF ok])
  have go: "macos_teardown_steps sh ?m (w\<lparr>rw_self := ?m\<lparr>mr_applied := False\<rparr>\<rparr>) = (Inr (), t)"
    using run up by (simp add: MacosRoutes_teardown_def io_bind_apply io_apply rt_self_def)
  have "holds tbl base (own_routes ?m - ?p - ?b - ?v4 - ?v6) t"
    by (rule tripleD[OF steps _ go]) (simp add: w(1))
  moreover have "own_routes ?m - ?p - ?b - ?v4 - ?v6 = {}" unfolding own by blast
  ultimately show ?thesis by (auto simp: holds_def)
qed

end
