(* ===== verification/Macos_Tun.thy ===== *)
theory Macos_Tun
  imports Commands Config Tcp
begin

text \<open>
  \<^verbatim>\<open>src/platform/macos/tun.rs\<close>: the \<^verbatim>\<open>utun\<close> device. The system calls are a
  parameter; every packet on the descriptor has four bytes in front that name its family.
\<close>

section \<open>Making the device\<close>

text \<open>
  The calls of \<^verbatim>\<open>libc\<close> and \<^verbatim>\<open>tokio\<close> with their errors: opening the control
  socket, looking up the identifier of a control by name, connecting to a unit of it, reading the name
  of the interface into a buffer of 32 bytes with its length, reading and setting the flags of the
  descriptor, and registering it.
\<close>

record 'k utun_calls =
  uc_socket :: "('k, nat) io"
  uc_ctl_info :: "nat \<Rightarrow> string \<Rightarrow> ('k, u32) io"
  uc_connect :: "nat \<Rightarrow> u32 \<Rightarrow> u32 \<Rightarrow> ('k, unit) io"
  uc_ifname :: "nat \<Rightarrow> ('k, bytes \<times> nat) io"
  uc_getfl :: "nat \<Rightarrow> ('k, u32) io"
  uc_setfl :: "nat \<Rightarrow> u32 \<Rightarrow> ('k, unit) io"
  uc_register :: "nat \<Rightarrow> ('k, unit) io"

definition UTUN_CONTROL_NAME :: string where
  "UTUN_CONTROL_NAME = ''com.apple.net.utun_control''"

definition UTUN_PREFIX :: nat where
  "UTUN_PREFIX = 4"

definition MAX_PACKET :: nat where
  "MAX_PACKET = 65536"

definition O_NONBLOCK :: u32 where
  "O_NONBLOCK = 4"

unbundle bit_operations_syntax

definition utun_set_nonblocking :: "'k utun_calls \<Rightarrow> nat \<Rightarrow> ('k, unit) io" where
  "utun_set_nonblocking uc fd =
     io_bind (uc_getfl uc fd) (\<lambda>flags. uc_setfl uc fd (flags OR O_NONBLOCK))"

fun position_zero :: "bytes \<Rightarrow> nat option" where
  "position_zero [] = None"
| "position_zero (b # bs) = (if b = 0 then Some 0 else map_option Suc (position_zero bs))"

definition open_utun :: "'k utun_calls \<Rightarrow> u32 \<Rightarrow> ('k, nat \<times> string) io" where
  "open_utun uc unit_nr =
     io_bind (io_context ''failed to open PF_SYSTEM socket'' (uc_socket uc)) (\<lambda>fd.
     io_bind (io_context ''CTLIOCGINFO ioctl failed'' (uc_ctl_info uc fd UTUN_CONTROL_NAME)) (\<lambda>ctl_id.
     io_bind (io_context ''failed to connect utun control'' (uc_connect uc fd ctl_id (unit_nr + 1))) (\<lambda>_.
     io_bind (io_context ''failed to read utun interface name'' (uc_ifname uc fd)) (\<lambda>(ifname, ifname_len).
     let upto = (case position_zero ifname of Some i \<Rightarrow> i | None \<Rightarrow> ifname_len) in
     io_return (fd, from_utf8_lossy (take upto ifname))))))"

definition run_ifconfig :: "'k shell \<Rightarrow> string list \<Rightarrow> ('k, unit) io" where
  "run_ifconfig sh args =
     cmd_checked sh ''/sbin/ifconfig'' args ''failed to run ifconfig'' (''ifconfig '' @ debug_strs args)"

definition macos_create_tun :: "'k shell \<Rightarrow> 'k utun_calls \<Rightarrow> Config \<Rightarrow> u32 \<Rightarrow> ('k, TunDevice) io" where
  "macos_create_tun sh uc cfg mtu =
     io_bind (open_utun uc 0) (\<lambda>(fd, name).
     io_bind (io_context ''failed to set utun nonblocking'' (utun_set_nonblocking uc fd)) (\<lambda>_.
     io_bind (run_ifconfig sh [name, tun_ip cfg, tun_ip cfg, ''up'']) (\<lambda>_.
     io_bind (run_ifconfig sh [name, ''mtu'', show_word mtu]) (\<lambda>_.
     io_bind (io_context ''failed to register utun with tokio'' (uc_register uc fd)) (\<lambda>_.
     io_return \<lparr>tun_device_name = name, tun_device_mtu = mtu\<rparr>)))))"

section \<open>Packets\<close>

text \<open>
  One turn of the loop in \<^verbatim>\<open>poll_read\<close> and \<^verbatim>\<open>poll_write\<close>: the descriptor is not ready,
  its readiness is an error, the call would have blocked after all, or it has failed or succeeded.
  The value of a poll is over all turns; nothing is left to try when the list ends, so the task waits.
\<close>

datatype 'a fd_turn = NotReady | ReadyError string | WouldBlock | CallFailed string | CallDone 'a

datatype 'a poll = Pending | Ready "string + 'a"

fun macos_poll_read :: "bytes fd_turn list \<Rightarrow> nat \<Rightarrow> bytes poll" where
  "macos_poll_read [] remaining = Pending"
| "macos_poll_read (turn # turns) remaining =
     (case turn of
        NotReady \<Rightarrow> Pending
      | ReadyError e \<Rightarrow> Ready (Inl e)
      | WouldBlock \<Rightarrow> macos_poll_read turns remaining
      | CallFailed e \<Rightarrow> Ready (Inl e)
      | CallDone frame \<Rightarrow>
          (if length frame > UTUN_PREFIX then Ready (Inr (take remaining (drop UTUN_PREFIX frame)))
           else Ready (Inr [])))"

definition AF_INET :: u32 where
  "AF_INET = 2"

definition AF_INET6 :: u32 where
  "AF_INET6 = 30"

definition utun_frame :: "bytes \<Rightarrow> bytes" where
  "utun_frame buf = be_bytes 4 (if drop_bit 4 (hd buf) = 6 then AF_INET6 else AF_INET) @ buf"

fun macos_write_turns :: "nat \<Rightarrow> unit fd_turn list \<Rightarrow> nat poll" where
  "macos_write_turns n [] = Pending"
| "macos_write_turns n (turn # turns) =
     (case turn of
        NotReady \<Rightarrow> Pending
      | ReadyError e \<Rightarrow> Ready (Inl e)
      | WouldBlock \<Rightarrow> macos_write_turns n turns
      | CallFailed e \<Rightarrow> Ready (Inl e)
      | CallDone _ \<Rightarrow> Ready (Inr n))"

text \<open>The value is the frame offered to the descriptor, if any, and what the poll returns.\<close>

definition macos_poll_write :: "bytes \<Rightarrow> unit fd_turn list \<Rightarrow> bytes option \<times> nat poll" where
  "macos_poll_write buf turns =
     (if buf = [] then (None, Ready (Inr 0))
      else (Some (utun_frame buf), macos_write_turns (length buf) turns))"

text \<open>
  C0. What is written to the device is what comes out when it is read: the frame of a packet,
  whatever its length and family, is read back as the packet, up to the room in the reader's buffer,
  and the four bytes in front name the family of the packet's version field.
\<close>

theorem utun_frame_roundtrip:
  assumes "macos_poll_write packet turns = (Some frame, r)"
  shows "macos_poll_read [CallDone frame] room = Ready (Inr (take room packet)) \<and>
    (from_be_bytes (take 4 frame) = AF_INET6 \<longleftrightarrow> drop_bit 4 (hd packet) = 6)"
proof -
  have packet: "packet \<noteq> []" and frame: "frame = utun_frame packet"
    using assms by (auto simp: macos_poll_write_def split: if_splits)
  have "length frame > UTUN_PREFIX" "drop UTUN_PREFIX frame = packet"
    using packet by (simp_all add: frame utun_frame_def UTUN_PREFIX_def)
  moreover have "from_be_bytes (take 4 frame) = (if drop_bit 4 (hd packet) = 6 then AF_INET6 else AF_INET)"
    using from_be_bytes_be_bytes[of 4 AF_INET] from_be_bytes_be_bytes[of 4 AF_INET6]
    by (simp add: frame utun_frame_def)
  ultimately show ?thesis by (simp add: AF_INET_def AF_INET6_def)
qed

theorem utun_frame_roundtrip_witness:
  "macos_poll_read [CallDone (0 # 0 # 0 # 30 # [0x60, 1, 2, 3])] 3 = Ready (Inr [0x60, 1, 2])"
  using utun_frame_roundtrip[of "[0x60, 1, 2, 3]" "[CallDone ()]" "0 # 0 # 0 # 30 # [0x60, 1, 2, 3]" "Ready (Inr 4)" 3]
  by (simp add: macos_poll_write_def utun_frame_def be_bytes_def upt_rec AF_INET6_def drop_bit_eq_div)

text \<open>
  C0. A frame with no payload after its four bytes reads as zero bytes, which the bridge takes for the
  end of the device: the uplink stops, and no packet read afterwards reaches the stack.
\<close>

theorem runt_frame_stops_uplink:
  assumes "length frame \<le> 4"
  shows "\<exists>payload. macos_poll_read [CallDone frame] room = Ready (Inr payload) \<and>
    bridge_uplink mtu ((Inr payload, accepted) # reads) = []"
  using assms by (simp add: UTUN_PREFIX_def)

theorem runt_frame_stops_uplink_witness:
  "bridge_uplink 1500 ((Inr [], True) # [(Inr [0x45], True)]) = []"
  using runt_frame_stops_uplink[of "[0, 0, 0, 2]" 1500 1500 True "[(Inr [0x45], True)]"]
  by (simp add: UTUN_PREFIX_def)

end
