(* ===== verification/Macos_Run.thy ===== *)
theory Macos_Run
  imports Macos_Session Macos_Tun
begin

text \<open>
  The program on a macOS host: the macOS backend put into the run of \<open>App_Run\<close>, and that a run
  leaves the host as it found it.
\<close>

section \<open>The backend\<close>

text \<open>Looking up the link does not fail: what cannot be found out is left out.\<close>

definition macos_backend :: "'k shell \<Rightarrow> 'k utun_calls \<Rightarrow> (MacosRoutes, 'k) backend" where
  "macos_backend sh uc =
     \<lparr>be_detect_link = (\<lambda>k. map_prod projr id (macos_detect_link sh k)),
      be_create_tun = (\<lambda>cfg mtu. pio_io (macos_create_tun sh uc cfg mtu)),
      be_new_route_controller = MacosRoutes_new sh,
      be_apply = MacosRoutes_apply sh,
      be_reload = MacosRoutes_reload sh,
      be_teardown = MacosRoutes_teardown sh\<rparr>"

lemma macos_detect_total: "infallible (macos_detect_link sh)"
  unfolding macos_detect_link_def default_interface_def interface_mtu_def has_default_gateway_def
  by (intro io_total)

section \<open>The host during a session\<close>

text \<open>
  \<open>macos_intact\<close>: the controller does what the configuration says, the host has the routes \<open>base\<close> and
  otherwise only the controller's, and the servers \<open>orig\<close> of the network service can be put back.
  \<open>macos_admits base cfg\<close>: the host had none of the routes that \<open>cfg\<close> asks for.
\<close>

definition macos_admits :: "string list set \<Rightarrow> Config \<Rightarrow> bool" where
  "macos_admits base cfg \<longleftrightarrow> (\<exists>a bs. proxy_socket_addr cfg = Inr a \<and> bypass_routes cfg = Inr bs \<and>
     (\<forall>(dst, prefix) \<in> insert (macos_pin (sock_ip a)) (set bs). \<forall>gw. via_gateway dst prefix gw \<notin> base) \<and>
     (\<forall>net tun. via_tun ''-inet'' net tun \<notin> base \<and> via_tun ''-inet6'' net tun \<notin> base))"

definition macos_intact ::
    "'k shell \<Rightarrow> ('k \<Rightarrow> string list set) \<Rightarrow> ('k \<Rightarrow> string \<Rightarrow> string list) \<Rightarrow> string \<Rightarrow> string list \<Rightarrow>
     string list set \<Rightarrow> Config \<Rightarrow> 'k macos_world \<Rightarrow> bool" where
  "macos_intact sh tbl servers service orig base cfg w \<longleftrightarrow>
     route_ok sh tbl \<and> networksetup_ok sh servers \<and> macos_managed.follows cfg w \<and>
     holds tbl base (own_routes (rw_self w)) w \<and> own_routes (rw_self w) \<inter> base = {} \<and>
     macos_dns sh servers service orig w"

definition macos_env ::
    "('k \<Rightarrow> string list set) \<Rightarrow> ('k \<Rightarrow> string \<Rightarrow> string list) \<Rightarrow> (MacosRoutes, 'k) app \<Rightarrow> (MacosRoutes, 'k) app \<Rightarrow> bool" where
  "macos_env tbl servers a a' \<longleftrightarrow> others a a' \<and> tbl (rw_kernel (ap_os a')) = tbl (rw_kernel (ap_os a)) \<and>
     servers (rw_kernel (ap_os a')) = servers (rw_kernel (ap_os a))"

lemma macos_follows_settings:
  assumes "macos_managed.follows cfg w" and "proxy_socket_addr cfg = Inr a" and "bypass_routes cfg = Inr bs"
  shows "mr_applied (rw_self w)" "sock_ip a = mr_proxy_ip (rw_self w)" "set bs = set (mr_bypass (rw_self w))"
  using assms by (auto simp: macos_managed.follows_def)

lemma macos_own_free:
  assumes "macos_managed.follows cfg w" and "macos_admits base cfg"
  shows "own_routes (rw_self w) \<inter> base = {}"
proof -
  obtain a bs where cfg: "proxy_socket_addr cfg = Inr a" "bypass_routes cfg = Inr bs"
    and free: "\<forall>(dst, prefix) \<in> insert (macos_pin (sock_ip a)) (set bs). \<forall>gw. via_gateway dst prefix gw \<notin> base"
      "\<forall>net tun. via_tun ''-inet'' net tun \<notin> base \<and> via_tun ''-inet6'' net tun \<notin> base"
    using assms(2) by (auto simp: macos_admits_def)
  have "block_route (rw_self w) b \<noteq> Some e"
    if "b \<in> insert (macos_pin (mr_proxy_ip (rw_self w))) (set (mr_bypass (rw_self w)))" "e \<in> base" for b e
    using free(1) that macos_follows_settings[OF assms(1) cfg] by (cases b) (auto simp: block_route_def)
  moreover have "tun_routes (rw_self w) \<inter> base = {}" using free(2) by (auto simp: tun_routes_def)
  ultimately show ?thesis unfolding own_routes_def block_routes_def by blast
qed

lemma macos_computed_plan_fits:
  assumes "macos_managed.follows old w" and "ReloadPlan_compute old new = Inr plan"
  shows "macos_plan_fits (rw_self w) plan"
  using assms(2)
proof (rule ReloadPlan_computeE)
  fix ob nb oa na px od nd
  assume acc: "bypass_routes old = Inr ob" "proxy_socket_addr old = Inr oa"
    and plan: "plan = \<lparr>pl_proxy = px, pl_route_table = RouteTable_new nb, pl_new_bypass = nb,
       pl_bypass_add = fst (diff_cidrs ob nb), pl_bypass_remove = snd (diff_cidrs ob nb),
       pl_dns = nd, pl_dns_changed = (od \<noteq> nd),
       pl_proxy_route_change =
         (if sock_ip oa \<noteq> sock_ip na then Some (sock_ip oa, sock_ip na) else None),
       pl_proxy_changed = (oa \<noteq> na \<or> username old \<noteq> username new \<or> password old \<noteq> password new)\<rparr>"
  show ?thesis
    using macos_follows_settings[OF assms(1) acc(2,1)] by (auto simp: macos_plan_fits_def plan diff_cidrs_def)
qed

lemma macos_intact_reload:
  assumes "macos_intact sh tbl servers service orig base old w" and plan: "ReloadPlan_compute old new = Inr plan"
    and "macos_admits base new" and run: "MacosRoutes_reload sh plan w = (Inr (), t)"
  shows "macos_intact sh tbl servers service orig base new t"
proof -
  have w: "route_ok sh tbl" "networksetup_ok sh servers" "macos_managed.follows old w"
    "holds tbl base (own_routes (rw_self w)) w" "own_routes (rw_self w) \<inter> base = {}" "macos_dns sh servers service orig w"
    using assms(1) by (simp_all add: macos_intact_def)
  have up: "mr_applied (rw_self w)" using w(3) by (simp add: macos_managed.follows_def)
  have follows: "macos_managed.follows new t" by (rule macos_managed.reload_follows[OF w(3) plan run])
  have "holds tbl base (own_routes (rw_self t)) t"
    by (rule macos_reload_holds[OF w(1) macos_computed_plan_fits[OF w(3) plan] w(5,4) up run])
  moreover have "macos_dns sh servers service orig t"
    by (rule keepsD[OF macos_dns_session(2)[OF w(2)] w(6) run])
  ultimately show ?thesis using w(1,2) follows macos_own_free[OF follows assms(3)] by (simp add: macos_intact_def)
qed

interpretation macos_host: reload_session "MacosRoutes_reload sh" "macos_env tbl servers"
  "macos_intact sh tbl servers service orig base" "macos_admits base" cfg
  for sh :: "'k shell" and tbl servers service orig base cfg
proof (unfold_locales, goal_cases)
  case (1 a a')
  then show ?case by (simp add: macos_env_def)
next
  case (2 a a' cfg)
  then have "rw_self (ap_os a') = rw_self (ap_os a)" by (simp add: macos_env_def others_def)
  then show ?case using 2 macos_managed.follows_self[of "ap_os a'" "ap_os a" cfg]
      macos_dns_cong[of "ap_os a'" "ap_os a" servers]
    by (simp add: macos_intact_def macos_env_def holds_def)
next
  case (3 cfg os l)
  then show ?case using macos_managed.follows_self[of "os\<lparr>rw_log := l\<rparr>" os cfg]
      macos_dns_cong[of "os\<lparr>rw_log := l\<rparr>" os servers]
    by (simp add: macos_intact_def)
next
  case (4 old os new plan)
  then have "macos_managed.follows new os" using macos_managed.noop_follows by (auto simp: macos_intact_def)
  then show ?case using 4 by (simp add: macos_intact_def)
next
  case (5 old os new plan os')
  show ?case by (rule macos_intact_reload[OF 5])
qed

section \<open>The whole run\<close>

lemma macos_new_fields:
  assumes "MacosRoutes_new sh cfg ip tun capture k = (Inr (Inr rm), k')"
  shows "mr_proxy_ip rm = ip" "bypass_routes cfg = Inr (mr_bypass rm)" "dns_addr cfg = Inr (mr_dns_server rm)"
    "ns_current (mr_dns rm) = None" "ns_original (mr_dns rm) = None"
  using assms
  by (auto simp: MacosRoutes_new_def discover_def io_simps split: sum.splits prod.splits)

lemma macos_start_intact:
  assumes ok: "route_ok sh tbl" "networksetup_ok sh servers" and valid: "Config_validate cfg = Inr ()"
    and prep: "prepare (macos_backend sh uc) su cfg w = (Inr (Inr (tuning, proxy, rm)), w')"
    and orig: "servers (rw_kernel w') (ns_service (mr_dns rm)) = orig" "list_all server_name orig" "orig \<noteq> [''Empty'']"
    and up: "start_up (macos_backend sh uc) su cfg tuning proxy (with_self rm w') = (Inr (Inr (shared, pool)), v)"
    and admits: "macos_admits (tbl (rw_kernel w')) cfg"
  shows "settings_follow cfg (app_start su cfg shared pool v)"
    and "macos_intact sh tbl servers (ns_service (mr_dns rm)) orig (tbl (rw_kernel w')) cfg v"
proof -
  obtain name capture k where p: "ProxyConfig_from_config cfg = Inr proxy"
    "MacosRoutes_new sh cfg (sock_ip (px_addr proxy)) name capture k = (Inr (Inr rm), rw_kernel w')"
    using prep by (rule prepare_okE) (simp add: macos_backend_def)
  show "settings_follow cfg (app_start su cfg shared pool v)" by (rule app_start_settings[OF up p(1) valid])
  note rm = macos_new_fields[OF p(2)]
  obtain a where a: "proxy_socket_addr cfg = Inr a" "sock_ip a = sock_ip (px_addr proxy)"
    using p(1) by (auto simp: ProxyConfig_from_config_def bind_panic_Inr_iff)
  have follows: "macos_managed.follows cfg v"
    by (rule macos_managed.start_up_follows[OF up _ a(1)]) (use a rm in \<open>simp_all add: macos_backend_def with_self_def\<close>)
  have settled: "macos_dns sh servers (ns_service (mr_dns rm)) orig (with_self rm w')"
    using ok(2) orig rm(4,5) by (simp add: macos_dns_def nsd_settled_def with_self_def)
  show "macos_intact sh tbl servers (ns_service (mr_dns rm)) orig (tbl (rw_kernel w')) cfg v"
    using up
  proof (rule start_up_okE)
    fix t assume t: "be_apply (macos_backend sh uc) (with_self rm w') = (Inr (), t)"
      and v: "v = t\<lparr>rw_log := log_info ''routing configured automatically'' (rw_log t)\<rparr>"
    then have run: "MacosRoutes_apply sh (with_self rm w') = (Inr (), t)" by (simp add: macos_backend_def)
    have "holds tbl (tbl (rw_kernel w')) (own_routes (rw_self t)) t"
      using macos_apply_holds[OF ok(1) run] by (simp add: with_self_def)
    moreover have "macos_dns sh servers (ns_service (mr_dns rm)) orig v"
      using keepsD[OF macos_dns_session(1)[OF ok(2)] settled run] macos_dns_cong[of v t servers] by (simp add: v)
    ultimately show ?thesis using ok follows macos_own_free[OF follows admits] by (simp add: macos_intact_def v)
  qed
qed

lemma macos_restored:
  "triple (macos_dns sh servers service orig) (on_nsd (nsd_restore sh)) (\<lambda>w. servers (rw_kernel w) service = orig)"
  unfolding triple_def
proof (intro allI impI)
  fix w x t
  assume "macos_dns sh servers service orig w" and run: "on_nsd (nsd_restore sh) w = (Inr x, t)"
  then obtain d where d: "nsd_restore sh (with_self (mr_dns (rw_self w)) w) = (Inr (), d)"
    "nsd_settled sh servers service orig d" "ns_current (rw_self d) = None"
    using nsd_restore_settled[of sh servers service orig] unfolding macos_dns_def by blast
  then have "rw_kernel t = rw_kernel d" using run by (auto simp: on_nsd_def on_field_def with_self_def)
  then show "servers (rw_kernel t) service = orig" using nsd_view[OF d(2)] d(3) by simp
qed

lemma macos_teardown_dns:
  assumes "networksetup_ok sh servers" and "macos_dns sh servers service orig w"
    and "macos_teardown_steps sh self w = (Inr (), t)"
  shows "servers (rw_kernel t) service = orig"
proof -
  note [io_keep] = macos_dns_route[OF assms(1)]
  have [io_keep]: "keeps (macos_dns sh servers service orig) (macos_delete sh self b)" for b
    by (auto simp: macos_delete_def split: prod.split option.split intro!: io_keep)
  have "triple (macos_dns sh servers service orig) (macos_teardown_steps sh self) (\<lambda>w. servers (rw_kernel w) service = orig)"
    unfolding macos_teardown_steps_def
    apply (rule triple_bind[OF triple_keeps], intro io_keep)
    apply (rule triple_bind[OF triple_keeps], intro io_keep)
    apply (rule triple_bind[OF triple_keeps], intro io_keep)
    apply (rule triple_bind[OF triple_keeps], intro io_keep)
    apply (rule triple_bind[OF triple_keeps], intro io_keep)
    apply (rule macos_restored)
    done
  from tripleD[OF this assms(2,3)] show ?thesis .
qed

lemma macos_teardown_host:
  assumes "macos_intact sh tbl servers service orig base cfg w" and "MacosRoutes_teardown sh w = (r, t)"
  shows "tbl (rw_kernel t) = base" "servers (rw_kernel t) service = orig"
proof -
  have w: "route_ok sh tbl" "networksetup_ok sh servers" "holds tbl base (own_routes (rw_self w)) w"
    "own_routes (rw_self w) \<inter> base = {}" "macos_dns sh servers service orig w" "mr_applied (rw_self w)"
    using assms(1) by (simp_all add: macos_intact_def macos_managed.follows_def)
  have run: "MacosRoutes_teardown sh w = (Inr (), t)" using macos_teardown_total[of sh w] assms(2) by auto
  show "tbl (rw_kernel t) = base" by (rule macos_teardown_restores[OF w(1,3,4,6) run])
  have steps: "macos_teardown_steps sh (rw_self w) (w\<lparr>rw_self := (rw_self w)\<lparr>mr_applied := False\<rparr>\<rparr>) = (Inr (), t)"
    using run w(6) by (simp add: MacosRoutes_teardown_def io_bind_apply io_apply rt_self_def)
  show "servers (rw_kernel t) service = orig"
    by (rule macos_teardown_dns[OF w(2) _ steps]) (use w(5) macos_dns_cong[of "w\<lparr>rw_self := (rw_self w)\<lparr>mr_applied := False\<rparr>\<rparr>" w servers] in simp)
qed

text \<open>
  C0. A run of the program on macOS leaves the host as it was. Suppose that \<^verbatim>\<open>run\<close> returns
  without an error after any number of reloads, none of which failed to update the routes, while nobody
  else touches the routes and the servers of the network service. Then the host has again exactly the
  routes it had before the tunnel's were added, and the service its original servers. None of the
  earlier routes may be one that a configuration of the session asks for.
\<close>

theorem macos_run_restores_host:
  assumes "route_ok sh tbl" and "networksetup_ok sh servers" and "Config_validate cfg = Inr ()"
    and "prepare (macos_backend sh uc) su cfg w = (Inr (Inr (tuning, proxy, rm)), w')"
    and "service = ns_service (mr_dns rm)"
    and "list_all server_name (servers (rw_kernel w') service)" and "servers (rw_kernel w') service \<noteq> [''Empty'']"
    and "run (macos_backend sh uc) su cfg events w = Some res" and "rr_exit res = Inr (Inr ())"
    and "events_allowed (macos_env tbl servers) events"
    and "macos_admits (tbl (rw_kernel w')) cfg"
    and "\<forall>(c, outcome) \<in> set (rr_history res).
      macos_admits (tbl (rw_kernel w')) c \<and> (\<forall>e. outcome \<noteq> RouteUpdateFailed e)"
  shows "tbl (rw_kernel (rr_world res)) = tbl (rw_kernel w') \<and>
    servers (rw_kernel (rr_world res)) service = servers (rw_kernel w') service"
proof -
  let ?be = "macos_backend sh uc" and ?base = "tbl (rw_kernel w')"
  let ?intact = "macos_intact sh tbl servers service (servers (rw_kernel w') service) ?base"
  obtain shared pool v a where up: "start_up ?be su cfg tuning proxy (with_self rm w') = (Inr (Inr (shared, pool)), v)"
    and loop: "main_loop (be_reload ?be) (su_toml su) (su_env su) events (app_start su cfg shared pool v) = Some (Inr (), a)"
    and res: "rr_world res = with_self () (snd (be_teardown ?be (ap_os a)))" "rr_history res = ap_history a"
    using assms(8,9) by (rule run_okE) (simp add: assms(4))
  note start = macos_start_intact[OF assms(1-4) refl assms(6,7)[unfolded assms(5)] up assms(11), folded assms(5)]
  have reload: "be_reload ?be = MacosRoutes_reload sh" and down: "be_teardown ?be = MacosRoutes_teardown sh"
    by (simp_all add: macos_backend_def)
  have "macos_host.session_ok sh tbl servers service (servers (rw_kernel w') service) ?base cfg (app_start su cfg shared pool v)"
    by (rule macos_host.session_start) (use start in \<open>simp_all add: app_start_def\<close>)
  from macos_host.loop_ok[OF assms(10) this loop[unfolded reload]]
  have "?intact (ap_cfg a) (ap_os a)"
    using assms(12) res(2) by (simp add: macos_host.session_ok_def macos_host.smooth_def)
  from macos_teardown_host[OF this surjective_pairing] show ?thesis
    by (simp add: res(1) down with_self_def)
qed

end
