(* ===== verification/Spec2Isabelle.thy ===== *)
theory Spec2Isabelle
  imports Dns_Limits Udp_Runs Linux_Examples Tcp Metrics Macos_Run
begin

text \<open>A verification development of cortado, a tunnel that sends captured traffic to a SOCKS5 proxy.\<close>

end
